(* ===== verification/Prelude.thy ===== *)
theory Prelude
  imports Main "HOL-Library.Word" "HOL-Library.Monad_Syntax"
    "HOL-Library.List_Lexorder" "HOL-Library.Char_ord" "HOL-Library.Sublist"
begin

text \<open>
  Shared vocabulary of the development.

  \<^item> Machine types: a C \<open>uint8_t\<close> is \<open>byte\<close>, the 32-bit \<open>int\<close>, \<open>size_t\<close>, \<open>long\<close> and
    \<open>off_t\<close> of the ARMv7 target are \<open>u32\<close> (read signed with \<open>sint\<close> where the C type is
    signed), \<open>long long\<close> is \<open>u64\<close>.
  \<^item> Partiality: a definition whose C original can run into undefined behaviour (a read or
    write outside an object, a null dereference) or may never return has an \<open>option\<close> result,
    and \<open>None\<close> means that the C code has no defined result. Error codes that the C code
    returns are ordinary values below that option.
  \<^item> Byte codecs: the locale \<open>fixed_codec\<close> is the interface through which a reader of a
    binary header relies on a fixed width encoding.
  \<^item> The functions of the C library used by several components: \<open>strcmp\<close>, \<open>strncmp\<close>,
    \<open>strstr\<close>, \<open>strtol\<close>, \<open>strtok\<close>, \<open>strchr\<close>, decimal printing.
\<close>

unbundle bit_operations_syntax

named_theorems c_simps \<open>equations that evaluate the C level operations\<close>
named_theorems inv_intros \<open>invariant preservation facts\<close>

type_synonym byte = "8 word"
type_synonym u32 = "32 word"
type_synonym u64 = "64 word"

section \<open>Reading and writing C arrays\<close>

definition rd :: "'a list \<Rightarrow> nat \<Rightarrow> 'a option" where
  "rd xs i = (if i < length xs then Some (xs ! i) else None)"

definition slice :: "'a list \<Rightarrow> nat \<Rightarrow> nat \<Rightarrow> 'a list option" where
  "slice xs off n = (if off + n \<le> length xs then Some (take n (drop off xs)) else None)"

definition blit :: "'a list \<Rightarrow> nat \<Rightarrow> 'a list \<Rightarrow> 'a list option" where
  "blit xs off ys =
     (if off + length ys \<le> length xs
      then Some (take off xs @ ys @ drop (off + length ys) xs) else None)"

text \<open>The bytes of a string literal.\<close>

definition bytes_of :: "string \<Rightarrow> byte list" where
  "bytes_of s = map (\<lambda>c. of_nat (of_char c)) s"

section \<open>The C library's string functions\<close>

definition strcmp :: "string \<Rightarrow> string \<Rightarrow> int" where
  "strcmp a b = (if a < b then -1 else if a = b then 0 else 1)"

definition starts_with :: "string \<Rightarrow> string \<Rightarrow> bool" where
  "starts_with s pre \<longleftrightarrow> take (length pre) s = pre"

fun strstr :: "string \<Rightarrow> string \<Rightarrow> bool" where
  "strstr [] needle \<longleftrightarrow> needle = []"
| "strstr (c # cs) needle \<longleftrightarrow> starts_with (c # cs) needle \<or> strstr cs needle"

definition is_digit :: "char \<Rightarrow> bool" where
  "is_digit c \<longleftrightarrow> CHR ''0'' \<le> c \<and> c \<le> CHR ''9''"

definition is_space :: "char \<Rightarrow> bool" where
  "is_space c \<longleftrightarrow> c = CHR '' '' \<or> (CHR 0x09 \<le> c \<and> c \<le> CHR 0x0D)"

definition digit_val :: "char \<Rightarrow> int" where
  "digit_val c = int (of_char c) - 48"

fun digits_val :: "int \<Rightarrow> string \<Rightarrow> int" where
  "digits_val acc [] = acc"
| "digits_val acc (c # cs) = digits_val (10 * acc + digit_val c) cs"

definition LONG_MAX :: int where "LONG_MAX = 2147483647"
definition LONG_MIN :: int where "LONG_MIN = -2147483648"

definition clamp_long :: "int \<Rightarrow> int" where
  "clamp_long v = (if v < LONG_MIN then LONG_MIN else if v > LONG_MAX then LONG_MAX else v)"

text \<open>The result of signed 32-bit arithmetic: an overflow is undefined.\<close>

definition c_int :: "int \<Rightarrow> int option" where
  "c_int v = (if LONG_MIN \<le> v \<and> v \<le> LONG_MAX then Some v else None)"

text \<open>\<open>strtol(s, &end, 10)\<close>: the value and the unparsed rest (\<open>end\<close>).\<close>

definition strtol :: "string \<Rightarrow> int \<times> string" where
  "strtol s =
     (let t = dropWhile is_space s;
          neg = (t \<noteq> [] \<and> hd t = CHR ''-'');
          u = (if t \<noteq> [] \<and> (hd t = CHR ''-'' \<or> hd t = CHR ''+'') then tl t else t);
          ds = takeWhile is_digit u
      in if ds = [] then (0, s)
         else (clamp_long (if neg then - digits_val 0 ds else digits_val 0 ds),
               dropWhile is_digit u))"

fun nat_digits :: "nat \<Rightarrow> string" where
  "nat_digits n =
     (if n < 10 then [char_of (48 + n)] else nat_digits (n div 10) @ [char_of (48 + n mod 10)])"

declare nat_digits.simps [simp del]

definition show_int :: "int \<Rightarrow> string" where
  "show_int i = (if i < 0 then CHR ''-'' # nat_digits (nat (- i)) else nat_digits (nat i))"

text \<open>
  One \<open>strtok\<close> call on the not yet consumed text: skip leading separators, then take up to
  the next separator, which is overwritten with the terminator.
\<close>

definition strtok :: "string \<Rightarrow> string \<Rightarrow> (string \<times> string) option" where
  "strtok seps s =
     (let t = dropWhile (\<lambda>c. c \<in> set seps) s
      in if t = [] then None
         else Some (takeWhile (\<lambda>c. c \<notin> set seps) t, drop 1 (dropWhile (\<lambda>c. c \<notin> set seps) t)))"

section \<open>Fixed width byte codecs\<close>

locale fixed_codec =
  fixes enc :: "'v \<Rightarrow> byte list"
    and dec :: "byte list \<Rightarrow> 'v option"
    and width :: nat
    and ok :: "'v \<Rightarrow> bool"
  assumes enc_length: "length (enc v) = width"
    and dec_enc: "ok v \<Longrightarrow> dec (enc v @ rest) = Some v"
    and dec_short: "length bs < width \<Longrightarrow> dec bs = None"
begin

lemma dec_field: "ok v \<Longrightarrow> length pre = n \<Longrightarrow> dec (drop n (pre @ enc v @ rest)) = Some v"
  by (simp add: dec_enc)

lemma enc_inj: "ok v \<Longrightarrow> ok w \<Longrightarrow> enc v = enc w \<Longrightarrow> v = w"
  using dec_enc [of v "[]"] dec_enc [of w "[]"] by simp

lemma length_concat_enc: "length (concat (map enc vs)) = width * length vs"
  by (induction vs) (simp_all add: enc_length)

lemma dec_nth:
  assumes "\<forall>v \<in> set vs. ok v" "k < length vs"
  shows "dec (drop (width * k) (concat (map enc vs) @ rest)) = Some (vs ! k)"
proof -
  have vs: "vs = take k vs @ vs ! k # drop (Suc k) vs"
    using assms(2) by (simp add: id_take_nth_drop)
  have "ok (vs ! k)" using assms by simp
  moreover have "length (concat (map enc (take k vs))) = width * k"
    using assms(2) by (simp add: length_concat_enc)
  ultimately have "dec (drop (width * k)
      (concat (map enc (take k vs)) @ enc (vs ! k) @ concat (map enc (drop (Suc k) vs)) @ rest))
      = Some (vs ! k)"
    by (rule dec_field)
  moreover have "concat (map enc vs) @ rest =
      concat (map enc (take k vs)) @ enc (vs ! k) @ concat (map enc (drop (Suc k) vs)) @ rest"
    by (subst (1) vs) simp
  ultimately show ?thesis by simp
qed

end

section \<open>Generic lemmas\<close>

lemma rd_Some [simp]: "rd xs i = Some x \<longleftrightarrow> i < length xs \<and> xs ! i = x"
  by (auto simp: rd_def)

lemma slice_eq_Some: "slice xs off n = Some ys \<longleftrightarrow> off + n \<le> length xs \<and> ys = take n (drop off xs)"
  by (auto simp: slice_def)

lemma blit_length: "blit xs off ys = Some zs \<Longrightarrow> length zs = length xs"
  by (auto simp: blit_def split: if_splits)

lemma blit_append: "blit (pre @ mid @ post) (length pre) ys = Some (pre @ ys @ post)"
  if "length ys = length mid"
  using that by (simp add: blit_def)

lemma strcmp_0 [simp]: "strcmp a b = 0 \<longleftrightarrow> a = b"
  by (simp add: strcmp_def)

lemma strcmp_less [simp]: "strcmp a b < 0 \<longleftrightarrow> a < b"
  by (auto simp: strcmp_def)

lemma strcmp_greater [simp]: "strcmp a b > 0 \<longleftrightarrow> b < a"
  by (auto simp: strcmp_def)

lemma starts_with_prefix: "starts_with s pre \<longleftrightarrow> prefix pre s"
  by (auto simp: starts_with_def prefix_def) (metis append_take_drop_id)

lemma strstr_sublist: "strstr h n \<longleftrightarrow> sublist n h"
proof (induction h)
  case Nil
  then show ?case by simp
next
  case (Cons c cs)
  then show ?case by (simp add: starts_with_prefix sublist_Cons_right)
qed

lemma digits_val_snoc: "digits_val acc (xs @ [c]) = 10 * digits_val acc xs + digit_val c"
  by (induction xs arbitrary: acc) simp_all

lemma digit_char: "d < 10 \<Longrightarrow> is_digit (char_of (48 + d :: nat)) \<and> digit_val (char_of (48 + d)) = int d"
  by (simp add: is_digit_def digit_val_def less_eq_char_def)

lemma nat_digits_digits:
  "list_all is_digit (nat_digits n) \<and> nat_digits n \<noteq> [] \<and> digits_val 0 (nat_digits n) = int n"
proof (induction n rule: nat_digits.induct)
  case (1 n)
  show ?case
  proof (cases "n < 10")
    case True
    then show ?thesis by (simp add: nat_digits.simps [of n] digit_char)
  next
    case False
    with 1 show ?thesis
      by (simp add: nat_digits.simps [of n] digit_char digits_val_snoc zdiv_int zmod_int)
  qed
qed

lemma digit_not_space: "is_digit c \<Longrightarrow> \<not> is_space c"
  by (auto simp: is_digit_def is_space_def less_eq_char_def)

lemma digit_not_sign: "is_digit c \<Longrightarrow> c \<noteq> CHR ''-'' \<and> c \<noteq> CHR ''+''"
  by (auto simp: is_digit_def less_eq_char_def)

text \<open>Printing an integer and reading it with \<open>strtol\<close> gives it back, with nothing left over.\<close>

lemma strtol_show_int: "LONG_MIN \<le> i \<Longrightarrow> i \<le> LONG_MAX \<Longrightarrow> strtol (show_int i) = (i, [])"
proof -
  assume i: "LONG_MIN \<le> i" "i \<le> LONG_MAX"
  define ds where "ds = nat_digits (nat \<bar>i\<bar>)"
  have ds: "list_all is_digit ds" "ds \<noteq> []" "digits_val 0 ds = \<bar>i\<bar>"
    using nat_digits_digits [of "nat \<bar>i\<bar>"] by (simp_all add: ds_def)
  then have tw: "takeWhile is_digit ds = ds" "dropWhile is_digit ds = []"
    by (auto simp: list_all_iff)
  obtain c cs where c: "ds = c # cs" using ds(2) by (cases ds) auto
  then have c': "is_digit c" using ds(1) by simp
  show ?thesis
  proof (cases "i < 0")
    case True
    then have "show_int i = CHR ''-'' # ds" by (simp add: show_int_def ds_def)
    moreover have "\<not> is_space (CHR ''-'')" by (simp add: is_space_def less_eq_char_def)
    ultimately show ?thesis
      using True ds i by (simp add: strtol_def clamp_long_def Let_def tw)
  next
    case False
    then have "show_int i = ds" by (simp add: show_int_def ds_def)
    moreover have "dropWhile is_space ds = ds"
      using c digit_not_space [OF c'] by simp
    moreover have "hd ds \<noteq> CHR ''-''" "hd ds \<noteq> CHR ''+''"
      using c digit_not_sign [OF c'] by simp_all
    ultimately show ?thesis
      using False ds i by (simp add: strtol_def clamp_long_def Let_def tw)
  qed
qed

lemma show_int_nonempty: "show_int i \<noteq> []"
  using nat_digits_digits [of "nat i"] by (simp add: show_int_def)

lemma sint_small: "unat (x :: u32) < 2147483648 \<Longrightarrow> sint x = int (unat x)"
proof -
  assume "unat x < 2147483648"
  then have "int (unat x) < 2147483648" by linarith
  then have "uint x < 2147483648" by simp
  then have "uint x div 2147483648 = 0" "take_bit 32 (uint x) = uint x"
    by (auto intro: div_pos_pos_trivial take_bit_int_eq_self)
  then show ?thesis
    by (simp add: sint_uint signed_take_bit_eq_take_bit_minus bit_iff_odd)
qed

end
