(* ===== verification/Byte_Utils.thy ===== *)
theory Byte_Utils
  imports Prelude
begin

text \<open>
  The little-endian readers and writers of \<open>applypatch/utils.c\<close>. A \<open>FILE*\<close> that is being
  written is the list of the bytes put into it so far; a pointer that is read from is the list
  of the bytes from there to the end of its object, and reading past that end is \<open>None\<close>.
\<close>

definition Write4 :: "u32 \<Rightarrow> byte list \<Rightarrow> byte list" where
  "Write4 value f = f @
     [ucast (value AND 0xff),
      ucast (signed_drop_bit 8 value AND 0xff),
      ucast (signed_drop_bit 16 value AND 0xff),
      ucast (signed_drop_bit 24 value AND 0xff)]"

definition Write8 :: "u64 \<Rightarrow> byte list \<Rightarrow> byte list" where
  "Write8 value f = f @
     [ucast (value AND 0xff),
      ucast (signed_drop_bit 8 value AND 0xff),
      ucast (signed_drop_bit 16 value AND 0xff),
      ucast (signed_drop_bit 24 value AND 0xff),
      ucast (signed_drop_bit 32 value AND 0xff),
      ucast (signed_drop_bit 40 value AND 0xff),
      ucast (signed_drop_bit 48 value AND 0xff),
      ucast (signed_drop_bit 56 value AND 0xff)]"

definition Read2 :: "byte list \<Rightarrow> u32 option" where
  "Read2 p = (if length p < 2 then None
     else Some (push_bit 8 (ucast (p ! 1)) OR ucast (p ! 0)))"

definition Read4 :: "byte list \<Rightarrow> u32 option" where
  "Read4 p = (if length p < 4 then None
     else Some (push_bit 24 (ucast (p ! 3)) OR push_bit 16 (ucast (p ! 2)) OR
                push_bit 8 (ucast (p ! 1)) OR ucast (p ! 0)))"

definition Read8 :: "byte list \<Rightarrow> u64 option" where
  "Read8 p = (if length p < 8 then None
     else Some (push_bit 56 (ucast (p ! 7)) OR push_bit 48 (ucast (p ! 6)) OR
                push_bit 40 (ucast (p ! 5)) OR push_bit 32 (ucast (p ! 4)) OR
                push_bit 24 (ucast (p ! 3)) OR push_bit 16 (ucast (p ! 2)) OR
                push_bit 8 (ucast (p ! 1)) OR ucast (p ! 0)))"

section \<open>Round trips\<close>

lemma and_ff_take_bit: "(v :: 'a::len word) AND 0xff = take_bit 8 v"
  by (simp add: take_bit_eq_mask mask_eq_exp_minus_1)

lemma low_byte:
  "8 \<le> LENGTH('a) \<Longrightarrow> ucast (ucast (v AND 0xff) :: byte) = take_bit 8 (v :: 'a::len word)"
  by (rule bit_word_eqI) (auto simp: and_ff_take_bit bit_simps)

lemma join_byte:
  "j + 8 \<le> LENGTH('a) \<Longrightarrow>
   push_bit j (ucast (ucast (signed_drop_bit j v AND 0xff) :: byte)) OR take_bit j v
   = take_bit (j + 8) (v :: 'a::len word)"
  by (rule bit_word_eqI) (auto simp: low_byte bit_simps)

lemma Read4_Write4: "Read4 (Write4 v [] @ rest) = Some v"
  using join_byte [of 8 v] join_byte [of 16 v] join_byte [of 24 v] low_byte [of v]
  by (simp add: Read4_def Write4_def take_bit_word_eq_self)

lemma Read8_Write8: "Read8 (Write8 v [] @ rest) = Some v"
  using join_byte [of 8 v] join_byte [of 16 v] join_byte [of 24 v] join_byte [of 32 v]
    join_byte [of 40 v] join_byte [of 48 v] join_byte [of 56 v] low_byte [of v]
  by (simp add: Read8_def Write8_def take_bit_word_eq_self)

lemma Write4_append: "Write4 v f = f @ Write4 v []"
  by (simp add: Write4_def)

lemma Write8_append: "Write8 v f = f @ Write8 v []"
  by (simp add: Write8_def)

interpretation le4: fixed_codec "\<lambda>v. Write4 v []" Read4 4 "\<lambda>_. True"
  by unfold_locales (simp_all add: Read4_Write4, simp_all add: Write4_def Read4_def)

interpretation le8: fixed_codec "\<lambda>v. Write8 v []" Read8 8 "\<lambda>_. True"
  by unfold_locales (simp_all add: Read8_Write8, simp_all add: Write8_def Read8_def)

text \<open>
  C1: integers written with \<open>Write4\<close> and \<open>Write8\<close> one after the other are read back
  unchanged, from their own offset, with \<open>Read4\<close> and \<open>Read8\<close>; a buffer too short for the
  field is never read past its end, and the file written so far is kept.
\<close>

theorem write_read_round_trip:
  "Read4 (drop (length f) (Write8 b (Write4 a f))) = Some a \<and>
   Read8 (drop (length f + 4) (Write8 b (Write4 a f))) = Some b \<and>
   take (length f) (Write8 b (Write4 a f)) = f \<and>
   length (Write8 b (Write4 a f)) = length f + 12"
proof -
  have eq: "Write8 b (Write4 a f) = f @ Write4 a [] @ Write8 b []"
    using Write8_append [of b "Write4 a f"] Write4_append [of a f] by simp
  have len: "length (Write4 a []) = 4" "length (Write8 b []) = 8"
    by (simp_all add: Write4_def Write8_def)
  have "Read8 (drop (length (f @ Write4 a [])) ((f @ Write4 a []) @ Write8 b [] @ [])) = Some b"
    by (rule le8.dec_field) simp_all
  then have "Read8 (drop (length f + 4) (f @ Write4 a [] @ Write8 b [])) = Some b"
    using len by simp
  moreover have "Read4 (drop (length f) (f @ Write4 a [] @ Write8 b [])) = Some a"
    by (rule le4.dec_field) simp_all
  ultimately show ?thesis by (simp add: eq len)
qed

end
