(* ===== verification/Edify.thy ===== *)
theory Edify
  imports Prelude
begin

text \<open>
  The interpreter of the update script language, \<open>edify/expr.c\<close>.

  A \<open>Value*\<close> is a \<open>Value option\<close> (\<open>None\<close> is \<open>NULL\<close>) and a \<open>char*\<close> result a \<open>string option\<close>.
  Functions take the \<open>State\<close> and return it updated; next to the fields of the C struct the
  state carries the text written to \<open>stdout\<close> and the arguments of \<open>sleep\<close>, the two effects
  the built-in functions have on the process. A C function pointer is a HOL function. It gets
  each argument as an \<open>arg\<close>: what \<open>argv[i]\<close> evaluates to in a given state, and the source
  range of \<open>argv[i]\<close>. Reading \<open>argv[i]\<close> beyond \<open>argc\<close> is undefined behaviour, the result
  \<open>None\<close> outside of the pair.
\<close>

section \<open>Data\<close>

definition VAL_STRING :: int where "VAL_STRING = 1"
definition VAL_BLOB :: int where "VAL_BLOB = 2"

record Value =
  vtype :: int
  vsize :: int
  vdata :: string

record 'c State =
  cookie :: 'c
  script :: string
  errmsg :: "string option"
  out :: string
  slept :: "int list"

type_synonym 'c result = "('c State \<times> Value option) option"

record 'c arg =
  arg_eval :: "'c State \<Rightarrow> 'c result"
  arg_start :: int
  arg_end :: int

type_synonym 'c Function = "string \<Rightarrow> 'c State \<Rightarrow> 'c arg list \<Rightarrow> 'c result"

datatype (dead 'c) Expr =
  Expr (e_fn: "'c Function") (e_name: string) (e_argv: "'c Expr list") (e_start: int) (e_end: int)

fun eval_expr :: "'c Expr \<Rightarrow> 'c State \<Rightarrow> 'c result" where
  "eval_expr (Expr f n as s e) st =
     f n st (map (\<lambda>a. \<lparr>arg_eval = (\<lambda>st'. eval_expr a st'),
                        arg_start = e_start a, arg_end = e_end a\<rparr>) as)"

definition expr_arg :: "'c Expr \<Rightarrow> 'c arg" where
  "expr_arg e = \<lparr>arg_eval = eval_expr e, arg_start = e_start e, arg_end = e_end e\<rparr>"

section \<open>Evaluation and values\<close>

definition BooleanString :: "string \<Rightarrow> bool" where
  "BooleanString s \<longleftrightarrow> s \<noteq> []"

definition ErrorAbort :: "'c State \<Rightarrow> string \<Rightarrow> 'c State \<times> Value option" where
  "ErrorAbort st msg = (st\<lparr>errmsg := Some (take 4095 msg)\<rparr>, None)"

definition StringValue :: "string option \<Rightarrow> Value option" where
  "StringValue str = (case str of None \<Rightarrow> None
     | Some s \<Rightarrow> Some \<lparr>vtype = VAL_STRING, vsize = int (length s), vdata = s\<rparr>)"

definition EvaluateValue :: "'c State \<Rightarrow> 'c arg \<Rightarrow> 'c result" where
  "EvaluateValue st a = arg_eval a st"

definition Evaluate :: "'c State \<Rightarrow> 'c arg \<Rightarrow> ('c State \<times> string option) option" where
  "Evaluate st a = do {
     (st1, v) \<leftarrow> arg_eval a st;
     (case v of None \<Rightarrow> Some (st1, None)
      | Some v \<Rightarrow>
          if vtype v \<noteq> VAL_STRING
          then let (st2, _) = ErrorAbort st1 (''expecting string, got value type '' @ show_int (vtype v))
               in Some (st2, None)
          else Some (st1, Some (vdata v)))
   }"

section \<open>Argument readers\<close>

fun ReadArgs :: "'c State \<Rightarrow> 'c arg list \<Rightarrow> nat \<Rightarrow> ('c State \<times> string list option) option" where
  "ReadArgs st argv 0 = Some (st, Some [])"
| "ReadArgs st argv (Suc count) = (case argv of [] \<Rightarrow> None
     | a # as \<Rightarrow> do {
         (st1, s) \<leftarrow> Evaluate st a;
         (case s of None \<Rightarrow> Some (st1, None)
          | Some s \<Rightarrow> do {
              (st2, r) \<leftarrow> ReadArgs st1 as count;
              Some (st2, map_option (Cons s) r)
            })
       })"

fun ReadValueArgs :: "'c State \<Rightarrow> 'c arg list \<Rightarrow> nat \<Rightarrow> ('c State \<times> Value list option) option" where
  "ReadValueArgs st argv 0 = Some (st, Some [])"
| "ReadValueArgs st argv (Suc count) = (case argv of [] \<Rightarrow> None
     | a # as \<Rightarrow> do {
         (st1, v) \<leftarrow> EvaluateValue st a;
         (case v of None \<Rightarrow> Some (st1, None)
          | Some v \<Rightarrow> do {
              (st2, r) \<leftarrow> ReadValueArgs st1 as count;
              Some (st2, map_option (Cons v) r)
            })
       })"

definition ReadVarArgs :: "'c State \<Rightarrow> 'c arg list \<Rightarrow> ('c State \<times> string list option) option" where
  "ReadVarArgs st argv = ReadArgs st argv (length argv)"

definition ReadValueVarArgs :: "'c State \<Rightarrow> 'c arg list \<Rightarrow> ('c State \<times> Value list option) option" where
  "ReadValueVarArgs st argv = ReadValueArgs st argv (length argv)"

section \<open>The built-in functions\<close>

fun concat_loop :: "'c State \<Rightarrow> 'c arg list \<Rightarrow> ('c State \<times> string list option) option" where
  "concat_loop st [] = Some (st, Some [])"
| "concat_loop st (a # as) = do {
     (st1, s) \<leftarrow> Evaluate st a;
     (case s of None \<Rightarrow> Some (st1, None)
      | Some s \<Rightarrow> do {
          (st2, r) \<leftarrow> concat_loop st1 as;
          Some (st2, map_option (Cons s) r)
        })
   }"

definition ConcatFn :: "'c Function" where
  "ConcatFn nm st argv =
     (if argv = [] then Some (st, StringValue (Some ''''))
      else do {
        (st1, strings) \<leftarrow> concat_loop st argv;
        Some (st1, StringValue (map_option concat strings))
      })"

definition IfElseFn :: "'c Function" where
  "IfElseFn nm st argv =
     (if length argv \<noteq> 2 \<and> length argv \<noteq> 3
      then Some (st\<lparr>errmsg := Some ''ifelse expects 2 or 3 arguments''\<rparr>, None)
      else do {
        a0 \<leftarrow> rd argv 0;
        (st1, cond) \<leftarrow> Evaluate st a0;
        (case cond of None \<Rightarrow> Some (st1, None)
         | Some c \<Rightarrow>
             if BooleanString c then do { a1 \<leftarrow> rd argv 1; EvaluateValue st1 a1 }
             else if length argv = 3 then do { a2 \<leftarrow> rd argv 2; EvaluateValue st1 a2 }
             else Some (st1, StringValue (Some c)))
      })"

definition AbortFn :: "'c Function" where
  "AbortFn nm st argv = do {
     (st1, msg) \<leftarrow> (if length argv > 0 then do { a0 \<leftarrow> rd argv 0; Evaluate st a0 }
                     else Some (st, None));
     (case msg of Some m \<Rightarrow> Some (st1\<lparr>errmsg := Some m\<rparr>, None)
      | None \<Rightarrow> Some (st1\<lparr>errmsg := Some ''called abort()''\<rparr>, None))
   }"

text \<open>
  \<open>assert_source\<close> is the \<open>memcpy\<close> of the failing argument's source text; a source range that is
  not inside the script (with its terminator) is outside of the script's buffer.
\<close>

definition assert_source :: "string \<Rightarrow> int \<Rightarrow> int \<Rightarrow> string option" where
  "assert_source scr s e =
     (if 0 \<le> s \<and> s \<le> e
      then map_option (takeWhile (\<lambda>c. c \<noteq> CHR 0x00)) (slice (scr @ [CHR 0x00]) (nat s) (nat (e - s)))
      else None)"

fun AssertFn :: "'c Function" where
  "AssertFn nm st [] = Some (st, StringValue (Some ''''))"
| "AssertFn nm st (a # as) = do {
     (st1, v) \<leftarrow> Evaluate st a;
     (case v of None \<Rightarrow> Some (st1, None)
      | Some v \<Rightarrow>
          if \<not> BooleanString v
          then do {
            src \<leftarrow> assert_source (script st1) (arg_start a) (arg_end a);
            Some (st1\<lparr>errmsg := Some (''assert failed: '' @ src)\<rparr>, None)
          }
          else AssertFn nm st1 as)
   }"

definition SleepFn :: "'c Function" where
  "SleepFn nm st argv = do {
     a0 \<leftarrow> rd argv 0;
     (st1, val) \<leftarrow> Evaluate st a0;
     (case val of None \<Rightarrow> Some (st1, None)
      | Some val \<Rightarrow> Some (st1\<lparr>slept := slept st1 @ [fst (strtol val)]\<rparr>, StringValue (Some val)))
   }"

fun StdoutFn :: "'c Function" where
  "StdoutFn nm st [] = Some (st, StringValue (Some ''''))"
| "StdoutFn nm st (a # as) = do {
     (st1, v) \<leftarrow> Evaluate st a;
     (case v of None \<Rightarrow> Some (st1, None)
      | Some v \<Rightarrow> StdoutFn nm (st1\<lparr>out := out st1 @ v\<rparr>) as)
   }"

definition LogicalAndFn :: "'c Function" where
  "LogicalAndFn nm st argv = do {
     a0 \<leftarrow> rd argv 0;
     (st1, left) \<leftarrow> Evaluate st a0;
     (case left of None \<Rightarrow> Some (st1, None)
      | Some l \<Rightarrow>
          if BooleanString l then do { a1 \<leftarrow> rd argv 1; EvaluateValue st1 a1 }
          else Some (st1, StringValue (Some l)))
   }"

definition LogicalOrFn :: "'c Function" where
  "LogicalOrFn nm st argv = do {
     a0 \<leftarrow> rd argv 0;
     (st1, left) \<leftarrow> Evaluate st a0;
     (case left of None \<Rightarrow> Some (st1, None)
      | Some l \<Rightarrow>
          if \<not> BooleanString l then do { a1 \<leftarrow> rd argv 1; EvaluateValue st1 a1 }
          else Some (st1, StringValue (Some l)))
   }"

definition LogicalNotFn :: "'c Function" where
  "LogicalNotFn nm st argv = do {
     a0 \<leftarrow> rd argv 0;
     (st1, val) \<leftarrow> Evaluate st a0;
     (case val of None \<Rightarrow> Some (st1, None)
      | Some v \<Rightarrow> Some (st1, StringValue (Some (if BooleanString v then '''' else ''t''))))
   }"

definition SubstringFn :: "'c Function" where
  "SubstringFn nm st argv = do {
     a0 \<leftarrow> rd argv 0;
     (st1, needle) \<leftarrow> Evaluate st a0;
     (case needle of None \<Rightarrow> Some (st1, None)
      | Some needle \<Rightarrow> do {
          a1 \<leftarrow> rd argv 1;
          (st2, haystack) \<leftarrow> Evaluate st1 a1;
          (case haystack of None \<Rightarrow> Some (st2, None)
           | Some haystack \<Rightarrow>
               Some (st2, StringValue (Some (if strstr haystack needle then ''t'' else ''''))))
        })
   }"

definition EqualityFn :: "'c Function" where
  "EqualityFn nm st argv = do {
     a0 \<leftarrow> rd argv 0;
     (st1, left) \<leftarrow> Evaluate st a0;
     (case left of None \<Rightarrow> Some (st1, None)
      | Some left \<Rightarrow> do {
          a1 \<leftarrow> rd argv 1;
          (st2, right) \<leftarrow> Evaluate st1 a1;
          (case right of None \<Rightarrow> Some (st2, None)
           | Some right \<Rightarrow>
               Some (st2, StringValue (Some (if strcmp left right = 0 then ''t'' else ''''))))
        })
   }"

definition InequalityFn :: "'c Function" where
  "InequalityFn nm st argv = do {
     a0 \<leftarrow> rd argv 0;
     (st1, left) \<leftarrow> Evaluate st a0;
     (case left of None \<Rightarrow> Some (st1, None)
      | Some left \<Rightarrow> do {
          a1 \<leftarrow> rd argv 1;
          (st2, right) \<leftarrow> Evaluate st1 a1;
          (case right of None \<Rightarrow> Some (st2, None)
           | Some right \<Rightarrow>
               Some (st2, StringValue (Some (if strcmp left right \<noteq> 0 then ''t'' else ''''))))
        })
   }"

definition SequenceFn :: "'c Function" where
  "SequenceFn nm st argv = do {
     a0 \<leftarrow> rd argv 0;
     (st1, left) \<leftarrow> EvaluateValue st a0;
     (case left of None \<Rightarrow> Some (st1, None)
      | Some _ \<Rightarrow> do { a1 \<leftarrow> rd argv 1; EvaluateValue st1 a1 })
   }"

definition less_than_int :: "string \<Rightarrow> string \<Rightarrow> bool" where
  "less_than_int left right =
     (let (l_int, l_end) = strtol left
      in if left = '''' \<or> l_end \<noteq> '''' then False
         else let (r_int, r_end) = strtol right
              in if right = '''' \<or> r_end \<noteq> '''' then False
                 else l_int < r_int)"

definition LessThanIntFn :: "'c Function" where
  "LessThanIntFn nm st argv =
     (if length argv \<noteq> 2
      then Some (st\<lparr>errmsg := Some ''less_than_int expects 2 arguments''\<rparr>, None)
      else do {
        (st1, r) \<leftarrow> ReadArgs st argv 2;
        (case r of None \<Rightarrow> Some (st1, None)
         | Some vs \<Rightarrow>
             Some (st1, StringValue (Some (if less_than_int (vs ! 0) (vs ! 1) then ''t'' else ''''))))
      })"

definition GreaterThanIntFn :: "'c Function" where
  "GreaterThanIntFn nm st argv =
     (if length argv \<noteq> 2
      then Some (st\<lparr>errmsg := Some ''greater_than_int expects 2 arguments''\<rparr>, None)
      else LessThanIntFn nm st [argv ! 1, argv ! 0])"

definition Literal :: "'c Function" where
  "Literal nm st argv = Some (st, StringValue (Some nm))"

definition Build :: "'c Function \<Rightarrow> int \<times> int \<Rightarrow> 'c Expr list \<Rightarrow> 'c Expr" where
  "Build f loc args = Expr f ''(operator)'' args (fst loc) (snd loc)"

section \<open>The function table\<close>

record 'c NamedFunction =
  nf_name :: string
  nf_fn :: "'c Function"

record 'c fn_state =
  fn_entries :: nat
  fn_size :: nat
  fn_table :: "'c NamedFunction option list"

definition fn_init :: "'c fn_state" where
  "fn_init = \<lparr>fn_entries = 0, fn_size = 0, fn_table = []\<rparr>"

definition RegisterFunction :: "string \<Rightarrow> 'c Function \<Rightarrow> 'c fn_state \<Rightarrow> 'c fn_state" where
  "RegisterFunction nm f t =
     (let t1 = (if fn_entries t \<ge> fn_size t
                then let n = fn_size t * 2 + 1
                     in t\<lparr>fn_size := n,
                          fn_table := fn_table t @ replicate (n - length (fn_table t)) None\<rparr>
                else t)
      in t1\<lparr>fn_table := (fn_table t1)[fn_entries t1 := Some \<lparr>nf_name = nm, nf_fn = f\<rparr>],
            fn_entries := Suc (fn_entries t1)\<rparr>)"

definition entries :: "'c fn_state \<Rightarrow> 'c NamedFunction list" where
  "entries t = map the (take (fn_entries t) (fn_table t))"

definition fn_entry_compare :: "'c NamedFunction \<Rightarrow> 'c NamedFunction \<Rightarrow> int" where
  "fn_entry_compare a b = strcmp (nf_name a) (nf_name b)"

definition FinishRegistration :: "'c fn_state \<Rightarrow> 'c fn_state" where
  "FinishRegistration t =
     t\<lparr>fn_table := map Some (sort_key nf_name (entries t)) @ drop (fn_entries t) (fn_table t)\<rparr>"

text \<open>\<open>bsearch\<close> of the C library on the elements \<open>l\<close> to \<open>u - 1\<close>.\<close>

function bsearch :: "('a \<Rightarrow> int) \<Rightarrow> 'a list \<Rightarrow> nat \<Rightarrow> nat \<Rightarrow> 'a option" where
  "bsearch cmp xs l u =
     (if l < u
      then let i = (l + u) div 2; c = cmp (xs ! i)
           in if c < 0 then bsearch cmp xs l i
              else if c > 0 then bsearch cmp xs (i + 1) u
              else Some (xs ! i)
      else None)"
  by pat_completeness auto
termination
  by (relation "measure (\<lambda>(cmp, xs, l, u). u - l)") auto

declare bsearch.simps [simp del]

definition FindFunction :: "string \<Rightarrow> 'c fn_state \<Rightarrow> 'c Function option" where
  "FindFunction nm t =
     (let key = \<lparr>nf_name = nm, nf_fn = Literal\<rparr>
      in map_option nf_fn
           (bsearch (fn_entry_compare key) (entries t) 0 (fn_entries t)))"

definition RegisterBuiltins :: "'c fn_state \<Rightarrow> 'c fn_state" where
  "RegisterBuiltins t =
     (let t = RegisterFunction ''ifelse'' IfElseFn t;
          t = RegisterFunction ''abort'' AbortFn t;
          t = RegisterFunction ''assert'' AssertFn t;
          t = RegisterFunction ''concat'' ConcatFn t;
          t = RegisterFunction ''is_substring'' SubstringFn t;
          t = RegisterFunction ''stdout'' StdoutFn t;
          t = RegisterFunction ''sleep'' SleepFn t;
          t = RegisterFunction ''less_than_int'' LessThanIntFn t
      in RegisterFunction ''greater_than_int'' GreaterThanIntFn t)"


section \<open>The contract of an edify function\<close>

text \<open>
  \<open>outcome_ok P scr st r\<close>: the computation returned (no undefined behaviour), kept the script,
  left an error message when it returned \<open>NULL\<close>, and otherwise left the error message as it
  was and returned something with property \<open>P\<close>. \<open>arg_ok\<close> is the same for an argument in
  every state, with a source range inside the script.
\<close>

definition outcome_ok ::
  "('v \<Rightarrow> bool) \<Rightarrow> string \<Rightarrow> 'c State \<Rightarrow> ('c State \<times> 'v option) option \<Rightarrow> bool" where
  "outcome_ok P scr st r \<longleftrightarrow>
     (\<exists>st' v. r = Some (st', v) \<and> script st' = scr \<and>
        (case v of None \<Rightarrow> errmsg st' \<noteq> None | Some w \<Rightarrow> errmsg st' = errmsg st \<and> P w))"

definition arg_ok :: "(Value \<Rightarrow> bool) \<Rightarrow> string \<Rightarrow> 'c arg \<Rightarrow> bool" where
  "arg_ok P scr a \<longleftrightarrow>
     0 \<le> arg_start a \<and> arg_start a \<le> arg_end a \<and> arg_end a \<le> int (length scr) \<and>
     (\<forall>st. script st = scr \<longrightarrow> outcome_ok P scr st (arg_eval a st))"

definition string_value :: "string \<Rightarrow> Value" where
  "string_value s = \<lparr>vtype = VAL_STRING, vsize = int (length s), vdata = s\<rparr>"

locale edify_fn =
  fixes f :: "'c Function"
    and arity :: "nat \<Rightarrow> bool"
  assumes contract:
    "arity (length argv) \<Longrightarrow> (\<And>s. P (string_value s)) \<Longrightarrow> list_all (arg_ok P scr) argv \<Longrightarrow>
     script st = scr \<Longrightarrow> outcome_ok P scr st (f nm st argv)"
begin

lemma node_ok:
  assumes "arity (length as)" "\<And>s. P (string_value s)" "\<forall>a \<in> set as. arg_ok P scr (expr_arg a)"
    and "0 \<le> s" "s \<le> e" "e \<le> int (length scr)"
  shows "arg_ok P scr (expr_arg (Expr f n as s e))"
proof -
  have "outcome_ok P scr st (f n st (map expr_arg as))" if "script st = scr" for st
    by (rule contract) (use assms that in \<open>auto simp: list_all_iff\<close>)
  then show ?thesis
    using assms(4-6) by (simp add: arg_ok_def expr_arg_def [abs_def])
qed

end

lemma StringValue_Some [simp]: "StringValue (Some s) = Some (string_value s)"
  by (simp add: StringValue_def string_value_def)

lemma StringValue_None [simp]: "StringValue None = None"
  by (simp add: StringValue_def)

lemma string_value_sel [simp]:
  "vtype (string_value s) = VAL_STRING" "vsize (string_value s) = int (length s)"
  "vdata (string_value s) = s"
  by (simp_all add: string_value_def)

named_theorems outcome_intros

lemma outcome_ok_None [outcome_intros]:
  "script st = scr \<Longrightarrow> errmsg st \<noteq> None \<Longrightarrow> outcome_ok P scr st0 (Some (st, None))"
  by (simp add: outcome_ok_def)

lemma outcome_ok_Some [outcome_intros]:
  "script st = scr \<Longrightarrow> errmsg st = errmsg st0 \<Longrightarrow> P w \<Longrightarrow> outcome_ok P scr st0 (Some (st, Some w))"
  by (simp add: outcome_ok_def)

lemma outcome_ok_rebase:
  "outcome_ok P scr st r \<Longrightarrow> errmsg st = errmsg st0 \<Longrightarrow> outcome_ok P scr st0 r"
  unfolding outcome_ok_def by (simp only:)

lemma outcome_ok_bind:
  assumes "outcome_ok Q scr st m"
    and "\<And>st1. script st1 = scr \<Longrightarrow> errmsg st1 \<noteq> None \<Longrightarrow> outcome_ok P scr st (k (st1, None))"
    and "\<And>st1 x. script st1 = scr \<Longrightarrow> errmsg st1 = errmsg st \<Longrightarrow> Q x \<Longrightarrow>
           outcome_ok P scr st (k (st1, Some x))"
  shows "outcome_ok P scr st (m \<bind> k)"
proof -
  from assms(1) obtain st1 v where m: "m = Some (st1, v)" "script st1 = scr"
      "case v of None \<Rightarrow> errmsg st1 \<noteq> None | Some w \<Rightarrow> errmsg st1 = errmsg st \<and> Q w"
    unfolding outcome_ok_def by blast
  then show ?thesis
    using assms(2,3) by (cases v) auto
qed

lemma Evaluate_ok:
  assumes "arg_ok P scr a" "script st = scr"
  shows "outcome_ok (\<lambda>_. True) scr st (Evaluate st a)"
proof -
  from assms have "outcome_ok P scr st (arg_eval a st)" by (simp add: arg_ok_def)
  then show ?thesis
    unfolding Evaluate_def
    by (rule outcome_ok_bind) (auto simp: ErrorAbort_def intro: outcome_intros)
qed

lemma EvaluateValue_ok:
  "arg_ok P scr a \<Longrightarrow> script st = scr \<Longrightarrow> errmsg st = errmsg st0 \<Longrightarrow>
   outcome_ok P scr st0 (EvaluateValue st a)"
  unfolding arg_ok_def EvaluateValue_def by (metis outcome_ok_rebase)

lemma Evaluate_ok':
  "arg_ok P scr a \<Longrightarrow> script st = scr \<Longrightarrow> errmsg st = errmsg st0 \<Longrightarrow>
   outcome_ok (\<lambda>_. True) scr st0 (Evaluate st a)"
  by (rule outcome_ok_rebase [OF Evaluate_ok])

lemma ReadArgs_ok:
  assumes "list_all (arg_ok P scr) argv" "script st = scr" "n \<le> length argv" "errmsg st = errmsg st0"
  shows "outcome_ok (\<lambda>vs. length vs = n) scr st0 (ReadArgs st argv n)"
  using assms
proof (induction n arbitrary: st argv)
  case 0
  then show ?case by (auto intro: outcome_intros)
next
  case (Suc n)
  then obtain a as where argv: "argv = a # as" by (cases argv) auto
  with Suc.prems have a: "arg_ok P scr a" and as: "list_all (arg_ok P scr) as" "n \<le> length as"
    by auto
  have rest: "outcome_ok (\<lambda>vs. length vs = Suc n) scr st0
      (ReadArgs st1 as n \<bind> (\<lambda>(st2, r). Some (st2, map_option (Cons s) r)))"
    if "script st1 = scr" "errmsg st1 = errmsg st0" for st1 s
    by (rule outcome_ok_bind [OF Suc.IH]) (use as that in \<open>auto intro: outcome_intros\<close>)
  show ?case
    unfolding argv ReadArgs.simps list.case
    by (rule outcome_ok_bind [OF Evaluate_ok' [OF a]])
       (use Suc.prems rest in \<open>auto intro: outcome_intros\<close>)
qed

lemma ReadValueArgs_ok:
  assumes "list_all (arg_ok P scr) argv" "script st = scr" "n \<le> length argv" "errmsg st = errmsg st0"
  shows "outcome_ok (\<lambda>vs. length vs = n \<and> list_all P vs) scr st0 (ReadValueArgs st argv n)"
  using assms
proof (induction n arbitrary: st argv)
  case 0
  then show ?case by (auto intro: outcome_intros)
next
  case (Suc n)
  then obtain a as where argv: "argv = a # as" by (cases argv) auto
  with Suc.prems have a: "arg_ok P scr a" and as: "list_all (arg_ok P scr) as" "n \<le> length as"
    by auto
  have rest: "outcome_ok (\<lambda>vs. length vs = Suc n \<and> list_all P vs) scr st0
      (ReadValueArgs st1 as n \<bind> (\<lambda>(st2, r). Some (st2, map_option (Cons v) r)))"
    if "script st1 = scr" "errmsg st1 = errmsg st0" "P v" for st1 v
    by (rule outcome_ok_bind [OF Suc.IH]) (use as that in \<open>auto intro: outcome_intros\<close>)
  show ?case
    unfolding argv ReadValueArgs.simps list.case
    by (rule outcome_ok_bind [OF EvaluateValue_ok [OF a]])
       (use Suc.prems rest in \<open>auto intro: outcome_intros\<close>)
qed

lemma concat_loop_ReadArgs: "concat_loop st argv = ReadArgs st argv (length argv)"
  by (induction argv arbitrary: st) (auto split: option.splits cong: Option.bind_cong)

lemma rd_Cons [simp]: "rd (x # xs) 0 = Some x" "rd (x # xs) (Suc n) = rd xs n"
  by (simp_all add: rd_def)

lemma rd_Cons_1 [simp]: "rd (x # xs) 1 = rd xs 0"
  by (simp add: rd_def)

lemma bind_rd [simp]: "i < length xs \<Longrightarrow> (rd xs i \<bind> k) = k (xs ! i)"
  by (simp add: rd_def)

lemma arg_ok_nth: "list_all (arg_ok P scr) argv \<Longrightarrow> i < length argv \<Longrightarrow> arg_ok P scr (argv ! i)"
  by (simp add: list_all_length)

lemmas fn_ok = outcome_intros outcome_ok_bind [OF Evaluate_ok'] EvaluateValue_ok arg_ok_nth

lemma assert_source_ok:
  "0 \<le> s \<Longrightarrow> s \<le> e \<Longrightarrow> e \<le> int (length scr) \<Longrightarrow> \<exists>src. assert_source scr s e = Some src"
  by (auto simp: assert_source_def slice_def)

lemma AssertFn_ok:
  assumes "\<And>s. P (string_value s)" "list_all (arg_ok P scr) argv" "script st = scr" "errmsg st = errmsg st0"
  shows "outcome_ok P scr st0 (AssertFn nm st argv)"
  using assms(2-)
proof (induction argv arbitrary: st)
  case Nil
  then show ?case using assms(1) by (auto intro: outcome_intros)
next
  case (Cons a as)
  have src: "\<exists>src. assert_source scr (arg_start a) (arg_end a) = Some src"
    using Cons.prems(1) by (intro assert_source_ok) (auto simp: arg_ok_def)
  from Cons.prems(1) have a: "arg_ok P scr a" by simp
  show ?case
    unfolding AssertFn.simps
    by (rule outcome_ok_bind [OF Evaluate_ok' [OF a]])
       (use Cons src in \<open>auto intro!: outcome_intros\<close>)
qed

lemma StdoutFn_ok:
  assumes "\<And>s. P (string_value s)" "list_all (arg_ok P scr) argv" "script st = scr" "errmsg st = errmsg st0"
  shows "outcome_ok P scr st0 (StdoutFn nm st argv)"
  using assms(2-)
proof (induction argv arbitrary: st)
  case Nil
  then show ?case using assms(1) by (auto intro: outcome_intros)
next
  case (Cons a as)
  from Cons.prems(1) have a: "arg_ok P scr a" by simp
  show ?case
    unfolding StdoutFn.simps
    by (rule outcome_ok_bind [OF Evaluate_ok' [OF a]])
       (use Cons in \<open>auto intro!: outcome_intros\<close>)
qed

interpretation literal_fn: edify_fn Literal "\<lambda>n. True"
  by unfold_locales (auto simp: Literal_def intro!: fn_ok)

interpretation concat_fn: edify_fn ConcatFn "\<lambda>n. True"
  by unfold_locales
     (auto simp: ConcatFn_def concat_loop_ReadArgs intro!: outcome_intros outcome_ok_bind [OF ReadArgs_ok])

interpretation ifelse_fn: edify_fn IfElseFn "\<lambda>n. True"
  by unfold_locales (auto simp: IfElseFn_def intro!: fn_ok)

interpretation abort_fn: edify_fn AbortFn "\<lambda>n. True"
  by unfold_locales (auto simp: AbortFn_def intro!: fn_ok)

interpretation assert_fn: edify_fn AssertFn "\<lambda>n. True"
  by unfold_locales (auto intro: AssertFn_ok)

interpretation sleep_fn: edify_fn SleepFn "\<lambda>n. 1 \<le> n"
  by unfold_locales (auto simp: SleepFn_def Suc_le_length_iff numeral_2_eq_2 intro!: fn_ok)

interpretation stdout_fn: edify_fn StdoutFn "\<lambda>n. True"
  by unfold_locales (auto intro: StdoutFn_ok)

interpretation and_fn: edify_fn LogicalAndFn "\<lambda>n. 2 \<le> n"
  by unfold_locales (auto simp: LogicalAndFn_def Suc_le_length_iff numeral_2_eq_2 intro!: fn_ok)

interpretation or_fn: edify_fn LogicalOrFn "\<lambda>n. 2 \<le> n"
  by unfold_locales (auto simp: LogicalOrFn_def Suc_le_length_iff numeral_2_eq_2 intro!: fn_ok)

interpretation not_fn: edify_fn LogicalNotFn "\<lambda>n. 1 \<le> n"
  by unfold_locales (auto simp: LogicalNotFn_def Suc_le_length_iff numeral_2_eq_2 intro!: fn_ok)

interpretation substring_fn: edify_fn SubstringFn "\<lambda>n. 2 \<le> n"
  by unfold_locales (auto simp: SubstringFn_def Suc_le_length_iff numeral_2_eq_2 intro!: fn_ok)

interpretation equality_fn: edify_fn EqualityFn "\<lambda>n. 2 \<le> n"
  by unfold_locales (auto simp: EqualityFn_def Suc_le_length_iff numeral_2_eq_2 intro!: fn_ok)

interpretation inequality_fn: edify_fn InequalityFn "\<lambda>n. 2 \<le> n"
  by unfold_locales (auto simp: InequalityFn_def Suc_le_length_iff numeral_2_eq_2 intro!: fn_ok)

interpretation sequence_fn: edify_fn SequenceFn "\<lambda>n. 2 \<le> n"
  by unfold_locales
     (auto simp: SequenceFn_def Suc_le_length_iff numeral_2_eq_2
       intro!: outcome_ok_bind [OF EvaluateValue_ok] fn_ok)

interpretation less_than_fn: edify_fn LessThanIntFn "\<lambda>n. True"
  by unfold_locales
     (auto simp: LessThanIntFn_def intro!: outcome_intros outcome_ok_bind [OF ReadArgs_ok])

interpretation greater_than_fn: edify_fn GreaterThanIntFn "\<lambda>n. True"
  by unfold_locales
     (auto simp: GreaterThanIntFn_def length_Suc_conv numeral_2_eq_2
       intro!: outcome_intros less_than_fn.contract)

section \<open>Well formed scripts\<close>

text \<open>
  The operators and built-in functions with the argument counts they rely on: the parser
  gives the operators theirs, \<open>is_substring\<close> and \<open>sleep\<close> do not check \<open>argc\<close> themselves.
\<close>

inductive builtin :: "'c Function \<Rightarrow> nat \<Rightarrow> bool" where
  "builtin Literal n"
| "builtin ConcatFn n"
| "builtin IfElseFn n"
| "builtin AbortFn n"
| "builtin AssertFn n"
| "builtin StdoutFn n"
| "builtin LessThanIntFn n"
| "builtin GreaterThanIntFn n"
| "1 \<le> n \<Longrightarrow> builtin SleepFn n"
| "1 \<le> n \<Longrightarrow> builtin LogicalNotFn n"
| "2 \<le> n \<Longrightarrow> builtin LogicalAndFn n"
| "2 \<le> n \<Longrightarrow> builtin LogicalOrFn n"
| "2 \<le> n \<Longrightarrow> builtin SubstringFn n"
| "2 \<le> n \<Longrightarrow> builtin EqualityFn n"
| "2 \<le> n \<Longrightarrow> builtin InequalityFn n"
| "2 \<le> n \<Longrightarrow> builtin SequenceFn n"

fun wf_expr :: "string \<Rightarrow> 'c Expr \<Rightarrow> bool" where
  "wf_expr scr (Expr f n as s e) \<longleftrightarrow>
     builtin f (length as) \<and> 0 \<le> s \<and> s \<le> e \<and> e \<le> int (length scr) \<and> list_all (wf_expr scr) as"

lemma builtin_node_ok:
  assumes "builtin f (length as)" "\<And>s. P (string_value s)"
    "\<forall>a \<in> set as. arg_ok P scr (expr_arg a)" "0 \<le> s" "s \<le> e" "e \<le> int (length scr)"
  shows "arg_ok P scr (expr_arg (Expr f n as s e))"
  using assms(1)
proof cases
qed (use assms(2-) in \<open>auto intro: literal_fn.node_ok concat_fn.node_ok ifelse_fn.node_ok
    abort_fn.node_ok assert_fn.node_ok stdout_fn.node_ok less_than_fn.node_ok
    greater_than_fn.node_ok sleep_fn.node_ok not_fn.node_ok and_fn.node_ok or_fn.node_ok
    substring_fn.node_ok equality_fn.node_ok inequality_fn.node_ok sequence_fn.node_ok\<close>)

lemma wf_expr_ok:
  assumes "\<And>s. P (string_value s)"
  shows "wf_expr scr e \<Longrightarrow> arg_ok P scr (expr_arg e)"
proof (induction e)
  case (Expr f n as s e)
  then show ?case
    using assms by (intro builtin_node_ok) (auto simp: list_all_iff)
qed

text \<open>
  C2: a script built from the operators and built-ins with the argument counts they need never
  runs into undefined behaviour. It either produces a string (type \<open>VAL_STRING\<close>, size the
  length of the data) and leaves the error message alone, or it produces \<open>NULL\<close> and an error
  message is set; the script text is kept either way.
\<close>

theorem script_evaluation_total:
  assumes "wf_expr scr e" "script st = scr"
  shows "\<exists>st' v. eval_expr e st = Some (st', v) \<and> script st' = scr \<and>
    (v = None \<longrightarrow> errmsg st' \<noteq> None) \<and>
    (\<forall>w. v = Some w \<longrightarrow> errmsg st' = errmsg st \<and> vtype w = VAL_STRING \<and> vsize w = int (length (vdata w)))"
proof -
  let ?P = "\<lambda>w. vtype w = VAL_STRING \<and> vsize w = int (length (vdata w))"
  have "arg_ok ?P scr (expr_arg e)"
    using assms(1) by (intro wf_expr_ok) simp_all
  then have "outcome_ok ?P scr st (eval_expr e st)"
    using assms(2) by (simp add: arg_ok_def expr_arg_def)
  then show ?thesis
    unfolding outcome_ok_def by (auto split: option.splits)
qed

definition demo_state :: "unit State" where
  "demo_state = \<lparr>cookie = (), script = ''a && b'', errmsg = None, out = [], slept = []\<rparr>"

definition demo_expr :: "unit Expr" where
  "demo_expr = Build LogicalAndFn (0, 6) [Expr Literal ''a'' [] 0 1, Expr Literal ''b'' [] 5 6]"

lemma demo_wf: "wf_expr ''a && b'' demo_expr"
  by (simp add: demo_expr_def Build_def builtin.intros)

theorem script_evaluation_total_witness:
  "wf_expr ''a && b'' demo_expr \<and> script demo_state = ''a && b'' \<and>
   (\<exists>st' v. eval_expr demo_expr demo_state = Some (st', v) \<and> script st' = ''a && b'')"
proof -
  have "script demo_state = ''a && b''" by (simp add: demo_state_def)
  with script_evaluation_total [OF demo_wf this] demo_wf show ?thesis by blast
qed

section \<open>Laws of the operators\<close>

lemma arg_eval_expr_arg [simp]: "arg_eval (expr_arg e) = eval_expr e"
  by (simp add: expr_arg_def)

lemma eval_node: "eval_expr (Expr f n as s e) st = f n st (map expr_arg as)"
  by (simp add: expr_arg_def [abs_def])

declare eval_expr.simps [simp del]

lemma eval_Build: "eval_expr (Build f l as) st = f ''(operator)'' st (map expr_arg as)"
  by (simp add: Build_def eval_node)

lemma result_cases:
  fixes m :: "('s \<times> 'v option) option"
  obtains (undefined) "m = None" | (null) st1 where "m = Some (st1, None)"
    | (val) st1 v where "m = Some (st1, Some v)"
  by (cases m) (auto, metis option.exhaust)

lemma Evaluate_string:
  "arg_eval a st = m \<bind> (\<lambda>(st1, r). Some (st1, StringValue (g r))) \<Longrightarrow>
   Evaluate st a = m \<bind> (\<lambda>(st1, r). Some (st1, g r))"
proof -
  assume eq: "arg_eval a st = m \<bind> (\<lambda>(st1, r). Some (st1, StringValue (g r)))"
  show ?thesis
  proof (cases m)
    case None
    then show ?thesis using eq by (simp add: Evaluate_def)
  next
    case (Some x)
    then show ?thesis using eq by (cases x; cases "g (snd x)") (simp_all add: Evaluate_def)
  qed
qed

lemma Evaluate_Build_ConcatFn:
  "as \<noteq> [] \<Longrightarrow> Evaluate st (expr_arg (Build ConcatFn l as)) =
     (concat_loop st (map expr_arg as) \<bind> (\<lambda>(st1, r). Some (st1, map_option concat r)))"
  by (rule Evaluate_string) (simp add: eval_Build ConcatFn_def)

lemma LogicalNotFn_bind: "LogicalNotFn nm st [a] =
  Evaluate st a \<bind> (\<lambda>(st1, r). Some (st1,
     StringValue (map_option (\<lambda>v. if BooleanString v then [] else ''t'') r)))"
  by (cases "Evaluate st a" rule: result_cases) (simp_all add: LogicalNotFn_def)

lemma Evaluate_Build_LogicalNotFn:
  "Evaluate st (expr_arg (Build LogicalNotFn l [a])) =
     Evaluate st (expr_arg a) \<bind>
        (\<lambda>(st1, r). Some (st1, map_option (\<lambda>v. if BooleanString v then [] else ''t'') r))"
  by (rule Evaluate_string) (simp add: eval_Build LogicalNotFn_bind)

lemma concat_law_left:
  "eval_expr (Build ConcatFn l [Build ConcatFn l' [a, b], c]) st = eval_expr (Expr ConcatFn n [a, b, c] s e) st"
proof (cases "Evaluate st (expr_arg a)" rule: result_cases)
  case (val st1 v)
  then show ?thesis
  proof (cases "Evaluate st1 (expr_arg b)" rule: result_cases)
    case (val st2 w)
    with \<open>Evaluate st _ = _\<close> show ?thesis
      by (cases "Evaluate st2 (expr_arg c)" rule: result_cases)
         (simp_all add: eval_Build eval_node ConcatFn_def Evaluate_Build_ConcatFn)
  qed (simp_all add: eval_Build eval_node ConcatFn_def Evaluate_Build_ConcatFn)
qed (simp_all add: eval_Build eval_node ConcatFn_def Evaluate_Build_ConcatFn)

lemma concat_law_right:
  "eval_expr (Build ConcatFn l [a, Build ConcatFn l' [b, c]]) st = eval_expr (Expr ConcatFn n [a, b, c] s e) st"
proof (cases "Evaluate st (expr_arg a)" rule: result_cases)
  case (val st1 v)
  then show ?thesis
  proof (cases "Evaluate st1 (expr_arg b)" rule: result_cases)
    case (val st2 w)
    with \<open>Evaluate st _ = _\<close> show ?thesis
      by (cases "Evaluate st2 (expr_arg c)" rule: result_cases)
         (simp_all add: eval_Build eval_node ConcatFn_def Evaluate_Build_ConcatFn)
  qed (simp_all add: eval_Build eval_node ConcatFn_def Evaluate_Build_ConcatFn)
qed (simp_all add: eval_Build eval_node ConcatFn_def Evaluate_Build_ConcatFn)

lemma sequence_law:
  "eval_expr (Build SequenceFn l [Build SequenceFn l' [a, b], c]) st =
     eval_expr (Build SequenceFn l [a, Build SequenceFn l' [b, c]]) st"
  by (cases "eval_expr a st" rule: result_cases)
     (simp_all add: eval_Build SequenceFn_def EvaluateValue_def)

text \<open>An operator that passes its second argument's value on, seen through \<open>Evaluate\<close>.\<close>

lemma Evaluate_Build_LogicalAndFn:
  "Evaluate st (expr_arg (Build LogicalAndFn l [a, b])) =
     Evaluate st (expr_arg a) \<bind> (\<lambda>(st1, r). case r of None \<Rightarrow> Some (st1, None)
       | Some v \<Rightarrow> if BooleanString v then Evaluate st1 (expr_arg b) else Some (st1, Some v))"
  by (cases "Evaluate st (expr_arg a)" rule: result_cases)
     (simp_all add: Evaluate_def [of _ "expr_arg (Build _ _ _)"] Evaluate_def [of _ "expr_arg b"]
       eval_Build LogicalAndFn_def EvaluateValue_def)

lemma Evaluate_Build_LogicalOrFn:
  "Evaluate st (expr_arg (Build LogicalOrFn l [a, b])) =
     Evaluate st (expr_arg a) \<bind> (\<lambda>(st1, r). case r of None \<Rightarrow> Some (st1, None)
       | Some v \<Rightarrow> if \<not> BooleanString v then Evaluate st1 (expr_arg b) else Some (st1, Some v))"
  by (cases "Evaluate st (expr_arg a)" rule: result_cases)
     (simp_all add: Evaluate_def [of _ "expr_arg (Build _ _ _)"] Evaluate_def [of _ "expr_arg b"]
       eval_Build LogicalOrFn_def EvaluateValue_def)

lemma ifelse_and_law: "eval_expr (Build IfElseFn l [a, b]) st = eval_expr (Build LogicalAndFn l [a, b]) st"
  by (cases "Evaluate st (expr_arg a)" rule: result_cases)
     (simp_all add: eval_Build IfElseFn_def LogicalAndFn_def)

lemma not_and_law:
  "eval_expr (Build LogicalNotFn l [Build LogicalAndFn l' [a, b]]) st =
     eval_expr (Build LogicalOrFn l [Build LogicalNotFn l' [a], Build LogicalNotFn l' [b]]) st"
  by (cases "Evaluate st (expr_arg a)" rule: result_cases)
     (auto simp: eval_Build LogicalNotFn_bind LogicalOrFn_def Evaluate_Build_LogicalAndFn
       Evaluate_Build_LogicalNotFn EvaluateValue_def BooleanString_def)

lemma not_or_law:
  "eval_expr (Build LogicalNotFn l [Build LogicalOrFn l' [a, b]]) st =
     eval_expr (Build LogicalAndFn l [Build LogicalNotFn l' [a], Build LogicalNotFn l' [b]]) st"
  by (cases "Evaluate st (expr_arg a)" rule: result_cases)
     (auto simp: eval_Build LogicalNotFn_bind LogicalAndFn_def Evaluate_Build_LogicalOrFn
       Evaluate_Build_LogicalNotFn EvaluateValue_def BooleanString_def)

lemma Evaluate_Literal [simp]: "Evaluate st (expr_arg (Expr Literal n as s e)) = Some (st, Some n)"
  by (simp add: Evaluate_def eval_node Literal_def)

text \<open>The values of two arguments, from left to right, up to the first that fails.\<close>

definition both_values :: "'c State \<Rightarrow> 'c arg \<Rightarrow> 'c arg \<Rightarrow> ('c State \<times> (string \<times> string) option) option" where
  "both_values st a b = Evaluate st a \<bind> (\<lambda>(st1, r). case r of None \<Rightarrow> Some (st1, None)
     | Some v \<Rightarrow> Evaluate st1 b \<bind> (\<lambda>(st2, r). Some (st2, map_option (Pair v) r)))"

lemma equality_fns_both:
  "EqualityFn nm st [a, b] = both_values st a b \<bind> (\<lambda>(st1, r). Some (st1,
     StringValue (map_option (\<lambda>(v, w). if v = w then ''t'' else []) r)))"
  "InequalityFn nm st [a, b] = both_values st a b \<bind> (\<lambda>(st1, r). Some (st1,
     StringValue (map_option (\<lambda>(v, w). if v \<noteq> w then ''t'' else []) r)))"
proof -
  have "EqualityFn nm st [a, b] = both_values st a b \<bind> (\<lambda>(st1, r). Some (st1,
       StringValue (map_option (\<lambda>(v, w). if v = w then ''t'' else []) r))) \<and>
     InequalityFn nm st [a, b] = both_values st a b \<bind> (\<lambda>(st1, r). Some (st1,
       StringValue (map_option (\<lambda>(v, w). if v \<noteq> w then ''t'' else []) r)))"
  proof (cases "Evaluate st a" rule: result_cases)
    case (val st1 v)
    then show ?thesis
      by (cases "Evaluate st1 b" rule: result_cases) (simp_all add: EqualityFn_def InequalityFn_def both_values_def)
  qed (simp_all add: EqualityFn_def InequalityFn_def both_values_def)
  then show "EqualityFn nm st [a, b] = both_values st a b \<bind> (\<lambda>(st1, r). Some (st1,
      StringValue (map_option (\<lambda>(v, w). if v = w then ''t'' else []) r)))"
    "InequalityFn nm st [a, b] = both_values st a b \<bind> (\<lambda>(st1, r). Some (st1,
      StringValue (map_option (\<lambda>(v, w). if v \<noteq> w then ''t'' else []) r)))" by simp_all
qed

lemma Evaluate_Build_EqualityFn:
  "Evaluate st (expr_arg (Build EqualityFn l [a, b])) = both_values st (expr_arg a) (expr_arg b) \<bind>
     (\<lambda>(st1, r). Some (st1, map_option (\<lambda>(v, w). if v = w then ''t'' else []) r))"
  by (rule Evaluate_string) (simp add: eval_Build equality_fns_both)

lemma inequality_law: "eval_expr (Build InequalityFn l [a, b]) st = eval_expr (Build LogicalNotFn l [Build EqualityFn l' [a, b]]) st"
  by (cases "both_values st (expr_arg a) (expr_arg b)" rule: result_cases)
     (auto simp: eval_Build equality_fns_both LogicalNotFn_bind Evaluate_Build_EqualityFn BooleanString_def)

lemma equals_empty_law: "eval_expr (Build EqualityFn l [a, Expr Literal [] [] s e]) st = eval_expr (Build LogicalNotFn l [a]) st"
  by (cases "Evaluate st (expr_arg a)" rule: result_cases)
     (simp_all add: eval_Build EqualityFn_def LogicalNotFn_bind BooleanString_def)

lemma equals_literal_law:
  "eval_expr (Build EqualityFn l [Expr Literal v as s e, Expr Literal w bs s' e']) st =
     Some (st, StringValue (Some (if v = w then ''t'' else '''')))"
  by (simp add: eval_Build EqualityFn_def)

text \<open>
  C3: the equivalences the language documents. \<open>a + b + c\<close> in either nesting is
  \<open>concat(a, b, c)\<close>, effects and failures included; a conditional without else part is
  \<open>&&\<close>; negation distributes over \<open>&&\<close> and \<open>||\<close>, evaluating exactly the same arguments;
  sequencing is associative; \<open>a != b\<close> is the negation of \<open>a == b\<close>; \<open>a == ""\<close> is the negation of
  \<open>a\<close>, the empty string being false; and two literals are equal when their texts are.
\<close>

theorem operator_laws:
  "eval_expr (Build ConcatFn l [Build ConcatFn l' [a, b], c]) st = eval_expr (Expr ConcatFn n [a, b, c] s e) st \<and>
   eval_expr (Build ConcatFn l [a, Build ConcatFn l' [b, c]]) st = eval_expr (Expr ConcatFn n [a, b, c] s e) st \<and>
   eval_expr (Build IfElseFn l [a, b]) st = eval_expr (Build LogicalAndFn l [a, b]) st \<and>
   eval_expr (Build LogicalNotFn l [Build LogicalAndFn l' [a, b]]) st =
     eval_expr (Build LogicalOrFn l [Build LogicalNotFn l' [a], Build LogicalNotFn l' [b]]) st \<and>
   eval_expr (Build LogicalNotFn l [Build LogicalOrFn l' [a, b]]) st =
     eval_expr (Build LogicalAndFn l [Build LogicalNotFn l' [a], Build LogicalNotFn l' [b]]) st \<and>
   eval_expr (Build SequenceFn l [Build SequenceFn l' [a, b], c]) st =
     eval_expr (Build SequenceFn l [a, Build SequenceFn l' [b, c]]) st \<and>
   eval_expr (Build InequalityFn l [a, b]) st = eval_expr (Build LogicalNotFn l [Build EqualityFn l' [a, b]]) st \<and>
   eval_expr (Build EqualityFn l [a, Expr Literal [] [] s e]) st = eval_expr (Build LogicalNotFn l [a]) st \<and>
   eval_expr (Build EqualityFn l [Expr Literal v [] s e, Expr Literal w [] s' e']) st =
     Some (st, StringValue (Some (if v = w then ''t'' else '''')))"
  by (intro conjI concat_law_left concat_law_right ifelse_and_law not_and_law not_or_law sequence_law inequality_law
      equals_empty_law equals_literal_law)

text \<open>
  C4: the manual calls \<open>assert(c)\<close> and \<open>ifelse(c, "", abort())\<close> equivalent. They are, up to the
  error message: whenever the assertion returns, the conditional returns the same value and
  the same state but for the message, which is the assertion's source text in the one case
  and \<open>called abort()\<close> in the other (or the message of \<open>c\<close> itself, when \<open>c\<close> fails).
\<close>

theorem assert_as_conditional_abort:
  assumes "eval_expr (Expr AssertFn n [c] s e) st = Some (st1, v)"
  shows "\<exists>st2. eval_expr (Expr IfElseFn n' [c, Expr Literal [] [] s1 e1, Expr AbortFn n2 [] s2 e2] s' e') st = Some (st2, v) \<and>
    st2\<lparr>errmsg := None\<rparr> = st1\<lparr>errmsg := None\<rparr> \<and>
    (v = None \<longrightarrow> errmsg st1 = errmsg st2 \<or>
       errmsg st2 = Some ''called abort()'' \<and>
       errmsg st1 = map_option (\<lambda>src. ''assert failed: '' @ src) (assert_source (script st1) (e_start c) (e_end c)))"
proof (cases "Evaluate st (expr_arg c)" rule: result_cases)
  case undefined
  with assms show ?thesis by (simp add: eval_node)
next
  case (null st')
  with assms show ?thesis by (simp add: eval_node IfElseFn_def)
next
  case (val st' x)
  show ?thesis
  proof (cases "BooleanString x")
    case True
    with assms val show ?thesis
      by (simp add: eval_node IfElseFn_def EvaluateValue_def Literal_def)
  next
    case False
    with assms val show ?thesis
      by (auto simp: eval_node IfElseFn_def EvaluateValue_def AbortFn_def numeral_2_eq_2 expr_arg_def bind_eq_Some_conv)
  qed
qed

theorem assert_as_conditional_abort_witness:
  "eval_expr (Expr AssertFn ''assert'' [Expr Literal [] [] 0 1] 0 6) demo_state
     = Some (demo_state\<lparr>errmsg := Some ''assert failed: a''\<rparr>, None) \<and>
   (\<exists>st2. eval_expr (Expr IfElseFn ''ifelse'' [Expr Literal [] [] 0 1, Expr Literal [] [] 0 0,
        Expr AbortFn ''abort'' [] 0 0] 0 0) demo_state = Some (st2, None))"
proof -
  have "eval_expr (Expr AssertFn ''assert'' [Expr Literal [] [] 0 1] 0 6) demo_state
     = Some (demo_state\<lparr>errmsg := Some ''assert failed: a''\<rparr>, None)"
    by (simp add: eval_node BooleanString_def expr_arg_def assert_source_def slice_def demo_state_def
        Evaluate_def Literal_def)
  with assert_as_conditional_abort [OF this, of "''ifelse''" 0 0 "''abort''" 0 0 0 0]
  show ?thesis by blast
qed

lemma less_than_int_show:
  assumes "LONG_MIN \<le> a" "a \<le> LONG_MAX" "LONG_MIN \<le> b" "b \<le> LONG_MAX"
  shows "less_than_int (show_int a) (show_int b) \<longleftrightarrow> a < b"
  using assms by (simp add: less_than_int_def strtol_show_int show_int_nonempty)

text \<open>
  C6: on the decimal notation of integers in the range of \<open>long\<close>, \<open>less_than_int\<close> and
  \<open>greater_than_int\<close> decide the order of the integers.
\<close>

theorem int_comparison:
  assumes "LONG_MIN \<le> a" "a \<le> LONG_MAX" "LONG_MIN \<le> b" "b \<le> LONG_MAX"
  shows "eval_expr (Expr LessThanIntFn n
             [Expr Literal (show_int a) [] sa ea, Expr Literal (show_int b) [] sb eb] s e) st
           = Some (st, StringValue (Some (if a < b then ''t'' else []))) \<and>
         eval_expr (Expr GreaterThanIntFn n
             [Expr Literal (show_int a) [] sa ea, Expr Literal (show_int b) [] sb eb] s e) st
           = Some (st, StringValue (Some (if a > b then ''t'' else [])))"
  using assms
  by (simp add: eval_node LessThanIntFn_def GreaterThanIntFn_def numeral_2_eq_2 less_than_int_show)

theorem int_comparison_witness:
  "eval_expr (Expr LessThanIntFn ''less_than_int''
     [Expr Literal (show_int (-7)) [] 0 0, Expr Literal (show_int 12) [] 0 0] 0 0) demo_state
   = Some (demo_state, StringValue (Some ''t''))"
  using int_comparison [of "-7" 12 "''less_than_int''" 0 0 0 0 0 0 demo_state]
  by (simp add: LONG_MIN_def LONG_MAX_def)

text \<open>
  \<open>is_substring\<close> and \<open>sleep\<close> read \<open>argv\<close> without looking at \<open>argc\<close>: a script that calls them
  with too few arguments parses, and evaluating it has no defined result.
\<close>

lemma missing_argument_undefined:
  "SubstringFn nm st [] = None" "SleepFn nm st [] = None"
  by (simp_all add: SubstringFn_def SleepFn_def rd_def)

section \<open>The function table against its reference\<close>

text \<open>Registration order is the reference: an association list from names to functions.\<close>

definition fn_inv :: "'c fn_state \<Rightarrow> bool" where
  "fn_inv t \<longleftrightarrow> fn_entries t \<le> fn_size t \<and> length (fn_table t) = fn_size t \<and>
     (\<forall>i < fn_entries t. fn_table t ! i \<noteq> None)"

definition register_all :: "(string \<times> 'c Function) list \<Rightarrow> 'c fn_state \<Rightarrow> 'c fn_state" where
  "register_all nfs t = foldl (\<lambda>t (nm, f). RegisterFunction nm f t) t nfs"

lemma take_Suc_update: "n < length xs \<Longrightarrow> take (Suc n) (xs[n := v]) = take n xs @ [v]"
  by (simp add: take_Suc_conv_app_nth)

lemma fn_inv_init [inv_intros]: "fn_inv fn_init"
  by (simp add: fn_inv_def fn_init_def)

lemma fn_inv_RegisterFunction [inv_intros]: "fn_inv t \<Longrightarrow> fn_inv (RegisterFunction nm f t)"
  by (auto simp: fn_inv_def RegisterFunction_def Let_def nth_append nth_list_update
      list_update_append less_Suc_eq)

lemma entries_RegisterFunction:
  "fn_inv t \<Longrightarrow> entries (RegisterFunction nm f t) = entries t @ [\<lparr>nf_name = nm, nf_fn = f\<rparr>]"
  by (auto simp: fn_inv_def entries_def RegisterFunction_def Let_def take_Suc_update)

lemma register_all_entries:
  "fn_inv t \<Longrightarrow> fn_inv (register_all nfs t) \<and>
   entries (register_all nfs t) = entries t @ map (\<lambda>(nm, f). \<lparr>nf_name = nm, nf_fn = f\<rparr>) nfs"
  unfolding register_all_def
proof (induction nfs arbitrary: t)
  case Nil
  then show ?case by simp
next
  case (Cons nf nfs)
  then show ?case
    by (cases nf) (simp add: fn_inv_RegisterFunction entries_RegisterFunction)
qed

lemma length_entries: "fn_inv t \<Longrightarrow> length (entries t) = fn_entries t"
  by (simp add: entries_def fn_inv_def)

lemma FinishRegistration_entries:
  assumes "fn_inv t"
  shows "fn_inv (FinishRegistration t)"
    and "entries (FinishRegistration t) = sort_key nf_name (entries t)"
    and "fn_entries (FinishRegistration t) = fn_entries t"
  using assms length_entries [OF assms]
  by (auto simp: fn_inv_def FinishRegistration_def entries_def [of "_\<lparr>fn_table := _\<rparr>"] nth_append)

lemma bsearch_correct:
  assumes "u \<le> length xs"
    and "\<And>i j. i \<le> j \<Longrightarrow> j < length xs \<Longrightarrow> cmp (xs ! i) < 0 \<Longrightarrow> cmp (xs ! j) < 0"
    and "\<And>i j. i \<le> j \<Longrightarrow> j < length xs \<Longrightarrow> cmp (xs ! j) > 0 \<Longrightarrow> cmp (xs ! i) > 0"
  shows "case bsearch cmp xs l u of
      None \<Rightarrow> \<forall>i. l \<le> i \<and> i < u \<longrightarrow> cmp (xs ! i) \<noteq> 0
    | Some x \<Rightarrow> \<exists>i. l \<le> i \<and> i < u \<and> xs ! i = x \<and> cmp x = 0"
  using assms(1)
proof (induction "u - l" arbitrary: l u rule: less_induct)
  case less
  show ?case
  proof (cases "l < u")
    case False
    then show ?thesis by (simp add: bsearch.simps [of cmp xs l u])
  next
    case True
    define i where "i = (l + u) div 2"
    have i: "l \<le> i" "i < u" "i < length xs" using True less.prems by (auto simp: i_def)
    consider (lt) "cmp (xs ! i) < 0" | (gt) "cmp (xs ! i) > 0" | (eq) "cmp (xs ! i) = 0" by linarith
    then show ?thesis
    proof cases
      case lt
      have "cmp (xs ! j) < 0" if "i \<le> j" "j < u" for j
        using assms(2) [of i j] lt that less.prems by simp
      then have out: "\<forall>j. l \<le> j \<and> j < u \<and> cmp (xs ! j) = 0 \<longrightarrow> j < i"
        by (metis less_irrefl not_le_imp_less)
      have "bsearch cmp xs l u = bsearch cmp xs l i"
        using True lt by (simp add: bsearch.simps [of cmp xs l u] i_def)
      with less.hyps [of i l] i out less.prems show ?thesis
        by (fastforce split: option.splits)
    next
      case gt
      have "cmp (xs ! j) > 0" if "l \<le> j" "j \<le> i" for j
        using assms(3) [of j i] gt that i by simp
      then have out: "\<forall>j. l \<le> j \<and> j < u \<and> cmp (xs ! j) = 0 \<longrightarrow> i < j"
        by (metis less_irrefl not_le_imp_less)
      have "bsearch cmp xs l u = bsearch cmp xs (i + 1) u"
        using True gt by (simp add: bsearch.simps [of cmp xs l u] i_def)
      with less.hyps [of u "i + 1"] i out less.prems show ?thesis
        by (fastforce split: option.splits)
    next
      case eq
      have "bsearch cmp xs l u = Some (xs ! i)"
        using True eq by (simp add: bsearch.simps [of cmp xs l u] i_def)
      with i eq show ?thesis by auto
    qed
  qed
qed

lemma FindFunction_sorted:
  assumes inv: "fn_inv t" and sorted: "sorted (map nf_name (entries t))"
  shows "case FindFunction nm t of
      None \<Rightarrow> nm \<notin> nf_name ` set (entries t)
    | Some f \<Rightarrow> \<exists>x \<in> set (entries t). nf_name x = nm \<and> nf_fn x = f"
proof -
  let ?xs = "entries t" and ?cmp = "fn_entry_compare \<lparr>nf_name = nm, nf_fn = Literal\<rparr>"
  have mono: "nf_name (?xs ! i) \<le> nf_name (?xs ! j)" if "i \<le> j" "j < length ?xs" for i j
    using sorted_nth_mono [OF sorted, of i j] that by simp
  have "case bsearch ?cmp ?xs 0 (fn_entries t) of
      None \<Rightarrow> \<forall>i. 0 \<le> i \<and> i < fn_entries t \<longrightarrow> ?cmp (?xs ! i) \<noteq> 0
    | Some x \<Rightarrow> \<exists>i. 0 \<le> i \<and> i < fn_entries t \<and> ?xs ! i = x \<and> ?cmp x = 0"
  proof (rule bsearch_correct)
    show "fn_entries t \<le> length ?xs" using length_entries [OF inv] by simp
  next
    fix i j assume "i \<le> j" "j < length ?xs" "?cmp (?xs ! i) < 0"
    then show "?cmp (?xs ! j) < 0"
      using mono [of i j] by (auto simp: fn_entry_compare_def)
  next
    fix i j assume "i \<le> j" "j < length ?xs" "?cmp (?xs ! j) > 0"
    then show "?cmp (?xs ! i) > 0"
      using mono [of i j] by (auto simp: fn_entry_compare_def)
  qed
  then show ?thesis
    using length_entries [OF inv]
    by (auto simp: FindFunction_def Let_def fn_entry_compare_def in_set_conv_nth Bex_def split: option.splits)
qed

text \<open>
  C5: after any sequence of registrations with distinct names and \<open>FinishRegistration\<close>, the
  binary search of \<open>FindFunction\<close> finds exactly the function registered under a name, and
  nothing for every other name.
\<close>

theorem find_function_spec:
  assumes "distinct (map fst nfs)"
  shows "FindFunction nm (FinishRegistration (register_all nfs fn_init)) = map_of nfs nm"
proof -
  define t where "t = FinishRegistration (register_all nfs fn_init)"
  have r: "fn_inv (register_all nfs fn_init)"
      "entries (register_all nfs fn_init) = map (\<lambda>(nm, f). \<lparr>nf_name = nm, nf_fn = f\<rparr>) nfs"
    using register_all_entries [OF fn_inv_init, of nfs] by (simp_all add: entries_def fn_init_def)
  have t: "fn_inv t" "sorted (map nf_name (entries t))"
      "set (entries t) = (\<lambda>(nm, f). \<lparr>nf_name = nm, nf_fn = f\<rparr>) ` set nfs"
    using FinishRegistration_entries [OF r(1)] r(2) by (simp_all add: t_def)
  have "FindFunction nm t = map_of nfs nm"
  proof (cases "FindFunction nm t")
    case None
    with FindFunction_sorted [OF t(1,2), of nm] t(3) have "nm \<notin> fst ` set nfs"
      by (force simp: image_iff)
    then have "map_of nfs nm = None" by (simp add: map_of_eq_None_iff)
    then show ?thesis using None by simp
  next
    case (Some f)
    with FindFunction_sorted [OF t(1,2), of nm] t(3) have "(nm, f) \<in> set nfs" by auto
    with assms Some show ?thesis by simp
  qed
  then show ?thesis by (simp add: t_def)
qed

lemma RegisterBuiltins_register_all:
  "RegisterBuiltins t = register_all [(''ifelse'', IfElseFn), (''abort'', AbortFn),
     (''assert'', AssertFn), (''concat'', ConcatFn), (''is_substring'', SubstringFn),
     (''stdout'', StdoutFn), (''sleep'', SleepFn), (''less_than_int'', LessThanIntFn),
     (''greater_than_int'', GreaterThanIntFn)] t"
  by (simp add: RegisterBuiltins_def register_all_def Let_def)

theorem find_function_spec_witness:
  "FindFunction ''concat'' (FinishRegistration (RegisterBuiltins (fn_init :: unit fn_state))) = Some ConcatFn \<and>
   FindFunction ''reboot'' (FinishRegistration (RegisterBuiltins (fn_init :: unit fn_state))) = None"
  unfolding RegisterBuiltins_register_all
  by (subst find_function_spec, simp, subst find_function_spec, simp, simp)

end
