(* ===== verification/Hash_Table.thy ===== *)
theory Hash_Table
  imports Prelude "HOL-Library.Multiset"
begin

unbundle bit_operations_syntax

text \<open>
  The open addressing hash table of \<open>minzip/Hash.c\<close> and \<open>minzip/Hash.h\<close>.

  A \<open>void*\<close> slot is \<open>Null\<close>, \<open>Tombstone\<close> or an \<open>Item\<close>; items passed in are neither of the two
  marks, which is what the asserts on them check. The counters are natural numbers (a table
  whose counters overflow does not fit the 32-bit address space). A failed assert, a failed
  allocation that ends in \<open>abort()\<close>, an access outside of the \<open>tableSize\<close> entries and a probe
  that never ends are \<open>None\<close>. The allocator is the parameter \<open>calloc\<close>: whether a request for
  so many entries succeeds.
\<close>

section \<open>Data\<close>

datatype 'a slot = Null | Tombstone | Item 'a

record 'a HashEntry =
  hashValue :: u32
  data :: "'a slot"

record 'a HashTable =
  tableSize :: nat
  numEntries :: nat
  numDeadEntries :: nat
  pEntries :: "'a HashEntry list"
  freeFunc :: bool

abbreviation LOAD_NUMER :: nat where "LOAD_NUMER \<equiv> 5"
abbreviation LOAD_DENOM :: nat where "LOAD_DENOM \<equiv> 8"

definition mzHashSize :: "u32 \<Rightarrow> u32" where
  "mzHashSize sz = (sz * 8) div 5 + 1"

definition roundUpPower2 :: "u32 \<Rightarrow> u32" where
  "roundUpPower2 val0 =
     (let v = val0 - 1;
          v = v OR drop_bit 1 v;
          v = v OR drop_bit 2 v;
          v = v OR drop_bit 4 v;
          v = v OR drop_bit 8 v;
          v = v OR drop_bit 16 v
      in v + 1)"

definition empty_entry :: "'a HashEntry" where
  "empty_entry = \<lparr>hashValue = 0, data = Null\<rparr>"

section \<open>Creating, clearing and freeing\<close>

definition mzHashTableCreate ::
  "bool \<Rightarrow> (nat \<Rightarrow> bool) \<Rightarrow> u32 \<Rightarrow> bool \<Rightarrow> 'a HashTable option option" where
  "mzHashTableCreate malloc_ok calloc initialSize free_fn =
     (if \<not> initialSize > 0 then None
      else if \<not> malloc_ok then Some None
      else let n = unat (roundUpPower2 initialSize)
           in if \<not> calloc n then Some None
              else Some (Some \<lparr>tableSize = n, numEntries = 0, numDeadEntries = 0,
                               pEntries = replicate n empty_entry, freeFunc = free_fn\<rparr>))"

definition clear_entry :: "'a HashEntry \<Rightarrow> 'a HashEntry" where
  "clear_entry e = e\<lparr>data := Null\<rparr>"

fun freed_items :: "'a HashEntry list \<Rightarrow> 'a list" where
  "freed_items [] = []"
| "freed_items (e # es) = (case data e of Item x \<Rightarrow> x # freed_items es | _ \<Rightarrow> freed_items es)"

text \<open>The cleared table and the items handed to \<open>freeFunc\<close>, in order.\<close>

definition mzHashTableClear :: "'a HashTable \<Rightarrow> 'a HashTable \<times> 'a list" where
  "mzHashTableClear t =
     (t\<lparr>pEntries := map clear_entry (take (tableSize t) (pEntries t)) @ drop (tableSize t) (pEntries t),
        numEntries := 0, numDeadEntries := 0\<rparr>,
      if freeFunc t then freed_items (take (tableSize t) (pEntries t)) else [])"

definition mzHashTableFree :: "'a HashTable option \<Rightarrow> 'a list" where
  "mzHashTableFree t = (case t of None \<Rightarrow> [] | Some t \<Rightarrow> snd (mzHashTableClear t))"

definition countTombStones :: "'a HashTable \<Rightarrow> nat" where
  "countTombStones t = length (filter (\<lambda>e. data e = Tombstone) (take (tableSize t) (pEntries t)))"

section \<open>Resizing\<close>

partial_function (option) free_slot :: "'a HashEntry list \<Rightarrow> nat \<Rightarrow> nat \<Rightarrow> nat option" where
  [code]: "free_slot es newSize newIdx = do {
     e \<leftarrow> rd es newIdx;
     if data e \<noteq> Null then free_slot es newSize ((newIdx + 1) AND (newSize - 1))
     else Some newIdx
   }"

fun reinsert :: "'a HashEntry list \<Rightarrow> nat \<Rightarrow> 'a HashEntry list \<Rightarrow> 'a HashEntry list option" where
  "reinsert [] newSize new = Some new"
| "reinsert (e # es) newSize new =
     (if data e \<noteq> Null \<and> data e \<noteq> Tombstone
      then do {
        newIdx \<leftarrow> free_slot new newSize (unat (hashValue e) AND (newSize - 1));
        reinsert es newSize (new[newIdx := \<lparr>hashValue = hashValue e, data = data e\<rparr>])
      }
      else reinsert es newSize new)"

text \<open>The result is the new table and the returned \<open>bool\<close>.\<close>

definition resizeHash :: "(nat \<Rightarrow> bool) \<Rightarrow> 'a HashTable \<Rightarrow> nat \<Rightarrow> ('a HashTable \<times> bool) option" where
  "resizeHash calloc t newSize =
     (if countTombStones t \<noteq> numDeadEntries t then None
      else if \<not> calloc newSize then Some (t, False)
      else do {
        new \<leftarrow> reinsert (take (tableSize t) (pEntries t)) newSize (replicate newSize empty_entry);
        let t' = t\<lparr>pEntries := new, tableSize := newSize, numDeadEntries := 0\<rparr>
        in if countTombStones t' \<noteq> 0 then None else Some (t', True)
      })"

section \<open>Lookup, insertion and removal\<close>

text \<open>
  The probe loop shared by lookup, removal and the probe counter: stop at the first entry that
  is \<open>Null\<close> or satisfies \<open>stop\<close>. In a table with one entry the walk ends behind the table.
\<close>

partial_function (option) probe :: "'a HashEntry list \<Rightarrow> nat \<Rightarrow> ('a HashEntry \<Rightarrow> bool) \<Rightarrow> nat \<Rightarrow> nat option" where
  [code]: "probe es n stop i = do {
     e \<leftarrow> rd es i;
     if data e = Null then Some i
     else if stop e then Some i
     else if i + 1 = n then (if n = 1 then Some n else probe es n stop 0)
     else probe es n stop (i + 1)
   }"

definition key_match :: "u32 \<Rightarrow> 'a \<Rightarrow> ('a \<Rightarrow> 'a \<Rightarrow> int) \<Rightarrow> 'a HashEntry \<Rightarrow> bool" where
  "key_match h x cmpFunc e \<longleftrightarrow>
     (case data e of Item y \<Rightarrow> hashValue e = h \<and> cmpFunc y x = 0 | _ \<Rightarrow> False)"

definition mzHashTableLookup ::
  "(nat \<Rightarrow> bool) \<Rightarrow> 'a HashTable \<Rightarrow> u32 \<Rightarrow> 'a \<Rightarrow> ('a \<Rightarrow> 'a \<Rightarrow> int) \<Rightarrow> bool \<Rightarrow>
   ('a HashTable \<times> 'a option) option" where
  "mzHashTableLookup calloc t itemHash item cmpFunc doAdd =
     (if \<not> tableSize t > 0 then None
      else do {
        i \<leftarrow> probe (pEntries t) (tableSize t) (key_match itemHash item cmpFunc)
               (unat itemHash AND (tableSize t - 1));
        e \<leftarrow> rd (pEntries t) i;
        (case data e of
           Null \<Rightarrow>
             if doAdd
             then do {
               let t1 = t\<lparr>pEntries := (pEntries t)[i := \<lparr>hashValue = itemHash, data = Item item\<rparr>],
                          numEntries := numEntries t + 1\<rparr>;
               t2 \<leftarrow> (if (numEntries t1 + numDeadEntries t1) * LOAD_DENOM > tableSize t1 * LOAD_NUMER
                      then do {
                        (t2, ok) \<leftarrow> resizeHash calloc t1 (tableSize t1 * 2);
                        if \<not> ok then None else Some t2
                      }
                      else Some t1);
               if \<not> numEntries t2 < tableSize t2 then None else Some (t2, Some item)
             }
             else Some (t, None)
         | Tombstone \<Rightarrow> None
         | Item y \<Rightarrow> Some (t, Some y))
      })"

definition mzHashTableRemove ::
  "'a HashTable \<Rightarrow> u32 \<Rightarrow> 'a \<Rightarrow> ('a HashTable \<times> bool) option" where
  "mzHashTableRemove t itemHash item =
     (if \<not> tableSize t > 0 then None
      else do {
        i \<leftarrow> probe (pEntries t) (tableSize t) (\<lambda>e. data e = Item item)
               (unat itemHash AND (tableSize t - 1));
        if i = tableSize t then Some (t, False)
        else do {
          e \<leftarrow> rd (pEntries t) i;
          if data e \<noteq> Null
          then Some (t\<lparr>pEntries := (pEntries t)[i := e\<lparr>data := Tombstone\<rparr>],
                       numEntries := numEntries t - 1,
                       numDeadEntries := numDeadEntries t + 1\<rparr>, True)
          else Some (t, False)
        }
      })"

section \<open>Iteration and statistics\<close>

fun foreach_entries :: "('a \<Rightarrow> 's \<Rightarrow> int \<times> 's) \<Rightarrow> 's \<Rightarrow> 'a HashEntry list \<Rightarrow> int \<times> 's" where
  "foreach_entries func arg [] = (0, arg)"
| "foreach_entries func arg (e # es) =
     (case data e of
        Item x \<Rightarrow> (let (v, arg') = func x arg in if v \<noteq> 0 then (v, arg') else foreach_entries func arg' es)
      | _ \<Rightarrow> foreach_entries func arg es)"

definition mzHashForeach :: "'a HashTable \<Rightarrow> ('a \<Rightarrow> 's \<Rightarrow> int \<times> 's) \<Rightarrow> 's \<Rightarrow> int \<times> 's" where
  "mzHashForeach t func arg = foreach_entries func arg (take (tableSize t) (pEntries t))"

text \<open>An iterator is its index; the table it walks over is an argument.\<close>

function iter_scan :: "'a HashTable \<Rightarrow> nat \<Rightarrow> nat" where
  "iter_scan t i =
     (if i < tableSize t \<and> (case data (pEntries t ! i) of Item _ \<Rightarrow> False | _ \<Rightarrow> True)
      then iter_scan t (i + 1) else i)"
  by pat_completeness auto
termination
  by (relation "measure (\<lambda>(t, i). tableSize t - i)") auto

declare iter_scan.simps [simp del]

definition mzHashIterNext :: "'a HashTable \<Rightarrow> int \<Rightarrow> int" where
  "mzHashIterNext t idx = int (iter_scan t (nat (idx + 1)))"

definition mzHashIterBegin :: "'a HashTable \<Rightarrow> int" where
  "mzHashIterBegin t = mzHashIterNext t (-1)"

definition mzHashIterDone :: "'a HashTable \<Rightarrow> int \<Rightarrow> bool" where
  "mzHashIterDone t idx \<longleftrightarrow> idx \<ge> int (tableSize t)"

definition mzHashIterData :: "'a HashTable \<Rightarrow> int \<Rightarrow> 'a slot option" where
  "mzHashIterData t idx =
     (if idx \<ge> 0 \<and> idx < int (tableSize t) then map_option data (rd (pEntries t) (nat idx)) else None)"

definition mzHashTableNumEntries :: "'a HashTable \<Rightarrow> nat" where
  "mzHashTableNumEntries t = numEntries t"

text \<open>The probe counter: like \<open>probe\<close>, with the number of steps taken.\<close>

partial_function (option) count_walk ::
  "'a HashEntry list \<Rightarrow> nat \<Rightarrow> ('a HashEntry \<Rightarrow> bool) \<Rightarrow> nat \<Rightarrow> int \<Rightarrow> (nat \<times> int) option" where
  [code]: "count_walk es n stop i cnt = do {
     e \<leftarrow> rd es i;
     if data e = Null then Some (i, cnt)
     else if stop e then Some (i, cnt)
     else if i + 1 = n then (if n = 1 then Some (n, cnt) else count_walk es n stop 0 (cnt + 1))
     else count_walk es n stop (i + 1) (cnt + 1)
   }"

definition countProbes :: "'a HashTable \<Rightarrow> u32 \<Rightarrow> 'a \<Rightarrow> ('a \<Rightarrow> 'a \<Rightarrow> int) \<Rightarrow> int option" where
  "countProbes t itemHash item cmpFunc =
     (if \<not> tableSize t > 0 then None
      else do {
        (i, cnt) \<leftarrow> count_walk (pEntries t) (tableSize t) (key_match itemHash item cmpFunc)
                        (unat itemHash AND (tableSize t - 1)) 0;
        e \<leftarrow> rd (pEntries t) i;
        Some (if data e = Null then -1 else cnt)
      })"

text \<open>The loop \<open>for (mzHashIterBegin; !mzHashIterDone; mzHashIterNext)\<close> around \<open>mzHashIterData\<close>.\<close>

function iter_items :: "'a HashTable \<Rightarrow> int \<Rightarrow> 'a slot option list" where
  "iter_items t idx =
     (if mzHashIterDone t idx then [] else mzHashIterData t idx # iter_items t (mzHashIterNext t idx))"
  by pat_completeness auto

lemma iter_scan_ge: "i \<le> iter_scan t i"
proof (induction t i rule: iter_scan.induct)
  case (1 t i)
  then show ?case by (metis add_leD1 iter_scan.simps order_refl)
qed

termination iter_items
proof (relation "measure (\<lambda>(t, idx). nat (int (tableSize t) - idx))")
  fix t :: "'a HashTable" and idx
  assume "\<not> mzHashIterDone t idx"
  moreover have "idx < mzHashIterNext t idx"
    using iter_scan_ge [of "nat (idx + 1)" t] by (simp add: mzHashIterNext_def)
  ultimately show "((t, mzHashIterNext t idx), t, idx) \<in> measure (\<lambda>(t, idx). nat (int (tableSize t) - idx))"
    by (simp add: mzHashIterDone_def)
qed simp

declare iter_items.simps [simp del]

text \<open>The statistics \<open>mzHashTableProbeCount\<close> prints: least, largest and total number of probes, entries.\<close>

partial_function (option) probe_count_loop ::
  "'a HashTable \<Rightarrow> ('a \<Rightarrow> u32) \<Rightarrow> ('a \<Rightarrow> 'a \<Rightarrow> int) \<Rightarrow> int \<Rightarrow> int \<times> int \<times> int \<times> int \<Rightarrow> (int \<times> int \<times> int \<times> int) option" where
  [code]: "probe_count_loop t calcFunc cmpFunc idx st =
     (if mzHashIterDone t idx then Some st
      else do {
        d \<leftarrow> mzHashIterData t idx;
        x \<leftarrow> (case d of Item x \<Rightarrow> Some x | _ \<Rightarrow> None);
        cnt \<leftarrow> countProbes t (calcFunc x) x cmpFunc;
        let (minProbe, maxProbe, totalProbe, num) = st
        in probe_count_loop t calcFunc cmpFunc (mzHashIterNext t idx)
             (if cnt < minProbe then cnt else minProbe, if cnt > maxProbe then cnt else maxProbe,
              totalProbe + cnt, num + 1)
      })"

definition mzHashTableProbeCount ::
  "'a HashTable \<Rightarrow> ('a \<Rightarrow> u32) \<Rightarrow> ('a \<Rightarrow> 'a \<Rightarrow> int) \<Rightarrow> (int \<times> int \<times> int \<times> int) option" where
  "mzHashTableProbeCount t calcFunc cmpFunc =
     probe_count_loop t calcFunc cmpFunc (mzHashIterBegin t) (65536 * 32767, 0, 0, 0)"

section \<open>Probing\<close>

lemma mod_step: "s < n \<Longrightarrow> (if s + 1 = n then 0 else s + 1) = (s + 1) mod (n :: nat)"
  by auto

lemma and_pow2: "(x :: nat) AND (2 ^ b - Suc 0) = x mod 2 ^ b"
  by (simp add: take_bit_eq_mod [symmetric] take_bit_eq_mask mask_eq_exp_minus_1)

lemma probe_at:
  assumes "length es = n" "2 \<le> n" "s < n"
    and "\<forall>j < k. data (es ! ((s + j) mod n)) \<noteq> Null \<and> \<not> stop (es ! ((s + j) mod n))"
    and "data (es ! ((s + k) mod n)) = Null \<or> stop (es ! ((s + k) mod n))"
  shows "probe es n stop s = Some ((s + k) mod n)"
  using assms
proof (induction k arbitrary: s)
  case 0
  then show ?case by (subst probe.simps) (auto simp: rd_def)
next
  case (Suc k)
  let ?s = "(s + 1) mod n"
  have shift: "(?s + j) mod n = (s + Suc j) mod n" for j
    by (simp add: mod_simps)
  have here: "data (es ! s) \<noteq> Null \<and> \<not> stop (es ! s)"
    using Suc.prems(3) spec [OF Suc.prems(4), of 0] by simp
  have "probe es n stop s = probe es n stop ?s"
    using here Suc.prems(1-3) mod_step [of s n]
    by (subst probe.simps) (auto simp: rd_def split: if_splits)
  also have "\<dots> = Some ((?s + k) mod n)"
  proof (rule Suc.IH)
    show "\<forall>j < k. data (es ! ((?s + j) mod n)) \<noteq> Null \<and> \<not> stop (es ! ((?s + j) mod n))"
      using Suc.prems(4) by (simp only: shift) auto
    show "data (es ! ((?s + k) mod n)) = Null \<or> stop (es ! ((?s + k) mod n))"
      using Suc.prems(5) by (simp only: shift)
  qed (use Suc.prems in auto)
  finally show ?case by (simp only: shift)
qed

lemma reach_slot: "s < n \<Longrightarrow> i < n \<Longrightarrow> \<exists>k < n. (s + k) mod n = (i :: nat)"
proof -
  assume a: "s < n" "i < n"
  show ?thesis
  proof (cases "s \<le> i")
    case True
    with a show ?thesis by (intro exI [of _ "i - s"]) auto
  next
    case False
    with a have "(s + (n + i - s)) mod n = i" by simp
    with a False show ?thesis by (intro exI [of _ "n + i - s"]) auto
  qed
qed

text \<open>With a \<open>Null\<close> entry in the table every probe ends, at the first stopping entry.\<close>

lemma probe_stops:
  assumes len: "length es = n" and s: "s < n" and ex: "i < n" "data (es ! i) = Null"
  obtains k where "k < n" "probe es n stop s = Some ((s + k) mod n)"
    "\<And>j. j < k \<Longrightarrow> data (es ! ((s + j) mod n)) \<noteq> Null \<and> \<not> stop (es ! ((s + j) mod n))"
    "data (es ! ((s + k) mod n)) = Null \<or> stop (es ! ((s + k) mod n))"
proof -
  let ?P = "\<lambda>k. data (es ! ((s + k) mod n)) = Null \<or> stop (es ! ((s + k) mod n))"
  obtain k0 where k0: "k0 < n" "?P k0" using reach_slot [OF s ex(1)] ex(2) by auto
  define k where "k = (LEAST k. ?P k)"
  have P: "?P k" using k0(2) unfolding k_def by (rule LeastI)
  have min: "\<not> ?P j" if "j < k" for j using that unfolding k_def by (rule not_less_Least)
  have "k \<le> k0" using k0(2) unfolding k_def by (rule Least_le)
  then have kn: "k < n" using k0(1) by simp
  have "probe es n stop s = Some ((s + k) mod n)"
  proof (cases "2 \<le> n")
    case True
    then show ?thesis using len s P min by (intro probe_at) auto
  next
    case False
    with s have n: "n = 1" "s = 0" by auto
    then have "i = 0" using ex(1) by simp
    with n kn len ex(2) show ?thesis by (subst probe.simps) (simp add: rd_def)
  qed
  with kn P min show thesis by (intro that [of k]) auto
qed

lemma free_slot_at:
  assumes "length es = n" "n = 2 ^ b" "s < n"
    and "\<forall>j < k. data (es ! ((s + j) mod n)) \<noteq> Null" "data (es ! ((s + k) mod n)) = Null"
  shows "free_slot es n s = Some ((s + k) mod n)"
  using assms(3-)
proof (induction k arbitrary: s)
  case 0
  then show ?case using assms(1) by (subst free_slot.simps) (auto simp: rd_def)
next
  case (Suc k)
  let ?s = "(s + 1) mod n"
  have shift: "(?s + j) mod n = (s + Suc j) mod n" for j
    by (simp add: mod_simps)
  have mask: "(s + 1) AND (n - 1) = ?s"
    using assms(2) by (simp add: and_pow2)
  have "data (es ! s) \<noteq> Null"
    using Suc.prems(1) spec [OF Suc.prems(2), of 0] by simp
  then have "free_slot es n s = free_slot es n ?s"
    using Suc.prems(1) assms(1) mask by (subst free_slot.simps) (simp add: rd_def)
  also have "\<dots> = Some ((?s + k) mod n)"
  proof (rule Suc.IH)
    show "\<forall>j < k. data (es ! ((?s + j) mod n)) \<noteq> Null"
      using Suc.prems(2) by (simp only: shift) auto
    show "data (es ! ((?s + k) mod n)) = Null"
      using Suc.prems(3) by (simp only: shift)
  qed (use Suc.prems in auto)
  finally show ?case by (simp only: shift)
qed

section \<open>Invariant and abstraction\<close>

text \<open>The stored items with their hash values, in table order.\<close>

fun live :: "'a HashEntry list \<Rightarrow> (u32 \<times> 'a) list" where
  "live [] = []"
| "live (e # es) = (case data e of Item x \<Rightarrow> (hashValue e, x) # live es | _ \<Rightarrow> live es)"

definition dead :: "'a HashEntry list \<Rightarrow> nat" where
  "dead es = length (filter (\<lambda>e. data e = Tombstone) es)"

definition home :: "u32 \<Rightarrow> nat \<Rightarrow> nat" where
  "home h n = unat h mod n"

text \<open>Index \<open>i\<close> is reached from the home slot of \<open>h\<close> over entries that are all in use.\<close>

definition on_chain :: "'a HashEntry list \<Rightarrow> u32 \<Rightarrow> nat \<Rightarrow> bool" where
  "on_chain es h i \<longleftrightarrow>
     (\<exists>k < length es. (home h (length es) + k) mod length es = i \<and>
        (\<forall>j < k. data (es ! ((home h (length es) + j) mod length es)) \<noteq> Null))"

definition chain_ok :: "'a HashEntry list \<Rightarrow> bool" where
  "chain_ok es \<longleftrightarrow>
     (\<forall>i < length es. \<forall>x. data (es ! i) = Item x \<longrightarrow> on_chain es (hashValue (es ! i)) i)"

definition tagged :: "('a \<Rightarrow> 'k) \<Rightarrow> (u32 \<times> 'a) list \<Rightarrow> ((u32 \<times> 'k) \<times> 'a) list" where
  "tagged key xs = map (\<lambda>(h, x). ((h, key x), x)) xs"

definition hash_inv :: "('a \<Rightarrow> 'k) \<Rightarrow> 'a HashTable \<Rightarrow> bool" where
  "hash_inv key t \<longleftrightarrow>
     length (pEntries t) = tableSize t \<and> (\<exists>b. tableSize t = 2 ^ b) \<and>
     numEntries t = length (live (pEntries t)) \<and> numDeadEntries t = dead (pEntries t) \<and>
     (numEntries t + numDeadEntries t) * LOAD_DENOM \<le> tableSize t * LOAD_NUMER \<and>
     chain_ok (pEntries t) \<and> distinct (map fst (tagged key (live (pEntries t))))"

text \<open>The map a table stands for: from hash value and key to the stored item.\<close>

definition contents :: "('a \<Rightarrow> 'k) \<Rightarrow> 'a HashTable \<Rightarrow> (u32 \<times> 'k) \<Rightarrow> 'a option" where
  "contents key t = map_of (tagged key (live (pEntries t)))"

lemma live_append [simp]: "live (xs @ ys) = live xs @ live ys"
  by (induction xs) (auto split: slot.splits)

lemma live_split: "i < length es \<Longrightarrow> live (es[i := e]) = live (take i es) @ live [e] @ live (drop (Suc i) es)"
  by (simp add: upd_conv_take_nth_drop del: live.simps)
    (metis append_Cons append_Nil live_append)

lemma live_nth: "i < length es \<Longrightarrow> live es = live (take i es) @ live [es ! i] @ live (drop (Suc i) es)"
  using live_split [of i es "es ! i"] by simp

lemma mset_live_update:
  "i < length es \<Longrightarrow> mset (live (es[i := e])) + mset (live [es ! i]) = mset (live es) + mset (live [e])"
  using live_split [of i es e] live_nth [of i es] by simp

lemma dead_update:
  "i < length es \<Longrightarrow> dead (es[i := e]) + dead [es ! i] = dead es + dead [e]"
  unfolding dead_def
  by (subst (3) id_take_nth_drop [of i es]) (simp_all add: upd_conv_take_nth_drop)

lemma live_iff: "(h, x) \<in> set (live es) \<longleftrightarrow> (\<exists>i < length es. data (es ! i) = Item x \<and> hashValue (es ! i) = h)"
proof (induction es)
  case (Cons e es)
  then show ?case by (auto simp: less_Suc_eq_0_disj split: slot.splits) 
qed simp

lemma live_bound: "length (live es) + dead es \<le> length es"
  by (induction es) (auto simp: dead_def split: slot.splits)

lemma null_exists:
  assumes "length (live es) + dead es < length es"
  shows "\<exists>i < length es. data (es ! i) = Null"
proof -
  have "length (live es) + dead es < length es \<Longrightarrow> \<exists>e \<in> set es. data e = Null"
    by (induction es) (auto simp: dead_def split: slot.splits)
  with assms show ?thesis by (auto simp: in_set_conv_nth)
qed

lemma contents_Some:
  assumes "distinct (map fst (tagged key xs))"
  shows "map_of (tagged key xs) (h, k) = Some y \<longleftrightarrow> (h, y) \<in> set xs \<and> key y = k"
  using assms by (subst map_of_eq_Some_iff) (auto simp: tagged_def)

lemma contents_None: "map_of (tagged key xs) (h, k) = None \<longleftrightarrow> (\<forall>y. (h, y) \<in> set xs \<longrightarrow> key y \<noteq> k)"
  by (auto simp: map_of_eq_None_iff tagged_def image_iff)

lemma distinct_mset: "mset xs = mset ys \<Longrightarrow> distinct xs = distinct ys"
  by (metis distinct_count_atmost_1 set_mset_mset)

lemma tagged_mset: "mset xs = mset ys \<Longrightarrow> mset (tagged key xs) = mset (tagged key ys)"
  by (simp add: tagged_def)

lemma tagged_distinct_mset:
  assumes "mset xs = mset ys"
  shows "distinct (map fst (tagged key xs)) = distinct (map fst (tagged key ys))"
  by (rule distinct_mset) (simp add: tagged_mset [OF assms])

lemma map_of_mset:
  assumes "mset xs = mset ys" "distinct (map fst xs)"
  shows "map_of xs = map_of ys"
proof -
  have "distinct (map fst ys)" using assms distinct_mset [of "map fst xs" "map fst ys"] by simp
  then show ?thesis using assms
    by (metis map_of_inject_set mset_eq_setD)
qed

section \<open>The probe chains under updates\<close>

lemma home_less: "0 < n \<Longrightarrow> home h n < n"
  by (simp add: home_def)

lemma on_chain_mono:
  assumes "on_chain es h i" "length es' = length es"
    and "\<And>j. j < length es \<Longrightarrow> data (es ! j) \<noteq> Null \<Longrightarrow> data (es' ! j) \<noteq> Null"
  shows "on_chain es' h i"
  using assms unfolding on_chain_def by (metis less_nat_zero_code mod_less_divisor not_gr0)

lemma chain_ok_insert:
  assumes ok: "chain_ok es" and i: "i < length es" and on: "on_chain es h i"
  shows "chain_ok (es[i := \<lparr>hashValue = h, data = Item x\<rparr>])"
proof -
  let ?es = "es[i := \<lparr>hashValue = h, data = Item x\<rparr>]"
  have keep: "data (es ! j) \<noteq> Null \<Longrightarrow> data (?es ! j) \<noteq> Null" if "j < length es" for j
    using that by (cases "j = i") auto
  have "on_chain ?es (hashValue (?es ! j)) j" if "j < length es" "data (?es ! j) = Item y" for j y
  proof (cases "j = i")
    case True
    then show ?thesis using on_chain_mono [OF on _ keep] i by simp
  next
    case False
    then have "on_chain es (hashValue (es ! j)) j" using ok that by (simp add: chain_ok_def)
    then have "on_chain ?es (hashValue (es ! j)) j" by (rule on_chain_mono) (use keep in auto)
    then show ?thesis using False by simp
  qed
  then show ?thesis by (simp add: chain_ok_def)
qed

lemma chain_ok_remove:
  assumes ok: "chain_ok es" and i: "i < length es"
  shows "chain_ok (es[i := (es ! i)\<lparr>data := Tombstone\<rparr>])"
proof -
  let ?es = "es[i := (es ! i)\<lparr>data := Tombstone\<rparr>]"
  have keep: "data (es ! j) \<noteq> Null \<Longrightarrow> data (?es ! j) \<noteq> Null" if "j < length es" for j
    using that by (cases "j = i") auto
  have "on_chain ?es (hashValue (?es ! j)) j" if "j < length es" "data (?es ! j) = Item y" for j y
  proof -
    have ji: "j \<noteq> i" using that by auto
    then have "on_chain es (hashValue (es ! j)) j" using ok that by (simp add: chain_ok_def)
    then have "on_chain ?es (hashValue (es ! j)) j" by (rule on_chain_mono) (use keep in auto)
    then show ?thesis using ji by simp
  qed
  then show ?thesis by (simp add: chain_ok_def)
qed

text \<open>A table that uses at most five eighths of its entries has a \<open>Null\<close> entry.\<close>

lemma hash_inv_null:
  assumes "hash_inv key t"
  obtains i where "i < tableSize t" "data (pEntries t ! i) = Null"
proof -
  have "0 < tableSize t" using assms by (auto simp: hash_inv_def)
  then have "length (live (pEntries t)) + dead (pEntries t) < length (pEntries t)"
    using assms by (auto simp: hash_inv_def)
  from null_exists [OF this] show thesis using assms that by (auto simp: hash_inv_def)
qed

section \<open>Resizing keeps the contents\<close>

lemma free_slot_found:
  assumes len: "length es = n" "n = 2 ^ b" and room: "length (live es) + dead es < n"
  shows "\<exists>i < n. free_slot es n (unat h AND (n - 1)) = Some i \<and> on_chain es h i \<and> data (es ! i) = Null"
proof -
  obtain z where "z < length es" "data (es ! z) = Null"
    using null_exists [of es] room len by blast
  moreover have n0: "0 < n" using len by simp
  ultimately obtain k where k: "k < n" "\<And>j. j < k \<Longrightarrow> data (es ! ((home h n + j) mod n)) \<noteq> Null"
      "data (es ! ((home h n + k) mod n)) = Null"
    using probe_stops [of es n "home h n" z "\<lambda>_. False"] len home_less by (metis (no_types, lifting))
  have start: "unat h AND (n - 1) = home h n" by (simp add: len home_def and_pow2)
  have "free_slot es n (home h n) = Some ((home h n + k) mod n)"
    using len n0 k by (intro free_slot_at) (auto simp: home_less)
  moreover have "on_chain es h ((home h n + k) mod n)"
    using k len(1) by (auto simp: on_chain_def)
  ultimately show ?thesis
    unfolding start using k n0 by (intro exI [of _ "(home h n + k) mod n"]) simp
qed

lemma reinsert_spec:
  assumes "length new = n" "n = 2 ^ b" "chain_ok new" "dead new = 0"
    and "length (live new) + length (live es) < n"
  shows "\<exists>new'. reinsert es n new = Some new' \<and> length new' = n \<and> chain_ok new' \<and> dead new' = 0 \<and>
           mset (live new') = mset (live new) + mset (live es)"
  using assms
proof (induction es arbitrary: new)
  case (Cons e es)
  show ?case
  proof (cases "data e")
    case (Item x)
    have "length (live new) + dead new < n" using Cons.prems Item by simp
    from free_slot_found [OF Cons.prems(1,2) this] obtain i where
      i: "i < n" "free_slot new n (unat (hashValue e) AND (n - 1)) = Some i"
         "on_chain new (hashValue e) i" "data (new ! i) = Null" by blast
    let ?new = "new[i := \<lparr>hashValue = hashValue e, data = Item x\<rparr>]"
    have m: "mset (live ?new) = add_mset (hashValue e, x) (mset (live new))"
      using mset_live_update [of i new "\<lparr>hashValue = hashValue e, data = Item x\<rparr>"] i Cons.prems(1)
      by simp
    have d: "dead ?new = 0"
      using dead_update [of i new "\<lparr>hashValue = hashValue e, data = Item x\<rparr>"] i Cons.prems(1,4)
      by (simp add: dead_def)
    have l: "length (live ?new) = Suc (length (live new))"
      using arg_cong [OF m, of size] by simp
    have "\<exists>new'. reinsert es n ?new = Some new' \<and> length new' = n \<and> chain_ok new' \<and> dead new' = 0 \<and>
           mset (live new') = mset (live ?new) + mset (live es)"
      using Cons.prems Item i l d by (intro Cons.IH chain_ok_insert) auto
    then show ?thesis using Item i m by auto
  qed (use Cons.IH [of new] Cons.prems in simp_all)
qed simp

lemma live_empty [simp]: "live (replicate n empty_entry) = []"
  by (induction n) (auto simp: empty_entry_def)

lemma dead_empty [simp]: "dead (replicate n empty_entry) = 0"
  by (simp add: dead_def empty_entry_def)

lemma chain_ok_empty [simp]: "chain_ok (replicate n empty_entry)"
  by (simp add: chain_ok_def empty_entry_def)

lemma resizeHash_spec:
  assumes "length (pEntries t) = tableSize t" "numDeadEntries t = dead (pEntries t)"
    and "newSize = 2 ^ b" "length (live (pEntries t)) < newSize" "calloc newSize"
  shows "\<exists>new. resizeHash calloc t newSize =
           Some (t\<lparr>pEntries := new, tableSize := newSize, numDeadEntries := 0\<rparr>, True) \<and>
           length new = newSize \<and> chain_ok new \<and> dead new = 0 \<and> mset (live new) = mset (live (pEntries t))"
proof -
  obtain new where new: "reinsert (pEntries t) newSize (replicate newSize empty_entry) = Some new"
      "length new = newSize" "chain_ok new" "dead new = 0" "mset (live new) = mset (live (pEntries t))"
    using reinsert_spec [of "replicate newSize empty_entry" newSize b "pEntries t"] assms by auto
  have "countTombStones t = numDeadEntries t"
    using assms by (simp add: countTombStones_def dead_def)
  moreover have "countTombStones (t\<lparr>pEntries := new, tableSize := newSize, numDeadEntries := 0\<rparr>) = 0"
    using new by (simp add: countTombStones_def dead_def)
  ultimately show ?thesis
    using assms new by (intro exI [of _ new]) (simp add: resizeHash_def)
qed

section \<open>Lookup, insertion and removal refine a map\<close>

lemma hash_inv_size:
  assumes "hash_inv key t"
  shows "length (pEntries t) = tableSize t" "0 < tableSize t"
    "unat h AND (tableSize t - 1) = home h (tableSize t)"
  using assms by (auto simp: hash_inv_def home_def and_pow2)

text \<open>An item on its chain is reached by a probe, unless the probe stops before.\<close>

lemma probe_reaches:
  assumes inv: "hash_inv key t"
  obtains i where "i < tableSize t" "on_chain (pEntries t) h i"
    "probe (pEntries t) (tableSize t) stop (unat h AND (tableSize t - 1)) = Some i"
    "data (pEntries t ! i) = Null \<or> stop (pEntries t ! i)"
    "data (pEntries t ! i) = Null \<Longrightarrow>
       \<forall>e \<in> set (pEntries t). hashValue e = h \<and> (\<exists>x. data e = Item x) \<longrightarrow> \<not> stop e"
proof -
  let ?es = "pEntries t" and ?n = "tableSize t" and ?s = "home h (tableSize t)"
  note sz = hash_inv_size [OF inv]
  obtain z where z: "z < ?n" "data (?es ! z) = Null" using hash_inv_null [OF inv] .
  obtain k where k: "k < ?n" "probe ?es ?n stop ?s = Some ((?s + k) mod ?n)"
      "\<And>j. j < k \<Longrightarrow> data (?es ! ((?s + j) mod ?n)) \<noteq> Null \<and> \<not> stop (?es ! ((?s + j) mod ?n))"
      "data (?es ! ((?s + k) mod ?n)) = Null \<or> stop (?es ! ((?s + k) mod ?n))"
    by (rule probe_stops [OF sz(1) home_less [OF sz(2), where h = h] z, where stop = stop]) blast
  have "\<not> stop (?es ! i)" if null: "data (?es ! ((?s + k) mod ?n)) = Null"
    and i: "i < ?n" "hashValue (?es ! i) = h" "data (?es ! i) = Item x" for i x
  proof -
    have "on_chain ?es h i" using inv i sz(1) by (auto simp: hash_inv_def chain_ok_def)
    then obtain k' where k': "(?s + k') mod ?n = i" "\<forall>j < k'. data (?es ! ((?s + j) mod ?n)) \<noteq> Null"
      using sz(1) by (auto simp: on_chain_def)
    have "k' \<noteq> k" using null k'(1) i(3) by auto
    moreover have "\<not> k < k'" using k'(2) null by auto
    ultimately show ?thesis using k(3) [of k'] k'(1) by simp
  qed
  moreover have "on_chain ?es h ((?s + k) mod ?n)" using k sz(1) by (auto simp: on_chain_def)
  ultimately show thesis
    using k sz by (intro that [of "(?s + k) mod ?n"]) (auto simp: in_set_conv_nth)
qed

lemma find_slot:
  assumes inv: "hash_inv key t" and cmp: "\<forall>y. cmp y x = 0 \<longleftrightarrow> key y = key x"
  obtains i where "i < tableSize t" "on_chain (pEntries t) h i"
    "probe (pEntries t) (tableSize t) (key_match h x cmp) (unat h AND (tableSize t - 1)) = Some i"
    "data (pEntries t ! i) = (case contents key t (h, key x) of None \<Rightarrow> Null | Some y \<Rightarrow> Item y)"
proof -
  note sz = hash_inv_size [OF inv]
  have dist: "distinct (map fst (tagged key (live (pEntries t))))"
    using inv by (simp add: hash_inv_def)
  obtain i where i: "i < tableSize t" "on_chain (pEntries t) h i"
    "probe (pEntries t) (tableSize t) (key_match h x cmp) (unat h AND (tableSize t - 1)) = Some i"
    "data (pEntries t ! i) = Null \<or> key_match h x cmp (pEntries t ! i)"
    "data (pEntries t ! i) = Null \<Longrightarrow>
       \<forall>e \<in> set (pEntries t). hashValue e = h \<and> (\<exists>x. data e = Item x) \<longrightarrow> \<not> key_match h x cmp e"
    by (rule probe_reaches [OF inv, where h = h and stop = "key_match h x cmp"]) blast
  have "data (pEntries t ! i) = (case contents key t (h, key x) of None \<Rightarrow> Null | Some y \<Rightarrow> Item y)"
  proof (cases "data (pEntries t ! i) = Null")
    case True
    then have "contents key t (h, key x) = None"
      using i(5) sz(1) cmp unfolding contents_def contents_None live_iff
      by (auto simp: key_match_def)
    then show ?thesis using True by simp
  next
    case False
    then obtain y where "data (pEntries t ! i) = Item y" "hashValue (pEntries t ! i) = h" "key y = key x"
      using i(4) cmp by (auto simp: key_match_def split: slot.splits)
    then have "contents key t (h, key x) = Some y"
      using i(1) sz(1) by (auto simp: contents_def contents_Some [OF dist] live_iff)
    then show ?thesis using \<open>data (pEntries t ! i) = Item y\<close> by simp
  qed
  then show thesis using i(1-3) by (intro that) auto
qed

lemma live_insert:
  assumes "i < length es" "data (es ! i) = Null"
  shows "mset (live (es[i := \<lparr>hashValue = h, data = Item x\<rparr>])) = mset ((h, x) # live es)"
    and "length (live (es[i := \<lparr>hashValue = h, data = Item x\<rparr>])) = Suc (length (live es))"
    and "dead (es[i := \<lparr>hashValue = h, data = Item x\<rparr>]) = dead es"
proof -
  show m: "mset (live (es[i := \<lparr>hashValue = h, data = Item x\<rparr>])) = mset ((h, x) # live es)"
    using mset_live_update [OF assms(1), of "\<lparr>hashValue = h, data = Item x\<rparr>"] assms(2) by simp
  show "length (live (es[i := \<lparr>hashValue = h, data = Item x\<rparr>])) = Suc (length (live es))"
    using arg_cong [OF m, of size] by simp
  show "dead (es[i := \<lparr>hashValue = h, data = Item x\<rparr>]) = dead es"
    using dead_update [OF assms(1), of "\<lparr>hashValue = h, data = Item x\<rparr>"] assms(2)
    by (simp add: dead_def)
qed

lemma insert_contents:
  assumes "mset (live es') = mset ((h, x) # live es)"
    and "distinct (map fst (tagged key (live es)))" "map_of (tagged key (live es)) (h, key x) = None"
  shows "distinct (map fst (tagged key (live es')))"
    and "map_of (tagged key (live es')) = (map_of (tagged key (live es)))((h, key x) \<mapsto> x)"
proof -
  have d: "distinct (map fst (tagged key ((h, x) # live es)))"
    using assms(2,3) by (auto simp: tagged_def map_of_eq_None_iff)
  with tagged_distinct_mset [OF assms(1)] show d': "distinct (map fst (tagged key (live es')))" by blast
  have "map_of (tagged key (live es')) = map_of (tagged key ((h, x) # live es))"
    by (rule map_of_mset [OF tagged_mset [OF assms(1)] d'])
  then show "map_of (tagged key (live es')) = (map_of (tagged key (live es)))((h, key x) \<mapsto> x)"
    by (simp add: tagged_def)
qed
lemma grown_table:
  assumes inv: "hash_inv key t" and i: "i < tableSize t" "on_chain (pEntries t) h i"
    and null: "data (pEntries t ! i) = Null" and absent: "contents key t (h, key x) = None"
    and t1: "t1 = t\<lparr>pEntries := (pEntries t)[i := \<lparr>hashValue = h, data = Item x\<rparr>], numEntries := numEntries t + 1\<rparr>"
    and full: "(numEntries t1 + numDeadEntries t1) * LOAD_DENOM > tableSize t1 * LOAD_NUMER"
    and mem: "calloc (tableSize t * 2)"
  shows "\<exists>t2. resizeHash calloc t1 (tableSize t1 * 2) = Some (t2, True) \<and> hash_inv key t2 \<and>
           contents key t2 = (contents key t)((h, key x) \<mapsto> x) \<and>
           numEntries t2 = Suc (numEntries t) \<and> numDeadEntries t2 = 0"
proof -
  note sz = hash_inv_size [OF inv]
  have null': "data (pEntries t ! i) = Null" "i < length (pEntries t)" using null i(1) sz(1) by auto
  obtain b where b: "tableSize t = 2 ^ b" using inv by (auto simp: hash_inv_def)
  have len: "length (live (pEntries t1)) = Suc (numEntries t)"
    using live_insert(2) [OF null'(2,1)] inv by (simp add: t1 hash_inv_def)
  have load: "numEntries t * 8 \<le> tableSize t * 5" using inv by (auto simp: hash_inv_def)
  have room: "length (live (pEntries t1)) < tableSize t1 * 2" using len load sz(2) by (simp add: t1)
  have "length (pEntries t1) = tableSize t1" "numDeadEntries t1 = dead (pEntries t1)"
    "tableSize t1 * 2 = 2 ^ Suc b" "length (live (pEntries t1)) < tableSize t1 * 2" "calloc (tableSize t1 * 2)"
    using inv sz b mem live_insert(3) [OF null'(2,1)] room by (auto simp: t1 hash_inv_def)
  from resizeHash_spec [where calloc = calloc, OF this] obtain new where new:
    "resizeHash calloc t1 (tableSize t1 * 2) =
       Some (t1\<lparr>pEntries := new, tableSize := tableSize t1 * 2, numDeadEntries := 0\<rparr>, True)"
    "length new = tableSize t1 * 2" "chain_ok new" "dead new = 0"
    "mset (live new) = mset (live (pEntries t1))" by blast
  have m: "mset (live new) = mset ((h, x) # live (pEntries t))"
    using new(5) live_insert(1) [OF null'(2,1)] by (simp add: t1)
  have d: "distinct (map fst (tagged key (live (pEntries t))))" using inv by (simp add: hash_inv_def)
  note ins = insert_contents [OF m d absent [unfolded contents_def]]
  have "length (live new) = Suc (numEntries t)"
    using arg_cong [OF m, of size] inv by (simp add: hash_inv_def)
  moreover have "8 + numEntries t * 8 \<le> 10 * 2 ^ b"
    unfolding b [symmetric] using load sz(2) by presburger
  ultimately show ?thesis
    using new ins b sz by (auto simp: hash_inv_def contents_def t1 intro: exI [of _ "Suc b"])
qed

lemma lookup_spec:
  assumes inv: "hash_inv key t" and cmp: "\<forall>y. cmp y x = 0 \<longleftrightarrow> key y = key x"
    and mem: "(numEntries t + numDeadEntries t + 1) * LOAD_DENOM > tableSize t * LOAD_NUMER \<Longrightarrow>
                calloc (tableSize t * 2)"
  shows "\<exists>t'. mzHashTableLookup calloc t h x cmp doAdd =
           Some (t', case contents key t (h, key x) of Some y \<Rightarrow> Some y
                     | None \<Rightarrow> if doAdd then Some x else None) \<and>
           hash_inv key t' \<and>
           contents key t' = (if doAdd \<and> contents key t (h, key x) = None
                              then (contents key t)((h, key x) \<mapsto> x) else contents key t) \<and>
           numEntries t' + numDeadEntries t' \<le> Suc (numEntries t + numDeadEntries t) \<and>
           ((numEntries t + numDeadEntries t + 1) * LOAD_DENOM \<le> tableSize t * LOAD_NUMER \<longrightarrow>
              tableSize t' = tableSize t)"
proof -
  note sz = hash_inv_size [OF inv]
  obtain i where i: "i < tableSize t" "on_chain (pEntries t) h i"
    "probe (pEntries t) (tableSize t) (key_match h x cmp) (unat h AND (tableSize t - 1)) = Some i"
    "data (pEntries t ! i) = (case contents key t (h, key x) of None \<Rightarrow> Null | Some y \<Rightarrow> Item y)"
    by (rule find_slot [where key = key and cmp = cmp and x = x and h = h, OF inv cmp]) blast
  show ?thesis
  proof (cases "contents key t (h, key x) = None \<and> doAdd")
    case False
    then show ?thesis using i sz(1,2) inv
      by (intro exI [of _ t]) (auto simp: mzHashTableLookup_def rd_def split: option.splits)
  next
    case True
    have null: "data (pEntries t ! i) = Null" using i(4) True by simp
    define t1 where "t1 = t\<lparr>pEntries := (pEntries t)[i := \<lparr>hashValue = h, data = Item x\<rparr>],
                             numEntries := numEntries t + 1\<rparr>"
    have il: "i < length (pEntries t)" using i(1) sz(1) by simp
    note li = live_insert [OF il null, where h = h and x = x]
    have d: "distinct (map fst (tagged key (live (pEntries t))))" using inv by (simp add: hash_inv_def)
    show ?thesis
    proof (cases "(numEntries t + numDeadEntries t + 1) * LOAD_DENOM > tableSize t * LOAD_NUMER")
      case big: True
      then obtain t2 where t2: "resizeHash calloc t1 (tableSize t1 * 2) = Some (t2, True)" "hash_inv key t2"
          "contents key t2 = (contents key t)((h, key x) \<mapsto> x)"
          "numEntries t2 = Suc (numEntries t)" "numDeadEntries t2 = 0"
        using grown_table [OF inv i(1,2) null _ t1_def, of calloc] True mem by (auto simp: t1_def)
      have "numEntries t2 < tableSize t2" using t2(2,5) hash_inv_size(2) [OF t2(2)] by (auto simp: hash_inv_def)
      then show ?thesis
        using i(1,3) sz True null big t2
        by (intro exI [of _ t2]) (simp add: mzHashTableLookup_def t1_def Let_def rd_def)
    next
      case small: False
      then have inv1: "hash_inv key t1" 
        using inv il chain_ok_insert [OF _ il, of h x] i(2) sz(1) li
          insert_contents(1) [OF li(1) d] True
        by (auto simp: hash_inv_def t1_def contents_def)
      have "contents key t1 = (contents key t)((h, key x) \<mapsto> x)"
        using insert_contents(2) [OF li(1) d] True by (simp add: t1_def contents_def)
      moreover have "numEntries t1 < tableSize t1" using small sz(2) by (simp add: t1_def)
      ultimately show ?thesis
        using i(1,3) sz True null small inv1
        by (intro exI [of _ t1]) (simp add: mzHashTableLookup_def t1_def Let_def rd_def)
    qed
  qed
qed
lemma tagged_Cons [simp]: "tagged key ((h, x) # xs) = ((h, key x), x) # tagged key xs"
  by (simp add: tagged_def)

lemma remove_spec:
  assumes inv: "hash_inv key t"
    and own: "\<forall>h'. contents key t (h', key x) = Some x \<longrightarrow> h' = h"
  shows "\<exists>t'. mzHashTableRemove t h x = Some (t', contents key t (h, key x) = Some x) \<and>
           hash_inv key t' \<and> tableSize t' = tableSize t \<and>
           contents key t' = (if contents key t (h, key x) = Some x
                              then (contents key t)((h, key x) := None) else contents key t) \<and>
           numEntries t' + numDeadEntries t' = numEntries t + numDeadEntries t"
proof -
  note sz = hash_inv_size [OF inv]
  have dist: "distinct (map fst (tagged key (live (pEntries t))))" using inv by (simp add: hash_inv_def)
  note cS = contents_Some [OF dist, folded contents_def]
  obtain i where i: "i < tableSize t" "on_chain (pEntries t) h i"
    "probe (pEntries t) (tableSize t) (\<lambda>e. data e = Item x) (unat h AND (tableSize t - 1)) = Some i"
    "data (pEntries t ! i) = Null \<or> data (pEntries t ! i) = Item x"
    "data (pEntries t ! i) = Null \<Longrightarrow>
       \<forall>e \<in> set (pEntries t). hashValue e = h \<and> (\<exists>x. data e = Item x) \<longrightarrow> data e \<noteq> Item x"
    by (rule probe_reaches [OF inv, where h = h and stop = "\<lambda>e. data e = Item x"]) blast
  have il: "i < length (pEntries t)" using i(1) sz(1) by simp
  show ?thesis
  proof (cases "data (pEntries t ! i) = Null")
    case True
    then have "contents key t (h, key x) \<noteq> Some x"
      using i(5) by (auto simp: cS live_iff)
    then show ?thesis
      using True i sz inv by (intro exI [of _ t]) (simp add: mzHashTableRemove_def rd_def)
  next
    case False
    then have item: "data (pEntries t ! i) = Item x" using i(4) by simp
    then have "contents key t (hashValue (pEntries t ! i), key x) = Some x"
      using il by (auto simp: cS live_iff)
    then have h: "hashValue (pEntries t ! i) = h" and at: "contents key t (h, key x) = Some x"
      using own by auto
    let ?es = "(pEntries t)[i := (pEntries t ! i)\<lparr>data := Tombstone\<rparr>]"
    have m: "mset (live (pEntries t)) = mset ((h, x) # live ?es)"
      using mset_live_update [OF il, of "(pEntries t ! i)\<lparr>data := Tombstone\<rparr>"] item h by simp
    have d': "distinct (map fst (tagged key ((h, x) # live ?es)))"
      using tagged_distinct_mset [OF m, of key] dist by blast
    have "contents key t = map_of (tagged key ((h, x) # live ?es))"
      unfolding contents_def by (rule map_of_mset [OF tagged_mset [OF m] dist])
    moreover have "map_of (tagged key (live ?es)) (h, key x) = None"
      using d' by (simp add: map_of_eq_None_iff)
    ultimately have c: "(contents key t)((h, key x) := None) = map_of (tagged key (live ?es))"
      by auto
    have l: "length (live (pEntries t)) = Suc (length (live ?es))" using arg_cong [OF m, of size] by simp
    have dd: "dead ?es = Suc (dead (pEntries t))"
      using dead_update [OF il, of "(pEntries t ! i)\<lparr>data := Tombstone\<rparr>"] item by (simp add: dead_def)
    have d2: "distinct (map fst (tagged key (live ?es)))" using d' by (simp add: tagged_def)
    then show ?thesis
      using i sz il item at c l dd d2 inv chain_ok_remove [OF _ il]
      by (simp add: mzHashTableRemove_def rd_def hash_inv_def contents_def)
  qed
qed

section \<open>Creation\<close>

lemma smear_step:
  assumes "\<And>n. bit (y :: u32) n \<longleftrightarrow> (\<exists>d < k. bit x (n + d))" "K = 2 * k"
  shows "bit (y OR drop_bit k y) n \<longleftrightarrow> (\<exists>d < K. bit x (n + d))"
proof -
  have "(\<exists>e < k. bit x (n + e)) \<or> (\<exists>e < k. bit x (k + n + e))" if "d < 2 * k" "bit x (n + d)" for d
  proof (cases "d < k")
    case False
    with that have "d - k < k" "bit x (k + n + (d - k))" by (auto simp: algebra_simps)
    then show ?thesis by blast
  qed (use that in blast)
  moreover have "\<exists>d < 2 * k. bit x (n + d)" if "e < k" "bit x (k + n + e)" for e
    using that by (intro exI [of _ "k + e"]) (auto simp: algebra_simps)
  moreover have "\<exists>d < 2 * k. bit x (n + d)" if "e < k" "bit x (n + e)" for e
    using that by (intro exI [of _ e]) auto
  ultimately show ?thesis
    unfolding bit_or_iff bit_drop_bit_eq comp_def assms by blast
qed

definition smear :: "u32 \<Rightarrow> u32" where
  "smear v = (let v = v OR drop_bit 1 v; v = v OR drop_bit 2 v; v = v OR drop_bit 4 v;
                  v = v OR drop_bit 8 v in v OR drop_bit 16 v)"

lemma bit_smear: "bit (smear v) n \<longleftrightarrow> (\<exists>d < 32. bit v (n + d))"
  unfolding smear_def Let_def
  by (rule smear_step [where k = 16], rule smear_step [where k = 8], rule smear_step [where k = 4],
      rule smear_step [where k = 2], rule smear_step [where k = 1]) simp_all

lemma smear_mask:
  assumes "bit x b" "\<And>n. bit x n \<Longrightarrow> n \<le> b"
  shows "smear x = mask (Suc b)"
proof (rule bit_eqI)
  fix n assume "possible_bit TYPE(32 word) n"
  then have n: "n < 32" by simp
  have b: "b < 32" using bit_imp_le_length [OF assms(1)] by simp
  show "bit (smear x) n \<longleftrightarrow> bit (mask (Suc b) :: u32) n"
  proof (cases "n \<le> b")
    case True
    then have "b - n < 32" "bit x (n + (b - n))" using assms(1) b by auto
    then show ?thesis using True n by (auto simp: bit_smear bit_mask_iff)
  next
    case False
    then have "\<not> bit x (n + d)" for d using assms(2) [of "n + d"] by auto
    then show ?thesis using False n by (auto simp: bit_smear bit_mask_iff)
  qed
qed

lemma high_bit:
  assumes "x \<noteq> (0 :: u32)"
  obtains b where "bit x b" "\<And>n. bit x n \<Longrightarrow> n \<le> b" "2 ^ b \<le> unat x" "unat x < 2 ^ Suc b"
proof -
  let ?S = "{n. bit x n}"
  have fin: "finite ?S" by (rule finite_subset [of _ "{..<32}"]) (auto dest: bit_imp_le_length)
  have ne: "?S \<noteq> {}" using assms by (auto simp: bit_eq_iff)
  define b where "b = Max ?S"
  have b: "bit x b" using Max_in [OF fin ne] by (simp add: b_def)
  have top: "bit x n \<Longrightarrow> n \<le> b" for n using Max_ge [OF fin, of n] by (simp add: b_def)
  have ub: "bit (unat x) n \<longleftrightarrow> bit x n" for n by transfer (auto simp: bit_take_bit_iff bit_nat_iff)
  have "take_bit (Suc b) (unat x) = unat x"
    by (rule bit_eqI) (use top in \<open>auto simp: bit_take_bit_iff ub less_Suc_eq_le\<close>)
  then have "unat x < 2 ^ Suc b" by (metis take_bit_nat_less_exp)
  moreover have "2 ^ b \<le> unat x"
  proof (rule ccontr)
    assume "\<not> 2 ^ b \<le> unat x"
    then have "unat x div 2 ^ b = 0" by simp
    then have "\<not> bit (unat x) b" by (simp add: bit_iff_odd)
    then show False using b ub by simp
  qed
  ultimately show thesis using b top by (intro that)
qed

lemma roundUpPower2_smear: "roundUpPower2 v = smear (v - 1) + 1"
  by (simp add: roundUpPower2_def smear_def Let_def)

lemma nat_mask: "nat (mask k) = 2 ^ k - 1"
  by (simp add: mask_eq_exp_minus_1 nat_diff_distrib nat_power_eq)
lemma unat_mask32: "k < 32 \<Longrightarrow> unat (mask k :: u32) = 2 ^ k - 1"
  by transfer (simp add: take_bit_of_mask nat_mask)

lemma roundUpPower2_spec:
  assumes "0 < v" "unat v \<le> 2 ^ 31"
  shows "\<exists>b \<le> 31. unat (roundUpPower2 v) = 2 ^ b \<and> unat v \<le> 2 ^ b \<and> (b = 0 \<or> 2 ^ (b - 1) < unat v)"
proof (cases "v = 1")
  case True
  then show ?thesis by (intro exI [of _ 0]) (simp add: roundUpPower2_smear smear_def)
next
  case False
  then have "v - 1 \<noteq> 0" by auto
  then obtain b where b: "bit (v - 1) b" "\<And>n. bit (v - 1) n \<Longrightarrow> n \<le> b"
      "2 ^ b \<le> unat (v - 1)" "unat (v - 1) < 2 ^ Suc b" by (rule high_bit) blast
  have v: "unat (v - 1) = unat v - 1" "0 < unat v"
    using assms(1) unat_minus_one [of v] unat_gt_0 [of v] by (auto simp: word_less_nat_alt)
  have "(2 :: nat) ^ b < 2 ^ 31" using b(3) v assms(2) by linarith
  then have b31: "b < 31" by (rule power_less_imp_less_exp [rotated]) simp
  have "unat (mask (Suc b) :: u32) = 2 ^ Suc b - 1"
    using b31 by (simp add: unat_mask32)
  moreover have "(2 :: nat) ^ Suc b \<le> 2 ^ 31" using b31 by (intro power_increasing) auto
  ultimately have "unat (roundUpPower2 v) = 2 ^ Suc b"
    using smear_mask [OF b(1,2)] by (simp add: roundUpPower2_smear unat_word_ariths)
  then show ?thesis using b v b31 by (intro exI [of _ "Suc b"]) auto
qed
lemma create_spec:
  assumes "0 < sz" "unat sz \<le> 2 ^ 31" "mzHashTableCreate malloc_ok calloc sz ff = Some (Some t)"
  shows "hash_inv key t" "contents key t = Map.empty" "numEntries t = 0" "numDeadEntries t = 0"
    "unat sz \<le> tableSize t"
proof -
  obtain b where "unat (roundUpPower2 sz) = 2 ^ b" "unat sz \<le> 2 ^ b"
    using roundUpPower2_spec [OF assms(1,2)] by blast
  with assms show "hash_inv key t" "contents key t = Map.empty" "numEntries t = 0" "numDeadEntries t = 0"
    "unat sz \<le> tableSize t"
    by (auto simp: mzHashTableCreate_def hash_inv_def contents_def tagged_def Let_def split: if_splits)
qed

section \<open>Sequences of operations\<close>

text \<open>
  A client computes the hash of an item with one function and compares items with one
  function. \<open>hash_run\<close> performs its calls in order; \<open>map_run\<close> is the same history on a map.
\<close>

datatype 'a hash_op = Find 'a | Add 'a | Remove 'a

fun hash_step :: "(nat \<Rightarrow> bool) \<Rightarrow> ('a \<Rightarrow> u32) \<Rightarrow> ('a \<Rightarrow> 'a \<Rightarrow> int) \<Rightarrow> 'a HashTable \<Rightarrow> 'a hash_op \<Rightarrow>
    ('a HashTable \<times> 'a option) option" where
  "hash_step calloc hf cmp t (Find x) = mzHashTableLookup calloc t (hf x) x cmp False"
| "hash_step calloc hf cmp t (Add x) = mzHashTableLookup calloc t (hf x) x cmp True"
| "hash_step calloc hf cmp t (Remove x) = do {
     (t', ok) \<leftarrow> mzHashTableRemove t (hf x) x;
     Some (t', if ok then Some x else None)
   }"

fun hash_run :: "(nat \<Rightarrow> bool) \<Rightarrow> ('a \<Rightarrow> u32) \<Rightarrow> ('a \<Rightarrow> 'a \<Rightarrow> int) \<Rightarrow> 'a HashTable \<Rightarrow> 'a hash_op list \<Rightarrow>
    ('a HashTable \<times> 'a option list) option" where
  "hash_run calloc hf cmp t [] = Some (t, [])"
| "hash_run calloc hf cmp t (p # ps) = do {
     (t', r) \<leftarrow> hash_step calloc hf cmp t p;
     (t'', rs) \<leftarrow> hash_run calloc hf cmp t' ps;
     Some (t'', r # rs)
   }"

fun map_step :: "('a \<Rightarrow> 'k) \<Rightarrow> ('k \<rightharpoonup> 'a) \<Rightarrow> 'a hash_op \<Rightarrow> ('k \<rightharpoonup> 'a) \<times> 'a option" where
  "map_step key m (Find x) = (m, m (key x))"
| "map_step key m (Add x) =
     (case m (key x) of None \<Rightarrow> (m(key x \<mapsto> x), Some x) | Some y \<Rightarrow> (m, Some y))"
| "map_step key m (Remove x) = (if m (key x) = Some x then (m(key x := None), Some x) else (m, None))"

fun map_run :: "('a \<Rightarrow> 'k) \<Rightarrow> ('k \<rightharpoonup> 'a) \<Rightarrow> 'a hash_op list \<Rightarrow> ('k \<rightharpoonup> 'a) \<times> 'a option list" where
  "map_run key m [] = (m, [])"
| "map_run key m (p # ps) =
     (let (m', r) = map_step key m p; (m'', rs) = map_run key m' ps in (m'', r # rs))"

text \<open>The table stands for the map \<open>m\<close>: an item is stored under the hash the client gives it.\<close>

definition represents :: "('a \<Rightarrow> 'k) \<Rightarrow> ('a \<Rightarrow> u32) \<Rightarrow> 'a HashTable \<Rightarrow> ('k \<rightharpoonup> 'a) \<Rightarrow> bool" where
  "represents key hf t m \<longleftrightarrow> hash_inv key t \<and> (\<forall>k y. m k = Some y \<longrightarrow> key y = k) \<and>
     (\<forall>h k. contents key t (h, k) = (case m k of Some y \<Rightarrow> if hf y = h then Some y else None | None \<Rightarrow> None))"

lemma represents_hash:
  assumes "represents key hf t m" "\<And>x y. key x = key y \<Longrightarrow> hf x = hf y" "m (key x) = Some y"
  shows "hf y = hf x"
  using assms(1,3) by (intro assms(2)) (simp add: represents_def)

lemma represents_at:
  assumes "represents key hf t m" "\<And>x y. key x = key y \<Longrightarrow> hf x = hf y"
  shows "contents key t (hf x, key x) = m (key x)"
  using assms(1) represents_hash [OF assms, of x]
  by (cases "m (key x)") (simp_all add: represents_def)

lemma step_refines:
  assumes R: "represents key hf t m"
    and cmp: "\<And>x y. cmp y x = 0 \<longleftrightarrow> key y = key x" and hf: "\<And>x y. key x = key y \<Longrightarrow> hf x = hf y"
    and mem: "(numEntries t + numDeadEntries t + 1) * LOAD_DENOM > tableSize t * LOAD_NUMER \<Longrightarrow>
                calloc (tableSize t * 2)"
  shows "\<exists>t'. hash_step calloc hf cmp t p = Some (t', snd (map_step key m p)) \<and>
           represents key hf t' (fst (map_step key m p)) \<and>
           numEntries t' + numDeadEntries t' \<le> Suc (numEntries t + numDeadEntries t) \<and>
           ((numEntries t + numDeadEntries t + 1) * LOAD_DENOM \<le> tableSize t * LOAD_NUMER \<longrightarrow>
              tableSize t' = tableSize t)"
proof -
  have inv: "hash_inv key t" using R by (simp add: represents_def)
  have at: "contents key t (hf x, key x) = m (key x)" for x
    by (rule represents_at [OF R hf])
  have cmp': "\<forall>y. cmp y x = 0 \<longleftrightarrow> key y = key x" for x using cmp by blast
  note look = lookup_spec [where key = key and cmp = cmp and calloc = calloc and x = x and h = "hf x"
      and doAdd = d for x d, OF inv cmp' mem]
  have upd: "represents key hf t' m'"
    if "hash_inv key t'" "contents key t' = (contents key t)((hf x, key x) := v)"
      "m' = m(key x := v)" "v = None \<or> v = Some x" for t' x v m'
    using R that represents_hash [OF R hf, of x] by (auto simp: represents_def split: option.splits)
  have same: "represents key hf t' m" if "hash_inv key t'" "contents key t' = contents key t" for t'
    using R that by (simp add: represents_def)
  show ?thesis
  proof (cases p)
    case (Find x)
    then show ?thesis
      using look [of x False] same
      by (cases "m (key x)") (auto simp: at)
  next
    case (Add x)
    show ?thesis
    proof (cases "m (key x)")
      case None
      then show ?thesis
        using look [of x True]
          Add upd [where x = x and v = "Some x"]
        by (auto simp: at)
    next
      case (Some y)
      then show ?thesis
        using look [of x True] Add same
        by (auto simp: at)
    qed
  next
    case (Remove x)
    have "\<forall>h'. contents key t (h', key x) = Some x \<longrightarrow> h' = hf x"
      using R by (auto simp: represents_def split: option.splits if_splits)
    from remove_spec [OF inv this] show ?thesis
      using Remove same upd [where x = x and v = None] by (auto simp: at)
  qed
qed

lemma run_refines:
  assumes "represents key hf t m"
    and "\<And>x y. cmp y x = 0 \<longleftrightarrow> key y = key x" and "\<And>x y. key x = key y \<Longrightarrow> hf x = hf y"
    and "numEntries t + numDeadEntries t \<le> c"
    and "(c + length ps) * LOAD_DENOM \<le> tableSize t * LOAD_NUMER \<or> (\<forall>n \<le> 4 * (c + length ps). calloc n)"
  shows "\<exists>t'. hash_run calloc hf cmp t ps = Some (t', snd (map_run key m ps)) \<and>
           represents key hf t' (fst (map_run key m ps))"
  using assms
proof (induction ps arbitrary: t m c)
  case (Cons p ps)
  have "calloc (tableSize t * 2)"
    if "(numEntries t + numDeadEntries t + 1) * LOAD_DENOM > tableSize t * LOAD_NUMER"
    using that Cons.prems(4,5) by auto
  from step_refines [where key = key and hf = hf and cmp = cmp and calloc = calloc and p = p,
      OF Cons.prems(1-3) this] obtain t1 where t1:
    "hash_step calloc hf cmp t p = Some (t1, snd (map_step key m p))"
    "represents key hf t1 (fst (map_step key m p))"
    "numEntries t1 + numDeadEntries t1 \<le> Suc (numEntries t + numDeadEntries t)"
    "(numEntries t + numDeadEntries t + 1) * LOAD_DENOM \<le> tableSize t * LOAD_NUMER \<longrightarrow> tableSize t1 = tableSize t"
    by blast
  have "numEntries t1 + numDeadEntries t1 \<le> Suc c" using t1(3) Cons.prems(4) by simp
  moreover have "(Suc c + length ps) * LOAD_DENOM \<le> tableSize t1 * LOAD_NUMER \<or>
      (\<forall>n \<le> 4 * (Suc c + length ps). calloc n)"
    using Cons.prems(4,5) t1(4) by auto
  ultimately have "\<exists>t'. hash_run calloc hf cmp t1 ps = Some (t', snd (map_run key (fst (map_step key m p)) ps)) \<and>
      represents key hf t' (fst (map_run key (fst (map_step key m p)) ps))"
    using Cons.IH [OF t1(2) Cons.prems(2,3)] by blast
  then show ?case using t1(1) by (auto simp: split_beta)
qed auto

section \<open>Iteration\<close>

lemma live_drop: "i < length es \<Longrightarrow> live (drop i es) = live [es ! i] @ live (drop (Suc i) es)"
  by (metis Cons_nth_drop_Suc append_Cons append_Nil live_append)

lemma iter_scan_live:
  assumes "length (pEntries t) = tableSize t" "i \<le> tableSize t"
  shows "iter_scan t i \<le> tableSize t \<and> live (drop (iter_scan t i) (pEntries t)) = live (drop i (pEntries t)) \<and>
    (iter_scan t i < tableSize t \<longrightarrow> (\<exists>x. data (pEntries t ! iter_scan t i) = Item x))"
  using assms
proof (induction t i rule: iter_scan.induct)
  case (1 t i)
  show ?case
  proof (cases "i < tableSize t \<and> (case data (pEntries t ! i) of Item _ \<Rightarrow> False | _ \<Rightarrow> True)")
    case True
    then have "live (drop i (pEntries t)) = live (drop (i + 1) (pEntries t))"
      using live_drop [of i "pEntries t"] 1(2) by (auto split: slot.splits)
    moreover have "iter_scan t i = iter_scan t (i + 1)" using True by (subst iter_scan.simps) simp
    ultimately show ?thesis using 1(1) [OF True] 1(2) True by simp
  next
    case False
    then have "iter_scan t i = i" by (subst iter_scan.simps) auto
    then show ?thesis using False 1(3) by (auto split: slot.splits)
  qed
qed

lemma iter_items_live:
  assumes len: "length (pEntries t) = tableSize t"
  shows "i \<le> tableSize t \<Longrightarrow>
    iter_items t (int (iter_scan t i)) = map (Some \<circ> Item \<circ> snd) (live (drop i (pEntries t)))"
proof (induction "tableSize t - i" arbitrary: i rule: less_induct)
  case less
  let ?k = "iter_scan t i"
  note sc = iter_scan_live [OF len less.prems]
  show ?case
  proof (cases "?k < tableSize t")
    case True
    then obtain x where x: "data (pEntries t ! ?k) = Item x" using sc by auto
    have "live (drop i (pEntries t)) = (hashValue (pEntries t ! ?k), x) # live (drop (Suc ?k) (pEntries t))"
      using sc live_drop [of ?k "pEntries t"] True x len by simp
    moreover have "iter_items t (int (iter_scan t (Suc ?k))) =
        map (Some \<circ> Item \<circ> snd) (live (drop (Suc ?k) (pEntries t)))"
      using True iter_scan_ge [of i t] by (intro less.hyps) auto
    moreover have "mzHashIterNext t (int ?k) = int (iter_scan t (Suc ?k))"
      by (simp add: mzHashIterNext_def nat_add_distrib)
    ultimately show ?thesis
      using True x len by (subst iter_items.simps) (simp add: mzHashIterDone_def mzHashIterData_def rd_def)
  next
    case False
    then show ?thesis
      using sc len by (subst iter_items.simps) (simp add: mzHashIterDone_def)
  qed
qed

text \<open>A visitor called on a list of items until it returns a value other than 0.\<close>

fun visit :: "('a \<Rightarrow> 's \<Rightarrow> int \<times> 's) \<Rightarrow> 's \<Rightarrow> 'a list \<Rightarrow> int \<times> 's" where
  "visit func arg [] = (0, arg)"
| "visit func arg (x # xs) = (let (v, arg') = func x arg in if v \<noteq> 0 then (v, arg') else visit func arg' xs)"

lemma foreach_visit: "foreach_entries func arg es = visit func arg (map snd (live es))"
  by (induction es arbitrary: arg) (auto split: slot.splits prod.splits)

lemma ran_contents:
  assumes "hash_inv key t"
  shows "ran (contents key t) = snd ` set (live (pEntries t))"
proof -
  have "distinct (map fst (tagged key (live (pEntries t))))" using assms by (simp add: hash_inv_def)
  then show ?thesis by (force simp: contents_def ran_distinct tagged_def image_image split_beta)
qed

lemma freed_live: "freed_items es = map snd (live es)"
  by (induction es) (auto split: slot.splits)

lemma data_clear [simp]: "data (clear_entry e) = Null"
  by (simp add: clear_entry_def)

lemma live_clear [simp]: "live (map clear_entry es) = []" "dead (map clear_entry es) = 0"
  by (induction es) (auto simp: dead_def)

text \<open>
  C7. The hash table implements a map: a table created with any size, given a comparison
  function that decides a key and a hash function that depends on the key only, answers every
  sequence of lookups, insertions and removals as a map from keys to items would; no probe
  loops forever, no assertion fails and the resizing copies everything, provided allocations
  of up to four entries per call succeed.
\<close>

theorem hash_table_refines_map:
  assumes "0 < sz" "unat sz \<le> 2 ^ 30" "mzHashTableCreate True calloc sz ff = Some (Some t)"
    and "\<forall>x y. cmp y x = 0 \<longleftrightarrow> key y = key x" "\<forall>x y. key x = key y \<longrightarrow> hf x = hf y"
    and "\<forall>n \<le> 4 * length ps. calloc n"
  shows "\<exists>t'. hash_run calloc hf cmp t ps = Some (t', snd (map_run key Map.empty ps)) \<and>
           represents key hf t' (fst (map_run key Map.empty ps))"
proof -
  have "unat sz \<le> 2 ^ 31" using assms(2) by simp
  note cr = create_spec [OF assms(1) this assms(3)]
  have "represents key hf t Map.empty" using cr(1,2) [of key] by (simp add: represents_def)
  then show ?thesis
    by (rule run_refines [where c = 0])
      (use assms(4) in blast, use assms(5) in blast, use cr(3,4) in simp, use assms(6) in simp)
qed

theorem hash_table_refines_map_witness:
  "\<exists>t t'. mzHashTableCreate True (\<lambda>_. True) (2 :: u32) True = Some (Some t) \<and>
     hash_run (\<lambda>_. True) (\<lambda>x :: u32. x) (\<lambda>y x. if y = x then 0 else 1) t
       [Add 1, Add 5, Find 1, Remove 1, Find 1] = Some (t', [Some 1, Some 5, Some 1, Some 1, None])"
proof -
  obtain t :: "u32 HashTable" where t: "mzHashTableCreate True (\<lambda>_. True) (2 :: u32) True = Some (Some t)"
    by (simp add: mzHashTableCreate_def Let_def)
  have c: "\<forall>x y :: u32. ((if y = x then 0 else 1) = (0 :: int)) \<longleftrightarrow> y = x" by simp
  have "\<exists>t'. hash_run (\<lambda>_. True) (\<lambda>x :: u32. x) (\<lambda>y x. if y = x then 0 else 1) t
      [Add 1, Add 5, Find 1, Remove 1, Find 1] =
      Some (t', snd (map_run (\<lambda>x. x) Map.empty [Add 1, Add 5, Find 1, Remove 1, Find 1]))"
    using hash_table_refines_map [where hf = "\<lambda>x. x", OF _ _ t c] by (simp del: hash_run.simps map_run.simps) blast
  then show ?thesis using t by (simp del: hash_run.simps)
qed

text \<open>
  C8. A table created with \<open>mzHashSize s\<close> takes \<open>s\<close> operations without ever reallocating: it
  behaves as the map even if every further allocation would fail.
\<close>

theorem presized_table_never_grows:
  assumes "s < 2 ^ 29" "mzHashTableCreate True calloc (mzHashSize s) ff = Some (Some t)"
    and "\<forall>x y. cmp y x = 0 \<longleftrightarrow> key y = key x" "\<forall>x y. key x = key y \<longrightarrow> hf x = hf y"
    and "length ps \<le> unat s"
  shows "\<exists>t'. hash_run (\<lambda>_. False) hf cmp t ps = Some (t', snd (map_run key Map.empty ps)) \<and>
           represents key hf t' (fst (map_run key Map.empty ps))"
proof -
  have s: "unat s < 2 ^ 29" using assms(1) by (simp add: word_less_nat_alt)
  then have "unat (s * 8) = unat s * 8" by (subst unat_mult_lem [THEN iffD1]) simp_all
  then have "unat (s * 8 div 5) = unat s * 8 div 5" by (simp add: unat_div)
  then have sz: "unat (mzHashSize s) = unat s * 8 div 5 + 1"
    using s unfolding mzHashSize_def by (subst unat_add_lem [THEN iffD1]) simp_all
  then have "0 < mzHashSize s" "unat (mzHashSize s) \<le> 2 ^ 31"
    using s by (auto simp: word_less_nat_alt)
  note cr = create_spec [OF this assms(2)]
  have "unat s * 8 \<le> tableSize t * 5" using cr(5) sz by linarith
  then have room: "(0 + length ps) * LOAD_DENOM \<le> tableSize t * LOAD_NUMER" using assms(5) by simp
  have "represents key hf t Map.empty" using cr(1,2) [of key] by (simp add: represents_def)
  then show ?thesis
    by (rule run_refines [where c = 0])
      (use assms(3) in blast, use assms(4) in blast, use cr(3,4) in simp, use room in blast)
qed

theorem presized_table_never_grows_witness:
  "\<exists>t t'. mzHashTableCreate True (\<lambda>_. True) (mzHashSize 3) True = Some (Some t) \<and>
     hash_run (\<lambda>_. False) (\<lambda>x :: u32. 7) (\<lambda>y x. if y = x then 0 else 1) t [Add 1, Add 9, Find 1] =
       Some (t', [Some 1, Some 9, Some 1])"
proof -
  obtain t :: "u32 HashTable" where t: "mzHashTableCreate True (\<lambda>_. True) (mzHashSize 3) True = Some (Some t)"
    by (simp add: mzHashTableCreate_def mzHashSize_def Let_def)
  have c: "\<forall>x y :: u32. ((if y = x then 0 else 1) = (0 :: int)) \<longleftrightarrow> y = x" by simp
  have "\<exists>t'. hash_run (\<lambda>_. False) (\<lambda>x :: u32. 7) (\<lambda>y x. if y = x then 0 else 1) t [Add 1, Add 9, Find 1] =
      Some (t', snd (map_run (\<lambda>x. x) Map.empty [Add 1, Add 9, Find 1]))"
    using presized_table_never_grows [where hf = "\<lambda>x. 7" and ps = "[Add 1, Add 9, Find 1]", OF _ t c]
    by (simp del: hash_run.simps map_run.simps) blast
  then show ?thesis using t by (simp del: hash_run.simps)
qed

text \<open>
  C9. Both ways to walk over a table, the iterator and \<open>mzHashForeach\<close>, visit the same items in
  the same order, as many as \<open>mzHashTableNumEntries\<close> says and exactly those that lookups can
  find; \<open>mzHashTableClear\<close> passes these items to the free function and leaves an empty table.
\<close>

theorem traversal_complete:
  assumes "hash_inv key t"
  shows "\<exists>xs. iter_items t (mzHashIterBegin t) = map (Some \<circ> Item) xs \<and>
           (\<forall>func arg. mzHashForeach t func arg = visit func arg xs) \<and>
           length xs = mzHashTableNumEntries t \<and> set xs = ran (contents key t) \<and>
           (freeFunc t \<longrightarrow> snd (mzHashTableClear t) = xs) \<and>
           hash_inv key (fst (mzHashTableClear t)) \<and> contents key (fst (mzHashTableClear t)) = Map.empty"
proof -
  let ?xs = "map snd (live (pEntries t))"
  have len: "length (pEntries t) = tableSize t" using assms by (simp add: hash_inv_def)
  have "iter_items t (mzHashIterBegin t) = map (Some \<circ> Item) ?xs"
    using iter_items_live [OF len, of 0] by (simp add: mzHashIterBegin_def mzHashIterNext_def)
  moreover have "mzHashForeach t func arg = visit func arg ?xs" for func arg
    using len by (simp add: mzHashForeach_def foreach_visit)
  moreover have "length ?xs = mzHashTableNumEntries t"
    using assms by (simp add: mzHashTableNumEntries_def hash_inv_def)
  moreover have "set ?xs = ran (contents key t)" using ran_contents [OF assms] by simp
  moreover have "freeFunc t \<longrightarrow> snd (mzHashTableClear t) = ?xs"
    using len by (simp add: mzHashTableClear_def freed_live)
  moreover have "hash_inv key (fst (mzHashTableClear t))"
    using assms len
    by (auto simp: mzHashTableClear_def hash_inv_def chain_ok_def tagged_def)
  moreover have "contents key (fst (mzHashTableClear t)) = Map.empty"
    using len by (simp add: mzHashTableClear_def contents_def tagged_def)
  ultimately show ?thesis by blast
qed

theorem traversal_complete_witness:
  "iter_items \<lparr>tableSize = 4, numEntries = 1, numDeadEntries = 1,
     pEntries = [\<lparr>hashValue = 4, data = Tombstone\<rparr>, \<lparr>hashValue = 8, data = Item (5 :: int)\<rparr>, empty_entry, empty_entry],
     freeFunc = True\<rparr> (mzHashIterBegin \<lparr>tableSize = 4, numEntries = 1, numDeadEntries = 1,
     pEntries = [\<lparr>hashValue = 4, data = Tombstone\<rparr>, \<lparr>hashValue = 8, data = Item (5 :: int)\<rparr>, empty_entry, empty_entry],
     freeFunc = True\<rparr>) = [Some (Item (5 :: int))]"
  (is "iter_items ?t _ = _")
proof -
  have "on_chain (pEntries ?t) 8 1"
    unfolding on_chain_def by (intro exI [of _ 1]) (simp add: home_def)
  then have "hash_inv (\<lambda>x. x) ?t"
    by (auto simp: hash_inv_def dead_def empty_entry_def tagged_def chain_ok_def less_Suc_eq numeral_eq_Suc
        intro: exI [of _ 2])
  from traversal_complete [OF this] show ?thesis
    by (auto simp: mzHashTableClear_def empty_entry_def)
qed

end
