(* ===== verification/Bspatch.thy ===== *)
theory Bspatch
  imports Edify Byte_Utils
begin

text \<open>
  The bsdiff patch decoder, \<open>applypatch/bspatch.c\<close>, with the number encoder \<open>offtout\<close> of
  \<open>applypatch/bsdiff.c\<close>.

  libbzip2 and the SHA-1 of libmincrypt are not part of the sources: they are the parameters
  \<open>bz\<close> and \<open>sha\<close>. A decompressor state answers a request for at most \<open>n\<close> bytes with its return
  code, the bytes it produced and its next state. \<open>malloc\<close> is a parameter, too.

  \<open>off_t\<close> and \<open>ssize_t\<close> are signed 32-bit numbers: an overflow is undefined (\<open>None\<close>), and so is
  a pointer outside of the patch or of the old data. The bytes written into \<open>new_data\<close> so far
  are the list \<open>new_data\<close>, whose length is \<open>newpos\<close>.
\<close>

section \<open>Libraries\<close>

record 'z bzlib =
  BZ2_bzDecompressInit :: "byte list \<Rightarrow> int \<times> 'z"
  BZ2_bzDecompress :: "'z \<Rightarrow> nat \<Rightarrow> int \<times> byte list \<times> 'z"

abbreviation (input) BZ_OK :: int where "BZ_OK \<equiv> 0"
abbreviation (input) BZ_STREAM_END :: int where "BZ_STREAM_END \<equiv> 4"

record 'c shalib =
  SHA_init :: 'c
  SHA_update :: "'c \<Rightarrow> byte list \<Rightarrow> 'c"
  SHA_final :: "'c \<Rightarrow> byte list"
  SHA_hash :: "byte list \<Rightarrow> byte list"

type_synonym 't sink = "'t \<Rightarrow> byte list \<Rightarrow> ('t \<times> int) option"

definition vbytes :: "Value \<Rightarrow> byte list" where
  "vbytes v = map (\<lambda>c. of_nat (of_char c)) (vdata v)"

section \<open>Numbers\<close>

fun offtin_digits :: "int \<Rightarrow> byte list \<Rightarrow> int option" where
  "offtin_digits y [] = Some y"
| "offtin_digits y (b # bs) = do {
     y \<leftarrow> c_int (y * 256);
     y \<leftarrow> c_int (y + uint b);
     offtin_digits y bs
   }"

definition offtin :: "byte list \<Rightarrow> int option" where
  "offtin buf = do {
     bs \<leftarrow> slice buf 0 8;
     y \<leftarrow> offtin_digits (uint (bs ! 7 AND 0x7F)) (rev (take 7 bs));
     if bs ! 7 AND 0x80 \<noteq> 0 then c_int (- y) else Some y
   }"

text \<open>The digits of \<open>y\<close> to base 256, the last division included.\<close>

fun offtout_digits :: "nat \<Rightarrow> int \<Rightarrow> byte list" where
  "offtout_digits 0 y = []"
| "offtout_digits (Suc n) y =
     of_int (y mod 256) # offtout_digits n ((y - y mod 256) div 256)"

definition offtout :: "int \<Rightarrow> byte list" where
  "offtout x =
     (let bs = offtout_digits 8 (if x < 0 then - x else x)
      in if x < 0 then bs[7 := bs ! 7 OR 0x80] else bs)"

section \<open>Decoding\<close>

partial_function (option) FillBuffer ::
  "'z bzlib \<Rightarrow> 'z \<Rightarrow> nat \<Rightarrow> (int \<times> byte list \<times> 'z) option" where
  [code]: "FillBuffer bz stream avail_out =
     (if avail_out > 0
      then let (bzerr, bs, stream) = BZ2_bzDecompress bz stream avail_out
           in if length bs > avail_out then None
              else if bzerr \<noteq> BZ_OK \<and> bzerr \<noteq> BZ_STREAM_END then Some (-1, bs, stream)
              else do {
                (r, rest, stream) \<leftarrow> FillBuffer bz stream (avail_out - length bs);
                Some (r, bs @ rest, stream)
              }
      else Some (0, [], stream))"

text \<open>Adding the old bytes from \<open>pos\<close> on to the diff bytes.\<close>

fun add_old :: "byte list \<Rightarrow> int \<Rightarrow> int \<Rightarrow> byte list \<Rightarrow> byte list option" where
  "add_old old_data old_size pos [] = Some []"
| "add_old old_data old_size pos (d # ds) = do {
     pos \<leftarrow> c_int pos;
     b \<leftarrow> (if pos \<ge> 0 \<and> pos < old_size
          then do { o1 \<leftarrow> rd old_data (nat pos); Some (d + o1) }
          else Some d);
     bs \<leftarrow> add_old old_data old_size (pos + 1) ds;
     Some (b # bs)
   }"

partial_function (option) bspatch_loop ::
  "'z bzlib \<Rightarrow> byte list \<Rightarrow> int \<Rightarrow> int \<Rightarrow> 'z \<Rightarrow> 'z \<Rightarrow> 'z \<Rightarrow> int \<Rightarrow> byte list \<Rightarrow> (int \<times> byte list) option" where
  [code]: "bspatch_loop bz old_data old_size new_size cstream dstream estream oldpos new_data =
     (if int (length new_data) < new_size
      then do {
        (r, buf, cstream) \<leftarrow> FillBuffer bz cstream 24;
        if r \<noteq> 0 then Some (1, new_data)
        else do {
          ctrl0 \<leftarrow> offtin buf;
          ctrl1 \<leftarrow> offtin (drop 8 buf);
          ctrl2 \<leftarrow> offtin (drop 16 buf);
          if ctrl0 < 0 \<or> ctrl1 < 0 then Some (1, new_data)
          else do {
            end0 \<leftarrow> c_int (int (length new_data) + ctrl0);
            if end0 > new_size then Some (1, new_data)
            else do {
              (r, diff, dstream) \<leftarrow> FillBuffer bz dstream (nat ctrl0);
              if r \<noteq> 0 then Some (1, new_data)
              else do {
                added \<leftarrow> add_old old_data old_size oldpos diff;
                let new_data = new_data @ added;
                oldpos \<leftarrow> c_int (oldpos + ctrl0);
                end1 \<leftarrow> c_int (int (length new_data) + ctrl1);
                if end1 > new_size then Some (1, new_data)
                else do {
                  (r, extra, estream) \<leftarrow> FillBuffer bz estream (nat ctrl1);
                  if r \<noteq> 0 then Some (1, new_data)
                  else do {
                    oldpos \<leftarrow> c_int (oldpos + ctrl2);
                    bspatch_loop bz old_data old_size new_size cstream dstream estream oldpos (new_data @ extra)
                  }
                }
              }
            }
          }
        }
      }
      else Some (0, new_data))"

text \<open>The status and, if it is 0, the new data.\<close>

definition ApplyBSDiffPatchMem ::
  "'z bzlib \<Rightarrow> (int \<Rightarrow> bool) \<Rightarrow> byte list \<Rightarrow> int \<Rightarrow> Value \<Rightarrow> int \<Rightarrow> (int \<times> byte list) option" where
  "ApplyBSDiffPatchMem bz malloc old_data old_size patch patch_offset =
     (if patch_offset < 0 then None
      else
        let data = vbytes patch; off = nat patch_offset
        in do {
          magic \<leftarrow> slice data off 8;
          if magic \<noteq> bytes_of ''BSDIFF40'' then Some (1, [])
          else do {
            ctrl_len \<leftarrow> offtin (drop (off + 8) data);
            data_len \<leftarrow> offtin (drop (off + 16) data);
            new_size \<leftarrow> offtin (drop (off + 24) data);
            if ctrl_len < 0 \<or> data_len < 0 \<or> new_size < 0 then Some (1, [])
            else do {
              cin \<leftarrow> slice data (off + 32) (nat ctrl_len);
              din \<leftarrow> slice data (off + 32 + nat ctrl_len) (nat data_len);
              let avail = vsize patch - (patch_offset + 32 + ctrl_len + data_len);
              ein \<leftarrow> (if avail < 0 then None else slice data (off + 32 + nat ctrl_len + nat data_len) (nat avail));
              let cstream = snd (BZ2_bzDecompressInit bz cin);
              let dstream = snd (BZ2_bzDecompressInit bz din);
              let estream = snd (BZ2_bzDecompressInit bz ein);
              if \<not> malloc new_size then Some (1, [])
              else bspatch_loop bz old_data old_size new_size cstream dstream estream 0 []
            }
          }
        })"

definition ApplyBSDiffPatch ::
  "'z bzlib \<Rightarrow> (int \<Rightarrow> bool) \<Rightarrow> 'c shalib \<Rightarrow> byte list \<Rightarrow> int \<Rightarrow> Value \<Rightarrow> int \<Rightarrow> 't sink \<Rightarrow> 't \<Rightarrow> 'c option \<Rightarrow>
   (int \<times> 't \<times> 'c option) option" where
  "ApplyBSDiffPatch bz malloc sha old_data old_size patch patch_offset sink token ctx = do {
     (r, new_data) \<leftarrow> ApplyBSDiffPatchMem bz malloc old_data old_size patch patch_offset;
     if r \<noteq> 0 then Some (-1, token, ctx)
     else do {
       (token, n) \<leftarrow> sink token new_data;
       if n < int (length new_data) then Some (1, token, ctx)
       else Some (0, token, map_option (\<lambda>c. SHA_update sha c new_data) ctx)
     }
   }"

section \<open>The number format\<close>

lemma c_int_Some: "c_int v = Some u \<longleftrightarrow> u = v \<and> LONG_MIN \<le> v \<and> v \<le> LONG_MAX"
  by (auto simp: c_int_def)

lemma c_int_ok [simp]: "LONG_MIN \<le> v \<Longrightarrow> v \<le> LONG_MAX \<Longrightarrow> c_int v = Some v"
  by (simp add: c_int_def)

lemma offtin_digits_append:
  "offtin_digits y (as @ bs) = do { y \<leftarrow> offtin_digits y as; offtin_digits y bs }"
  by (induction as arbitrary: y) (auto simp: bind_assoc)

lemma div_256: "(y - y mod 256) div 256 = y div (256 :: int)"
  by (simp add: minus_mod_eq_mult_div)

lemma offtout_digits_snoc:
  "offtout_digits (Suc n) y = offtout_digits n y @ [of_int (y div 256 ^ n mod 256)]"
proof (induction n arbitrary: y)
  case (Suc n)
  have "offtout_digits (Suc (Suc n)) y = of_int (y mod 256) # offtout_digits (Suc n) (y div 256)"
    by (simp add: div_256)
  also have "\<dots> = of_int (y mod 256) # offtout_digits n (y div 256) @ [of_int (y div 256 div 256 ^ n mod 256)]"
    by (simp only: Suc)
  also have "y div 256 div 256 ^ n = y div 256 ^ Suc n"
    by (simp add: zdiv_zmult2_eq)
  finally show ?case by (simp add: div_256)
qed simp

lemma length_offtout_digits [simp]: "length (offtout_digits n y) = n"
  by (induction n arbitrary: y) auto

lemma offtin_offtout_digits:
  assumes "0 \<le> y" "y < 256 ^ n" "y \<le> LONG_MAX"
  shows "offtin_digits 0 (rev (offtout_digits n y)) = Some y"
  using assms
proof (induction n arbitrary: y)
  case (Suc n)
  have "offtin_digits 0 (rev (offtout_digits n (y div 256))) = Some (y div 256)"
    using Suc.prems by (intro Suc.IH) (auto simp: div_less_iff_less_mult pos_imp_zdiv_nonneg_iff)
  moreover have "uint (of_int (y mod 256) :: byte) = y mod 256"
    by (simp add: uint_word_of_int)
  moreover have "y div 256 * 256 \<le> y" by presburger
  ultimately show ?case
    using Suc.prems by (simp add: offtin_digits_append div_256 LONG_MIN_def)
qed simp

lemma offtout_top: "0 \<le> y \<Longrightarrow> y \<le> LONG_MAX \<Longrightarrow> offtout_digits 8 y = offtout_digits 7 y @ [0]"
  using offtout_digits_snoc [of 7 y] by (simp add: LONG_MAX_def)

lemma offtin_offtout:
  assumes "\<bar>x\<bar> \<le> LONG_MAX"
  shows "offtin (offtout x @ rest) = Some x"
proof -
  let ?y = "if x < 0 then - x else x"
  have y: "0 \<le> ?y" "?y \<le> LONG_MAX" using assms by auto
  then have d: "offtin_digits 0 (rev (offtout_digits 7 ?y)) = Some ?y"
    by (intro offtin_offtout_digits) (auto simp: LONG_MAX_def)
  have e: "offtout x = offtout_digits 7 ?y @ [if x < 0 then 0x80 else 0]"
    using offtout_top [OF y] by (auto simp: offtout_def Let_def list_update_append nth_append)
  show ?thesis
    using d assms by (auto simp: offtin_def e slice_def nth_append LONG_MIN_def LONG_MAX_def split: if_splits)
qed

interpretation off8: fixed_codec offtout offtin 8 "\<lambda>x. \<bar>x\<bar> \<le> LONG_MAX"
proof
  show "length (offtout v) = 8" for v by (simp add: offtout_def Let_def)
  show "\<bar>v\<bar> \<le> LONG_MAX \<Longrightarrow> offtin (offtout v @ rest) = Some v" for v rest by (rule offtin_offtout)
  show "length bs < 8 \<Longrightarrow> offtin bs = None" for bs by (simp add: offtin_def slice_def)
qed
section \<open>The meaning of a patch\<close>

text \<open>
  What libbzip2 documents of a decompression stream that still holds the bytes \<open>bs\<close> (\<open>holds z bs\<close>):
  a request produces at least one and at most as many bytes as asked for, in order, and reports
  \<open>BZ_OK\<close> or \<open>BZ_STREAM_END\<close>, as long as bytes are left.
\<close>

definition bz_delivers :: "'z bzlib \<Rightarrow> ('z \<Rightarrow> byte list \<Rightarrow> bool) \<Rightarrow> bool" where
  "bz_delivers bz holds \<longleftrightarrow>
     (\<forall>z bs n. holds z bs \<and> 0 < n \<and> bs \<noteq> [] \<longrightarrow>
        (case BZ2_bzDecompress bz z n of (bzerr, got, z') \<Rightarrow>
           (bzerr = BZ_OK \<or> bzerr = BZ_STREAM_END) \<and> got \<noteq> [] \<and> length got \<le> n \<and>
           (\<exists>rest. bs = got @ rest \<and> holds z' rest)))"

lemma FillBuffer_delivers:
  assumes "bz_delivers bz holds" "holds z bs" "n \<le> length bs"
  shows "\<exists>z'. FillBuffer bz z n = Some (0, take n bs, z') \<and> holds z' (drop n bs)"
  using assms(2,3)
proof (induction n arbitrary: z bs rule: less_induct)
  case (less n)
  show ?case
  proof (cases "n = 0")
    case True
    then show ?thesis using less.prems by (subst FillBuffer.simps) simp
  next
    case False
    obtain err got z1 where d: "BZ2_bzDecompress bz z n = (err, got, z1)" by (metis prod.exhaust)
    have "holds z bs \<and> 0 < n \<and> bs \<noteq> []" using less.prems False by auto
    then have "case BZ2_bzDecompress bz z n of (err, got, z') \<Rightarrow>
        (err = BZ_OK \<or> err = BZ_STREAM_END) \<and> got \<noteq> [] \<and> length got \<le> n \<and> (\<exists>rest. bs = got @ rest \<and> holds z' rest)"
      by (rule assms(1) [unfolded bz_delivers_def, THEN spec, THEN spec, THEN spec, THEN mp])
    then obtain rest where r: "err = BZ_OK \<or> err = BZ_STREAM_END" "got \<noteq> []" "length got \<le> n"
        "bs = got @ rest" "holds z1 rest" by (auto simp: d)
    have "n - length got < n" "n - length got \<le> length rest"
      using r False less.prems(2) length_greater_0_conv [of got] by auto
    from less.IH [OF this(1) r(5) this(2)] obtain z' where
      "FillBuffer bz z1 (n - length got) = Some (0, take (n - length got) rest, z')"
      "holds z' (drop (n - length got) rest)" by blast
    moreover have "take n bs = got @ take (n - length got) rest" "drop n bs = drop (n - length got) rest"
      using r(3,4) by auto
    ultimately show ?thesis using r(1,3) False by (subst FillBuffer.simps) (auto simp: d)
  qed
qed

text \<open>The bytes the diff block \<open>ds\<close> stands for at position \<open>pos\<close> of the old file.\<close>

fun old_plus :: "byte list \<Rightarrow> int \<Rightarrow> byte list \<Rightarrow> byte list" where
  "old_plus old pos [] = []"
| "old_plus old pos (d # ds) =
     (if 0 \<le> pos \<and> pos < int (length old) then d + old ! nat pos else d) # old_plus old (pos + 1) ds"

text \<open>
  The reference: control triples \<open>(x, y, z)\<close> mean "add \<open>x\<close> bytes from the old file to \<open>x\<close> bytes
  from the diff block; copy \<open>y\<close> bytes from the extra block; seek forwards in the old file by \<open>z\<close>".
\<close>

fun bs_patched :: "byte list \<Rightarrow> int \<Rightarrow> (nat \<times> nat \<times> int) list \<Rightarrow> byte list \<Rightarrow> byte list \<Rightarrow> byte list" where
  "bs_patched old pos [] ds es = []"
| "bs_patched old pos ((x, y, z) # cs) ds es =
     old_plus old pos (take x ds) @ take y es @ bs_patched old (pos + int x + z) cs (drop x ds) (drop y es)"

text \<open>Triples whose blocks are present, that make progress and keep the old position in range.\<close>

fun triples_ok :: "int \<Rightarrow> (nat \<times> nat \<times> int) list \<Rightarrow> nat \<Rightarrow> nat \<Rightarrow> bool" where
  "triples_ok pos [] nd ne \<longleftrightarrow> True"
| "triples_ok pos ((x, y, z) # cs) nd ne \<longleftrightarrow>
     x \<le> nd \<and> y \<le> ne \<and> 0 < x + y \<and> \<bar>z\<bar> \<le> LONG_MAX \<and> LONG_MIN \<le> pos \<and> pos + int x \<le> LONG_MAX \<and>
     LONG_MIN \<le> pos + int x + z \<and> pos + int x + z \<le> LONG_MAX \<and>
     triples_ok (pos + int x + z) cs (nd - x) (ne - y)"

definition enc_triple :: "nat \<times> nat \<times> int \<Rightarrow> byte list" where
  "enc_triple t = (case t of (x, y, z) \<Rightarrow> offtout (int x) @ offtout (int y) @ offtout z)"

lemma length_old_plus [simp]: "length (old_plus old pos ds) = length ds"
  by (induction old pos ds rule: old_plus.induct) auto

lemma add_old_plus:
  assumes "LONG_MIN \<le> pos" "pos + int (length ds) \<le> LONG_MAX"
  shows "add_old old (int (length old)) pos ds = Some (old_plus old pos ds)"
  using assms by (induction ds arbitrary: pos) (auto simp: rd_def nat_less_iff)

fun triples_size :: "(nat \<times> nat \<times> int) list \<Rightarrow> nat" where
  "triples_size [] = 0"
| "triples_size ((x, y, z) # cs) = x + y + triples_size cs"

lemma bspatch_step:
  assumes "int (length new_data) < n" "FillBuffer bz cz 24 = Some (0, buf, cz')"
    and "offtin buf = Some ca" "offtin (drop 8 buf) = Some cb" "offtin (drop 16 buf) = Some cc"
    and "\<not> (ca < 0 \<or> cb < 0)" "c_int (int (length new_data) + ca) = Some ea" "\<not> ea > n"
    and "FillBuffer bz dz (nat ca) = Some (0, diff, dz')" "add_old old sz pos diff = Some added"
    and "c_int (pos + ca) = Some pa" "c_int (int (length (new_data @ added)) + cb) = Some eb" "\<not> eb > n"
    and "FillBuffer bz ez (nat cb) = Some (0, extra, ez')" "c_int (pa + cc) = Some pb"
  shows "bspatch_loop bz old sz n cz dz ez pos new_data =
    bspatch_loop bz old sz n cz' dz' ez' pb ((new_data @ added) @ extra)"
  by (subst bspatch_loop.simps) (simp only: assms bind.bind_lunit prod.case Let_def if_True if_False simp_thms)

lemma bspatch_loop_correct:
  assumes bz: "bz_delivers bz holds"
    and "holds cz (concat (map enc_triple cs))" "holds dz ds" "holds ez es"
    and "triples_ok pos cs (length ds) (length es)"
    and "length new_data + triples_size cs = n" "int n \<le> LONG_MAX"
  shows "bspatch_loop bz old (int (length old)) (int n) cz dz ez pos new_data =
    Some (0, new_data @ bs_patched old pos cs ds es)"
  using assms(2-6)
proof (induction cs arbitrary: cz dz ez ds es pos new_data)
  case Nil
  then show ?case by (subst bspatch_loop.simps) simp
next
  case (Cons c cs)
  obtain x y z where c: "c = (x, y, z)" by (metis prod.exhaust)
  have ok: "x \<le> length ds" "y \<le> length es" "0 < x + y" "\<bar>z\<bar> \<le> LONG_MAX" "LONG_MIN \<le> pos"
      "pos + int x \<le> LONG_MAX" "LONG_MIN \<le> pos + int x + z" "pos + int x + z \<le> LONG_MAX"
      "triples_ok (pos + int x + z) cs (length (drop x ds)) (length (drop y es))"
    using Cons.prems(4) by (auto simp: c)
  have n: "length new_data + (x + y) + triples_size cs = n" using Cons.prems(5) by (simp add: c)
  have xy: "int x \<le> LONG_MAX" "int y \<le> LONG_MAX" "int (length new_data) + int x \<le> int n"
    "int (length new_data) + int x + int y \<le> int n"
    using n assms(7) by auto
  let ?buf = "enc_triple c"
  have len: "length ?buf = 24" by (simp add: enc_triple_def c off8.enc_length)
  have buf: "offtin ?buf = Some (int x)" "offtin (drop 8 ?buf) = Some (int y)" "offtin (drop 16 ?buf) = Some z"
    using off8.dec_enc [of "int x"] off8.dec_field [of "int y" "offtout (int x)" 8]
      off8.dec_field [of z "offtout (int x) @ offtout (int y)" 16 "[]"] xy ok(4)
    by (simp_all add: enc_triple_def c off8.enc_length)
  obtain cz' where cz': "FillBuffer bz cz 24 = Some (0, ?buf, cz')" "holds cz' (concat (map enc_triple cs))"
    using FillBuffer_delivers [OF bz Cons.prems(1), of 24] len by auto
  obtain dz' where dz': "FillBuffer bz dz x = Some (0, take x ds, dz')" "holds dz' (drop x ds)"
    using FillBuffer_delivers [OF bz Cons.prems(2) ok(1)] by auto
  obtain ez' where ez': "FillBuffer bz ez y = Some (0, take y es, ez')" "holds ez' (drop y es)"
    using FillBuffer_delivers [OF bz Cons.prems(3) ok(2)] by auto
  have add: "add_old old (int (length old)) pos (take x ds) = Some (old_plus old pos (take x ds))"
    using ok by (intro add_old_plus) auto
  let ?new = "(new_data @ old_plus old pos (take x ds)) @ take y es"
  have lt: "int (length new_data) < int n" using n ok(3) by linarith
  have "bspatch_loop bz old (int (length old)) (int n) cz dz ez pos new_data =
      bspatch_loop bz old (int (length old)) (int n) cz' dz' ez' (pos + int x + z) ?new"
    by (rule bspatch_step [OF lt cz'(1) buf, where ea = "int (length new_data) + int x" and
          eb = "int (length new_data) + int x + int y" and pa = "pos + int x"])
      (use dz'(1) ez'(1) add ok xy assms(7) in \<open>simp_all add: LONG_MIN_def\<close>)
  also have "\<dots> = Some (0, ?new @ bs_patched old (pos + int x + z) cs (drop x ds) (drop y es))"
    using cz'(2) dz'(2) ez'(2) ok n by (intro Cons.IH) auto
  finally show ?case by (simp add: c)
qed

section \<open>Outcomes for arbitrary input\<close>

lemma FillBuffer_length: "FillBuffer bz z n = Some (0, bs, z') \<Longrightarrow> length bs = n"
proof -
  have "fst y = 0 \<longrightarrow> length (fst (snd y)) = n" if "FillBuffer bz z n = Some y" for y
  proof (induction rule: FillBuffer.raw_induct [OF _ that])
    case (1 rec bz z n y)
    obtain err got z1 where d: "BZ2_bzDecompress bz z n = (err, got, z1)" by (metis prod.exhaust)
    show ?case
    proof (cases "0 < n \<and> length got \<le> n \<and> (err = BZ_OK \<or> err = BZ_STREAM_END)")
      case True
      then obtain r rest z2 where "rec bz z1 (n - length got) = Some (r, rest, z2)" "y = (r, got @ rest, z2)"
        using 1(2) d by (auto split: bind_splits)
      then show ?thesis using 1(1) True by fastforce
    qed (use 1(2) d in \<open>auto split: if_splits\<close>)
  qed
  then show "FillBuffer bz z n = Some (0, bs, z') \<Longrightarrow> length bs = n" by fastforce
qed

lemma add_old_length: "add_old old sz pos ds = Some bs \<Longrightarrow> length bs = length ds"
  by (induction ds arbitrary: pos bs) (auto split: bind_splits if_splits)

lemma bspatch_loop_outcome:
  assumes "bspatch_loop bz old sz n cz dz ez pos new_data = Some (r, res)" "int (length new_data) \<le> n"
  shows "(r = 0 \<or> r = 1) \<and> (r = 0 \<longrightarrow> int (length res) = n)"
proof -
  have "int (length new_data) \<le> n \<longrightarrow> (fst y = 0 \<or> fst y = 1) \<and> (fst y = 0 \<longrightarrow> int (length (snd y)) = n)"
    if "bspatch_loop bz old sz n cz dz ez pos new_data = Some y" for y
  proof (induction rule: bspatch_loop.raw_induct [OF _ that])
    case (1 rec bz old sz n cz dz ez pos new_data y)
    show ?case
    proof (cases "int (length new_data) < n")
      case False
      then show ?thesis using 1(2) by auto
    next
      case True
      then show ?thesis
        using 1(2)
        by (auto simp: c_int_Some Let_def split: bind_splits if_splits
            dest!: FillBuffer_length add_old_length 1(1))
    qed
  qed
  from this [OF assms(1)] assms(2) show ?thesis by simp
qed

lemma offtin_digits_range:
  "offtin_digits y bs = Some v \<Longrightarrow> LONG_MIN \<le> y \<Longrightarrow> y \<le> LONG_MAX \<Longrightarrow> LONG_MIN \<le> v \<and> v \<le> LONG_MAX"
  by (induction bs arbitrary: y) (auto simp: c_int_Some split: bind_splits)

lemma offtin_range: "offtin bs = Some v \<Longrightarrow> LONG_MIN \<le> v \<and> v \<le> LONG_MAX"
proof -
  have lt: "uint (b AND 0x7F :: byte) < 256" for b using unsigned_less [of "b AND 0x7F :: byte"] by simp
  have "LONG_MIN \<le> uint (b AND 0x7F :: byte) \<and> uint (b AND 0x7F :: byte) \<le> LONG_MAX" for b
    using lt [of b] uint_ge_0 [of "b AND 0x7F"] unfolding LONG_MIN_def LONG_MAX_def by linarith
  then show "offtin bs = Some v \<Longrightarrow> LONG_MIN \<le> v \<and> v \<le> LONG_MAX"
    by (auto simp: offtin_def c_int_Some dest!: offtin_digits_range split: bind_splits if_splits)
qed

lemma bspatch_length:
  assumes "ApplyBSDiffPatchMem bz malloc old sz patch off = Some (0, d)"
  shows "int (length d) \<le> LONG_MAX"
  using assms
  by (auto simp: ApplyBSDiffPatchMem_def Let_def dest!: bspatch_loop_outcome offtin_range split: if_splits bind_splits)

section \<open>Properties\<close>

lemma slice_mid: "length pre = k \<Longrightarrow> slice (pre @ xs @ post) k (length xs) = Some xs"
  by (auto simp: slice_def)

definition bsdiff_file :: "byte list \<Rightarrow> byte list \<Rightarrow> int \<Rightarrow> byte list \<Rightarrow> byte list" where
  "bsdiff_file c d n e =
     bytes_of ''BSDIFF40'' @ offtout (int (length c)) @ offtout (int (length d)) @ offtout n @ c @ d @ e"

lemma bspatch_format_correct:
  assumes "bz_delivers bz holds"
    and "holds (snd (BZ2_bzDecompressInit bz c)) (concat (map enc_triple cs))"
    and "holds (snd (BZ2_bzDecompressInit bz d)) ds" "holds (snd (BZ2_bzDecompressInit bz e)) es"
    and "triples_ok 0 cs (length ds) (length es)" "triples_size cs = n" "malloc (int n)"
    and "int n \<le> LONG_MAX" "int (length c) \<le> LONG_MAX" "int (length d) \<le> LONG_MAX"
    and "vbytes patch = pre @ bsdiff_file c d (int n) e" "vsize patch = int (length (vbytes patch))"
  shows "ApplyBSDiffPatchMem bz malloc old (int (length old)) patch (int (length pre)) =
    Some (0, bs_patched old 0 cs ds es)"
proof -
  let ?k = "length pre" and ?v = "vbytes patch" and ?m = "bytes_of ''BSDIFF40''"
  let ?c = "offtout (int (length c))" and ?d = "offtout (int (length d))" and ?n = "offtout (int n)"
  have v: "?v = pre @ ?m @ ?c @ ?d @ ?n @ c @ d @ e" using assms(11) by (simp add: bsdiff_file_def)
  have m: "length ?m = 8" by (simp add: bytes_of_def)
  note l = off8.enc_length
  have hdr: "slice ?v ?k 8 = Some ?m" using slice_mid [of pre ?k ?m] m by (simp add: v)
  have nums: "offtin (drop (?k + 8) ?v) = Some (int (length c))" "offtin (drop (?k + 16) ?v) = Some (int (length d))"
      "offtin (drop (?k + 24) ?v) = Some (int n)"
    using off8.dec_field [of "int (length c)" "pre @ ?m" "?k + 8" "?d @ ?n @ c @ d @ e"]
      off8.dec_field [of "int (length d)" "pre @ ?m @ ?c" "?k + 16" "?n @ c @ d @ e"]
      off8.dec_field [of "int n" "pre @ ?m @ ?c @ ?d" "?k + 24" "c @ d @ e"] assms(8-10) m
    by (simp_all add: v l)
  have blocks: "slice ?v (?k + 32) (length c) = Some c" "slice ?v (?k + 32 + length c) (length d) = Some d"
      "slice ?v (?k + 32 + length c + length d) (length e) = Some e"
    using slice_mid [of "pre @ ?m @ ?c @ ?d @ ?n" "?k + 32" c "d @ e"]
      slice_mid [of "pre @ ?m @ ?c @ ?d @ ?n @ c" "?k + 32 + length c" d e]
      slice_mid [of "pre @ ?m @ ?c @ ?d @ ?n @ c @ d" "?k + 32 + length c + length d" e "[]"] m
    by (simp_all add: v l)
  have av: "vsize patch - (int ?k + 32 + int (length c) + int (length d)) = int (length e)"
    unfolding assms(12) v by (simp add: l m)
  have "bspatch_loop bz old (int (length old)) (int n) (snd (BZ2_bzDecompressInit bz c))
      (snd (BZ2_bzDecompressInit bz d)) (snd (BZ2_bzDecompressInit bz e)) 0 [] =
      Some (0, [] @ bs_patched old 0 cs ds es)"
    by (rule bspatch_loop_correct [OF assms(1-5)]) (use assms(6,8) in simp_all)
  then show ?thesis
    using assms(7) by (simp add: ApplyBSDiffPatchMem_def Let_def hdr nums blocks av)
qed

text \<open>
  C12. A patch in the format that the decoder's comment describes, at any offset of a patch
  value, is applied exactly as that comment says: the control triples, the diff bytes and the
  extra bytes that the three compressed blocks hold give the new file byte for byte, and the
  decoder returns it with status 0.
\<close>

theorem bspatch_applies_format:
  assumes "bz_delivers bz holds"
    and "holds (snd (BZ2_bzDecompressInit bz c)) (concat (map enc_triple cs))"
    and "holds (snd (BZ2_bzDecompressInit bz d)) ds" "holds (snd (BZ2_bzDecompressInit bz e)) es"
    and "triples_ok 0 cs (length ds) (length es)" "triples_size cs = n" "malloc (int n)"
    and "int n \<le> LONG_MAX" "int (length c) \<le> LONG_MAX" "int (length d) \<le> LONG_MAX"
    and "vbytes patch = pre @ bsdiff_file c d (int n) e" "vsize patch = int (length (vbytes patch))"
  shows "ApplyBSDiffPatchMem bz malloc old (int (length old)) patch (int (length pre)) =
    Some (0, bs_patched old 0 cs ds es)"
  using assms by (rule bspatch_format_correct)

definition demo_bz :: "byte list bzlib" where
  "demo_bz = \<lparr>BZ2_bzDecompressInit = (\<lambda>z. (BZ_OK, z)),
              BZ2_bzDecompress = (\<lambda>z n. (BZ_OK, take n z, drop n z))\<rparr>"

definition blob :: "byte list \<Rightarrow> Value" where
  "blob bs = \<lparr>vtype = VAL_BLOB, vsize = int (length bs), vdata = map (\<lambda>b. char_of (unat b)) bs\<rparr>"

lemma vbytes_blob [simp]: "vbytes (blob bs) = bs"
proof -
  have "unat b < 2 ^ LENGTH(8)" for b :: byte by (rule unsigned_less)
  then have "unat b mod 256 = unat b" for b :: byte by simp
  then show ?thesis by (simp add: vbytes_def blob_def comp_def)
qed

lemma vsize_blob [simp]: "vsize (blob bs) = int (length bs)"
  by (simp add: blob_def)

lemma demo_bz_delivers: "bz_delivers demo_bz (=)"
  by (auto simp: bz_delivers_def demo_bz_def)

theorem bspatch_applies_format_witness:
  "ApplyBSDiffPatchMem demo_bz (\<lambda>_. True) [10, 20, 30] 3
     (blob ([9] @ bsdiff_file (enc_triple (2, 1, -1)) [1, 2] 3 [7])) 1 = Some (0, [11, 22, 7])"
  using bspatch_applies_format [OF demo_bz_delivers, where c = "enc_triple (2, 1, -1)" and d = "[1, 2]" and e = "[7]"
      and cs = "[(2, 1, -1)]" and ds = "[1, 2]" and es = "[7]" and n = 3 and malloc = "\<lambda>_. True"
      and pre = "[9]" and patch = "blob ([9] @ bsdiff_file (enc_triple (2, 1, -1)) [1, 2] 3 [7])"
      and old = "[10, 20, 30]"]
  by (simp add: demo_bz_def LONG_MAX_def LONG_MIN_def enc_triple_def off8.enc_length)

text \<open>
  C13. For every patch, every decompressor and every old file: the decoder reports 0 or 1, and
  with status 0 the new data is exactly as long as the patch header announces.
\<close>

theorem bspatch_output_size:
  assumes "ApplyBSDiffPatchMem bz malloc old sz patch off = Some (r, new)"
  shows "(r = 0 \<or> r = 1) \<and>
    (r = 0 \<longrightarrow> offtin (drop (nat off + 24) (vbytes patch)) = Some (int (length new)))"
  using assms
  by (auto simp: ApplyBSDiffPatchMem_def Let_def dest!: bspatch_loop_outcome split: if_splits bind_splits)

text \<open>One control triple with two diff bytes and one extra byte is applied.\<close>

theorem bspatch_output_size_witness:
  "ApplyBSDiffPatchMem demo_bz (\<lambda>_. True) [10, 20, 30] 3
     (blob ([9] @ bsdiff_file (enc_triple (2, 1, -1)) [1, 2] 3 [7])) 1 = Some (0, [11, 22, 7]) \<and>
   offtin (drop 25 (vbytes (blob ([9] @ bsdiff_file (enc_triple (2, 1, -1)) [1, 2] 3 [7])))) = Some (int (length [11, 22, 7 :: byte]))"
proof -
  have a: "ApplyBSDiffPatchMem demo_bz (\<lambda>_. True) [10, 20, 30] 3
      (blob ([9] @ bsdiff_file (enc_triple (2, 1, -1)) [1, 2] 3 [7])) 1 = Some (0, [11, 22, 7])"
    using bspatch_format_correct [OF demo_bz_delivers, where c = "enc_triple (2, 1, -1)" and d = "[1, 2]" and e = "[7]"
        and cs = "[(2, 1, -1)]" and ds = "[1, 2]" and es = "[7]" and n = 3 and malloc = "\<lambda>_. True"
        and pre = "[9]" and patch = "blob ([9] @ bsdiff_file (enc_triple (2, 1, -1)) [1, 2] 3 [7])"
        and old = "[10, 20, 30]"]
    by (simp add: demo_bz_def LONG_MAX_def LONG_MIN_def enc_triple_def off8.enc_length)
  show ?thesis using a bspatch_output_size [OF a] by (simp del: vbytes_blob)
qed

end
