(* ===== verification/Os.thy ===== *)
theory Os
  imports Prelude
begin

text \<open>
  The operating system the programs call, as far as the C sources use it.

  The state \<open>os\<close> holds the files (path to inode), the raw flash devices behind
  \<open>/dev/mtd/mtdN\<close> and an oracle. Every system call that can fail or come up short asks the
  oracle once: a negative answer is a failure with that (negated) \<open>errno\<close>, another answer
  bounds the number of bytes transferred. Statements about the programs quantify over all
  oracles, so they hold whatever the system answers.

  A file descriptor is the open path and its offset; it is threaded explicitly. Programming a
  flash block may go wrong silently: \<open>noise\<close> maps the bytes written to the bytes stored.
  Directory listings, targets of links and other texts the system reports about a path are the
  oracle \<open>names\<close>, at each time: they can be anything, but the name of a directory entry is not empty
  and has no slash.
\<close>

section \<open>State\<close>

record inode =
  i_data :: "byte list"
  i_mode :: int
  i_uid :: int
  i_gid :: int

text \<open>\<open>fl_bad\<close> is the answer of \<open>MEMGETBADBLOCK\<close> for the block at an offset.\<close>

record flash =
  fl_data :: "byte list"
  fl_bad :: "nat \<Rightarrow> int"

record os =
  files :: "string \<rightharpoonup> inode"
  mtddev :: "int \<rightharpoonup> flash"
  orc :: "nat \<Rightarrow> int"
  noise :: "nat \<Rightarrow> byte list \<Rightarrow> byte list"
  names :: "nat \<Rightarrow> string \<Rightarrow> string list"
  clk :: nat

record fd =
  f_path :: string
  f_pos :: nat

abbreviation (input) S_IFREG :: int where "S_IFREG \<equiv> 32768"
abbreviation (input) ENOENT :: int where "ENOENT \<equiv> 2"
abbreviation (input) EINTR :: int where "EINTR \<equiv> 4"
abbreviation (input) EOPNOTSUPP :: int where "EOPNOTSUPP \<equiv> 95"

definition ask :: "os \<Rightarrow> int \<times> os" where
  "ask w = (orc w (clk w), w\<lparr>clk := clk w + 1\<rparr>)"

section \<open>Files\<close>

definition overwrite :: "byte list \<Rightarrow> nat \<Rightarrow> byte list \<Rightarrow> byte list" where
  "overwrite d pos bs = take pos d @ replicate (pos - length d) 0 @ bs @ drop (pos + length bs) d"

definition sys_open :: "bool \<Rightarrow> bool \<Rightarrow> int \<Rightarrow> string \<Rightarrow> os \<Rightarrow> fd option \<times> os" where
  "sys_open creat trunc mode path w =
     (let (v, w) = ask w
      in if v < 0 then (None, w)
         else case files w path of
             None \<Rightarrow> if creat
                     then (Some \<lparr>f_path = path, f_pos = 0\<rparr>,
                           w\<lparr>files := (files w)(path \<mapsto> \<lparr>i_data = [], i_mode = S_IFREG + mode, i_uid = 0, i_gid = 0\<rparr>)\<rparr>)
                     else (None, w)
           | Some ino \<Rightarrow>
               (Some \<lparr>f_path = path, f_pos = 0\<rparr>,
                if trunc then w\<lparr>files := (files w)(path \<mapsto> ino\<lparr>i_data := []\<rparr>)\<rparr> else w))"

definition sys_write :: "fd \<Rightarrow> byte list \<Rightarrow> os \<Rightarrow> int \<times> fd \<times> os" where
  "sys_write f bs w =
     (let (v, w) = ask w
      in if v < 0 then (v, f, w)
         else let n = min (nat v) (length bs)
              in (int n, f\<lparr>f_pos := f_pos f + n\<rparr>,
                  case files w (f_path f) of
                    None \<Rightarrow> w
                  | Some ino \<Rightarrow>
                      w\<lparr>files := (files w)(f_path f \<mapsto>
                          ino\<lparr>i_data := overwrite (i_data ino) (f_pos f) (take n bs)\<rparr>)\<rparr>))"

definition file_data :: "os \<Rightarrow> string \<Rightarrow> byte list" where
  "file_data w path = (case files w path of None \<Rightarrow> [] | Some ino \<Rightarrow> i_data ino)"

definition sys_read :: "fd \<Rightarrow> nat \<Rightarrow> os \<Rightarrow> (int \<times> byte list) \<times> fd \<times> os" where
  "sys_read f n w =
     (let (v, w) = ask w
      in if v < 0 then ((v, []), f, w)
         else let bs = take (min (nat v) n) (drop (f_pos f) (file_data w (f_path f)))
              in ((int (length bs), bs), f\<lparr>f_pos := f_pos f + length bs\<rparr>, w))"

text \<open>\<open>fread\<close> returns the number of bytes read, which is less on an error.\<close>

definition sys_fread :: "fd \<Rightarrow> nat \<Rightarrow> os \<Rightarrow> byte list \<times> fd \<times> os" where
  "sys_fread f n w = (let ((_, bs), f, w) = sys_read f n w in (bs, f, w))"

definition sys_lseek :: "fd \<Rightarrow> nat \<Rightarrow> fd" where
  "sys_lseek f pos = f\<lparr>f_pos := pos\<rparr>"

definition sys_stat :: "string \<Rightarrow> os \<Rightarrow> (int + inode) \<times> os" where
  "sys_stat path w =
     (let (v, w) = ask w
      in (if v < 0 then Inl v else case files w path of None \<Rightarrow> Inl (- ENOENT) | Some ino \<Rightarrow> Inr ino, w))"

text \<open>Calls with a status only: \<open>close\<close>, \<open>fsync\<close>.\<close>

definition sys_status :: "os \<Rightarrow> int \<times> os" where
  "sys_status w = (let (v, w) = ask w in (if v < 0 then -1 else 0, w))"

definition sys_modify :: "(inode \<Rightarrow> inode) \<Rightarrow> string \<Rightarrow> os \<Rightarrow> int \<times> os" where
  "sys_modify g path w =
     (let (v, w) = ask w
      in case files w path of
           None \<Rightarrow> (-1, w)
         | Some ino \<Rightarrow> if v < 0 then (-1, w) else (0, w\<lparr>files := (files w)(path \<mapsto> g ino)\<rparr>))"

definition sys_chmod :: "string \<Rightarrow> int \<Rightarrow> os \<Rightarrow> int \<times> os" where
  "sys_chmod path mode = sys_modify (\<lambda>ino. ino\<lparr>i_mode := i_mode ino div 4096 * 4096 + mode mod 4096\<rparr>) path"

definition sys_chown :: "string \<Rightarrow> int \<Rightarrow> int \<Rightarrow> os \<Rightarrow> int \<times> os" where
  "sys_chown path uid gid = sys_modify (\<lambda>ino. ino\<lparr>i_uid := uid, i_gid := gid\<rparr>) path"

definition sys_unlink :: "string \<Rightarrow> os \<Rightarrow> int \<times> os" where
  "sys_unlink path w =
     (let (v, w) = ask w
      in if v < 0 \<or> files w path = None then (-1, w) else (0, w\<lparr>files := (files w)(path := None)\<rparr>))"

definition sys_rename :: "string \<Rightarrow> string \<Rightarrow> os \<Rightarrow> int \<times> os" where
  "sys_rename old new w =
     (let (v, w) = ask w
      in case files w old of
           None \<Rightarrow> (-1, w)
         | Some ino \<Rightarrow> if v < 0 then (-1, w)
                       else (0, w\<lparr>files := (files w)(old := None, new \<mapsto> ino)\<rparr>))"

definition S_ISREG :: "int \<Rightarrow> bool" where
  "S_ISREG mode \<longleftrightarrow> mode div 4096 mod 16 = 8"

section \<open>File systems and directories\<close>

text \<open>Block size and free blocks of the file system that holds a path.\<close>

definition sys_statfs :: "string \<Rightarrow> os \<Rightarrow> (u32 \<times> u64) option \<times> os" where
  "sys_statfs path w =
     (let (v, w) = ask w; (bsize, w) = ask w; (bfree, w) = ask w
      in (if v < 0 then None else Some (word_of_int bsize, word_of_int bfree), w))"

definition dir_entries :: "os \<Rightarrow> nat \<Rightarrow> string \<Rightarrow> string list" where
  "dir_entries w k path = filter (\<lambda>n. n \<noteq> [] \<and> CHR ''/'' \<notin> set n) (names w k path)"

definition sys_listdir :: "string \<Rightarrow> os \<Rightarrow> string list option \<times> os" where
  "sys_listdir path w = (let ns = dir_entries w (clk w) path; (v, w) = ask w in (if v < 0 then None else Some ns, w))"

definition sys_readlink :: "string \<Rightarrow> os \<Rightarrow> string option \<times> os" where
  "sys_readlink path w =
     (let ns = names w (clk w) path; (v, w) = ask w
      in (if v < 0 \<or> ns = [] then None else Some (hd ns), w))"

section \<open>Flash devices\<close>

definition flash_store :: "os \<Rightarrow> int \<Rightarrow> nat \<Rightarrow> byte list \<Rightarrow> os" where
  "flash_store w dev pos bs =
     (case mtddev w dev of
        None \<Rightarrow> w
      | Some fl \<Rightarrow> (case blit (fl_data fl) pos bs of
            None \<Rightarrow> w
          | Some d \<Rightarrow> w\<lparr>mtddev := (mtddev w)(dev \<mapsto> fl\<lparr>fl_data := d\<rparr>)\<rparr>))"

definition flash_bytes :: "os \<Rightarrow> int \<Rightarrow> byte list" where
  "flash_bytes w dev = (case mtddev w dev of None \<Rightarrow> [] | Some fl \<Rightarrow> fl_data fl)"

definition flash_bad :: "os \<Rightarrow> int \<Rightarrow> nat \<Rightarrow> int" where
  "flash_bad w dev pos = (case mtddev w dev of None \<Rightarrow> -1 | Some fl \<Rightarrow> fl_bad fl pos)"

definition ioctl_MEMERASE :: "int \<Rightarrow> nat \<Rightarrow> nat \<Rightarrow> os \<Rightarrow> int \<times> os" where
  "ioctl_MEMERASE dev start len w =
     (let (v, w) = ask w
      in if v < 0 then (v, w) else (0, flash_store w dev start (replicate len 0xFF)))"

definition stored_as :: "os \<Rightarrow> byte list \<Rightarrow> byte list" where
  "stored_as w bs = (let s = noise w (clk w) bs in if length s = length bs then s else bs)"

definition flash_write :: "int \<Rightarrow> nat \<Rightarrow> byte list \<Rightarrow> os \<Rightarrow> int \<times> os" where
  "flash_write dev pos bs w =
     (let (v, w) = ask w
      in if v < 0 then (v, w)
         else let bs = take (min (nat v) (length (flash_bytes w dev) - pos)) bs
              in (int (length bs), flash_store w dev pos (stored_as w bs)))"

definition flash_read :: "int \<Rightarrow> nat \<Rightarrow> nat \<Rightarrow> os \<Rightarrow> (int \<times> byte list) \<times> os" where
  "flash_read dev pos n w =
     (let (v, w) = ask w
      in if v < 0 then ((v, []), w)
         else let bs = take (min (nat v) n) (drop pos (flash_bytes w dev)) in ((int (length bs), bs), w))"

text \<open>Every call succeeds and transfers as much as it is asked to.\<close>

definition calls_succeed :: "os \<Rightarrow> bool" where
  "calls_succeed w \<longleftrightarrow> (\<forall>k. orc w k \<ge> LONG_MAX)"

section \<open>Facts\<close>

lemma ask_state [simp]:
  "files (snd (ask w)) = files w" "mtddev (snd (ask w)) = mtddev w" "orc (snd (ask w)) = orc w"
  "noise (snd (ask w)) = noise w" "names (snd (ask w)) = names w"
  by (simp_all add: ask_def)

lemma overwrite_end: "pos = length d \<Longrightarrow> overwrite d pos bs = d @ bs"
  by (simp add: overwrite_def)

lemma length_stored_as [simp]: "length (stored_as w bs) = length bs"
  by (simp add: stored_as_def Let_def)

end
