(* ===== verification/Sinks.thy ===== *)
theory Sinks
  imports Bspatch Os
begin

text \<open>
  The two sinks that a patch is written to, \<open>FileSink\<close> and \<open>MemorySink\<close> of
  \<open>applypatch/applypatch.c\<close>, and the contract the patch decoders rely on.

  The token of \<open>FileSink\<close> is the open file with the system, that of \<open>MemorySink\<close> its
  \<open>MemorySinkInfo\<close>. The locale \<open>patch_sink\<close> is the contract: a sink that reports the full length
  has appended the data. \<open>exact_patch_sink\<close> adds that a sink that reports anything else has not
  written at all; \<open>MemorySink\<close> is one, \<open>FileSink\<close> only when the system never comes up short.
\<close>

section \<open>The sinks\<close>

lemma sys_write_range: "sys_write f bs w = (n, f', w') \<Longrightarrow> n \<le> int (length bs)"
  by (auto simp: sys_write_def Let_def split: prod.splits if_splits)

function file_sink_loop :: "fd \<Rightarrow> byte list \<Rightarrow> os \<Rightarrow> nat \<times> fd \<times> os" where
  "file_sink_loop f data w =
     (if data = [] then (0, f, w)
      else let (wrote, f, w) = sys_write f data w
           in if wrote \<le> 0 then (0, f, w)
              else let (n, f, w) = file_sink_loop f (drop (nat wrote) data) w
                   in (nat wrote + n, f, w))"
  by pat_completeness auto
termination
  by (relation "measure (\<lambda>(f, data, w). length data)") (auto dest!: sys_write_range [OF sym])

declare file_sink_loop.simps [simp del]

definition FileSink :: "(fd \<times> os) sink" where
  "FileSink = (\<lambda>(f, w) data. let (n, f, w) = file_sink_loop f data w in Some ((f, w), int n))"

record MemorySinkInfo =
  msi_buffer :: "byte list"
  msi_size :: int
  msi_pos :: int

definition MemorySink :: "MemorySinkInfo sink" where
  "MemorySink msi data =
     (if msi_size msi - msi_pos msi < int (length data) then Some (msi, -1)
      else do {
        buf \<leftarrow> (if msi_pos msi < 0 then None else blit (msi_buffer msi) (nat (msi_pos msi)) data);
        Some (msi\<lparr>msi_buffer := buf, msi_pos := msi_pos msi + int (length data)\<rparr>, int (length data))
      })"

section \<open>The contract\<close>

text \<open>
  The documented behaviour of the SHA-1 library: updating in pieces is updating at once, and
  \<open>SHA_hash\<close> is init, update, final.
\<close>

definition sha_streams :: "'c shalib \<Rightarrow> bool" where
  "sha_streams sha \<longleftrightarrow>
     (\<forall>c a b. SHA_update sha (SHA_update sha c a) b = SHA_update sha c (a @ b)) \<and>
     (\<forall>d. SHA_hash sha d = SHA_final sha (SHA_update sha (SHA_init sha) d)) \<and>
     (\<forall>c. SHA_update sha c [] = c)"

text \<open>The context \<open>c\<close> has seen the bytes \<open>bs\<close>.\<close>

definition hashed :: "'c shalib \<Rightarrow> 'c \<Rightarrow> byte list \<Rightarrow> bool" where
  "hashed sha c bs \<longleftrightarrow> c = SHA_update sha (SHA_init sha) bs"

lemma hashed_init: "sha_streams sha \<Longrightarrow> hashed sha (SHA_init sha) []"
  by (simp add: hashed_def sha_streams_def)

lemma hashed_update: "sha_streams sha \<Longrightarrow> hashed sha c bs \<Longrightarrow> hashed sha (SHA_update sha c d) (bs @ d)"
  by (simp add: hashed_def sha_streams_def)

lemma hashed_final: "sha_streams sha \<Longrightarrow> hashed sha c bs \<Longrightarrow> SHA_final sha c = SHA_hash sha bs"
  by (simp add: hashed_def sha_streams_def)

text \<open>Whatever every call of a sink preserves is preserved by a decoder.\<close>

definition sink_keeps :: "'t sink \<Rightarrow> ('t \<Rightarrow> bool) \<Rightarrow> bool" where
  "sink_keeps snk P \<longleftrightarrow> (\<forall>t bs t' n. P t \<longrightarrow> snk t bs = Some (t', n) \<longrightarrow> P t')"

lemma sink_keepsD: "sink_keeps snk P \<Longrightarrow> snk t bs = Some (t', n) \<Longrightarrow> P t \<Longrightarrow> P t'"
  by (auto simp: sink_keeps_def)

lemma bsdiff_keeps:
  "sink_keeps snk P \<Longrightarrow> ApplyBSDiffPatch bz malloc sha old sz patch off snk t ctx = Some (r, t', ctx') \<Longrightarrow> P t \<Longrightarrow> P t'"
  using sink_keepsD [of snk P t] by (fastforce simp: ApplyBSDiffPatch_def split: bind_splits if_splits)

locale patch_sink =
  fixes snk :: "'t sink"
    and written :: "'t \<Rightarrow> byte list"
    and ok :: "'t \<Rightarrow> bool"
  assumes total: "ok t \<Longrightarrow> \<exists>t' n. snk t bs = Some (t', n)"
    and keeps: "ok t \<Longrightarrow> snk t bs = Some (t', n) \<Longrightarrow> ok t'"
    and count: "ok t \<Longrightarrow> snk t bs = Some (t', n) \<Longrightarrow> n \<le> int (length bs)"
    and accepted: "ok t \<Longrightarrow> snk t bs = Some (t', int (length bs)) \<Longrightarrow> written t' = written t @ bs"
begin

lemma sink_keeps_ok: "sink_keeps snk ok"
  by (auto simp: sink_keeps_def dest: keeps)

lemma bsdiff_writes:
  assumes "ok t" "ApplyBSDiffPatch bz malloc sha old sz patch off snk t ctx = Some (r, t', ctx')"
  shows "(r = 0 \<longrightarrow> (\<exists>d. ApplyBSDiffPatchMem bz malloc old sz patch off = Some (0, d) \<and>
      written t' = written t @ d \<and> ctx' = map_option (\<lambda>c. SHA_update sha c d) ctx)) \<and>
    (r \<noteq> 0 \<longrightarrow> ctx' = ctx)"
proof -
  obtain s d where m: "ApplyBSDiffPatchMem bz malloc old sz patch off = Some (s, d)"
    using assms(2) by (auto simp: ApplyBSDiffPatch_def split: bind_splits)
  show ?thesis
  proof (cases "s = 0")
    case True
    obtain t1 n where s: "snk t d = Some (t1, n)" using total [OF assms(1)] by blast
    show ?thesis
    proof (cases "n < int (length d)")
      case False
      then have "n = int (length d)" using count [OF assms(1) s] by simp
      then show ?thesis using accepted [OF assms(1), of d t1] assms(2) m s True
        by (simp add: ApplyBSDiffPatch_def)
    qed (use assms(2) m s True in \<open>simp add: ApplyBSDiffPatch_def\<close>)
  qed (use assms(2) m in \<open>simp add: ApplyBSDiffPatch_def\<close>)
qed

end

locale exact_patch_sink = patch_sink +
  assumes rejected: "ok t \<Longrightarrow> snk t bs = Some (t', n) \<Longrightarrow> int (length bs) \<le> LONG_MAX \<Longrightarrow>
    n \<noteq> int (length bs) \<Longrightarrow> written t' = written t"
begin

lemma bsdiff_exact:
  assumes "ok t" "ApplyBSDiffPatch bz malloc sha old sz patch off snk t (Some c) = Some (r, t', ctx')"
    and "sha_streams sha" "hashed sha c (written t)"
  shows "\<exists>c'. ctx' = Some c' \<and> hashed sha c' (written t')"
proof (cases "r = 0")
  case True
  then show ?thesis
    using bsdiff_writes [OF assms(1,2)] hashed_update [OF assms(3,4)] by auto
next
  case False
  obtain s d where m: "ApplyBSDiffPatchMem bz malloc old sz patch off = Some (s, d)"
    using assms(2) by (auto simp: ApplyBSDiffPatch_def split: bind_splits)
  have "written t' = written t"
  proof (cases "s = 0")
    case True
    obtain t1 n where s: "snk t d = Some (t1, n)" using total [OF assms(1)] by blast
    have "n < int (length d)" "t' = t1" using assms(2) m s True False
      by (auto simp: ApplyBSDiffPatch_def split: if_splits)
    then show ?thesis using rejected [OF assms(1) s] bspatch_length m True by blast
  qed (use assms(2) m False in \<open>auto simp: ApplyBSDiffPatch_def split: if_splits\<close>)
  then show ?thesis using bsdiff_writes [OF assms(1,2)] False assms(4) by auto
qed

end

section \<open>The sinks keep it\<close>

lemma file_data_files: "files w = files w' \<Longrightarrow> file_data w = file_data w'"
  by (auto simp: file_data_def)

definition file_ok :: "fd \<times> os \<Rightarrow> bool" where
  "file_ok = (\<lambda>(f, w). files w (f_path f) \<noteq> None \<and> f_pos f = length (file_data w (f_path f)))"

definition file_written :: "fd \<times> os \<Rightarrow> byte list" where
  "file_written = (\<lambda>(f, w). file_data w (f_path f))"

text \<open>One write appends what it reports to the file and touches nothing else.\<close>

lemma sys_write_end:
  assumes "files w (f_path f) = Some ino" "f_pos f = length (i_data ino)" "sys_write f bs w = (n, f', w')"
  shows "f_path f' = f_path f \<and> orc w' = orc w \<and> mtddev w' = mtddev w \<and> n = max n 0 + min n 0 \<and>
    f_pos f' = f_pos f + nat n \<and>
    files w' = (files w)(f_path f \<mapsto> ino\<lparr>i_data := i_data ino @ take (nat n) bs\<rparr>)"
  using assms
  by (auto simp: sys_write_def Let_def overwrite_end ask_def fun_upd_idem split: prod.splits if_splits)

lemma file_sink_loop_end:
  assumes "files w (f_path f) = Some ino" "f_pos f = length (i_data ino)" "file_sink_loop f data w = (n, f', w')"
  shows "f_path f' = f_path f \<and> orc w' = orc w \<and> mtddev w' = mtddev w \<and> n \<le> length data \<and>
    f_pos f' = f_pos f + n \<and>
    files w' = (files w)(f_path f \<mapsto> ino\<lparr>i_data := i_data ino @ take n data\<rparr>)"
  using assms
proof (induction f data w arbitrary: ino n f' w' rule: file_sink_loop.induct)
  case (1 f data w)
  show ?case
  proof (cases "data = []")
    case True
    then show ?thesis using "1.prems" by (auto simp: file_sink_loop.simps fun_upd_idem)
  next
    case False
    obtain k f1 w1 where k: "sys_write f data w = (k, f1, w1)" by (metis prod.exhaust)
    note s = sys_write_end [OF "1.prems"(1,2) k] sys_write_range [OF k]
    show ?thesis
    proof (cases "k \<le> 0")
      case True
      then have "n = 0" "f' = f1" "w' = w1" using "1.prems"(3) False k
        by (simp_all add: file_sink_loop.simps [of f data])
      then show ?thesis using s True "1.prems" by (simp add: fun_upd_idem)
    next
      case k0: False
      obtain m f2 w2 where m: "file_sink_loop f1 (drop (nat k) data) w1 = (m, f2, w2)" by (metis prod.exhaust)
      then have n: "n = nat k + m" "f' = f2" "w' = w2" using "1.prems"(3) False k k0
        by (simp_all add: file_sink_loop.simps [of f data])
      have "f_path f2 = f_path f1 \<and> orc w2 = orc w1 \<and> mtddev w2 = mtddev w1 \<and> m \<le> length (drop (nat k) data) \<and>
          f_pos f2 = f_pos f1 + m \<and> files w2 = (files w1)(f_path f1 \<mapsto>
            (ino\<lparr>i_data := i_data ino @ take (nat k) data\<rparr>)\<lparr>i_data := (i_data ino @ take (nat k) data) @ take m (drop (nat k) data)\<rparr>)"
        using "1.IH" [OF False k [symmetric] refl refl k0, of "ino\<lparr>i_data := i_data ino @ take (nat k) data\<rparr>" m f2 w2] s m k0 "1.prems"(2)
        by (simp add: fun_eq_iff)
      then show ?thesis using n s k0 by (auto simp: take_add)
    qed
  qed
qed

interpretation file_sink: patch_sink FileSink file_written file_ok
proof
  fix t :: "fd \<times> os" and bs t' n
  assume ok: "file_ok t"
  obtain f w where t: "t = (f, w)" by (metis prod.exhaust)
  obtain ino where ino: "files w (f_path f) = Some ino" "f_pos f = length (i_data ino)"
    using ok by (auto simp: t file_ok_def file_data_def)
  obtain k f1 w1 where k: "file_sink_loop f bs w = (k, f1, w1)" by (metis prod.exhaust)
  note e = file_sink_loop_end [OF ino k]
  show "\<exists>t' n. FileSink t bs = Some (t', n)" using k by (simp add: t FileSink_def)
  show "file_ok t'" if "FileSink t bs = Some (t', n)"
    using that k e by (auto simp: t FileSink_def file_ok_def file_data_def ino)
  show "n \<le> int (length bs)" if "FileSink t bs = Some (t', n)" using that k e by (auto simp: t FileSink_def)
  show "file_written t' = file_written t @ bs" if "FileSink t bs = Some (t', int (length bs))"
    using that k e ino by (auto simp: t FileSink_def file_written_def file_data_def)
qed

text \<open>A system whose calls either fail or transfer everything.\<close>

definition whole_transfers :: "os \<Rightarrow> bool" where
  "whole_transfers w \<longleftrightarrow> (\<forall>k. orc w k < 0 \<or> orc w k \<ge> LONG_MAX)"

lemma whole_write:
  assumes "whole_transfers w" "int (length bs) \<le> LONG_MAX" "sys_write f bs w = (n, f', w')"
  shows "n < 0 \<or> n = int (length bs)"
proof (cases "orc w (clk w) < 0")
  case False
  then have "orc w (clk w) \<ge> LONG_MAX" using assms(1) unfolding whole_transfers_def by (metis not_le)
  then have "length bs \<le> nat (orc w (clk w))" using assms(2) by linarith
  then show ?thesis using assms(3) False by (auto simp: sys_write_def ask_def Let_def min_absorb2)
qed (use assms(3) in \<open>auto simp: sys_write_def ask_def\<close>)

definition whole_ok :: "fd \<times> os \<Rightarrow> bool" where
  "whole_ok t \<longleftrightarrow> file_ok t \<and> whole_transfers (snd t)"

lemma file_sink_whole:
  assumes "whole_transfers w" "int (length data) \<le> LONG_MAX" "file_sink_loop f data w = (n, f', w')"
  shows "n = 0 \<or> n = length data"
proof (cases "data = []")
  case False
  obtain k f1 w1 where k: "sys_write f data w = (k, f1, w1)" by (metis prod.exhaust)
  from whole_write [OF assms(1,2) k] show ?thesis
  proof
    assume "k = int (length data)"
    then show ?thesis using assms(3) False k
      by (auto simp: file_sink_loop.simps [of f data] file_sink_loop.simps [of f1 "[]"] split: prod.splits if_splits)
  qed (use assms(3) False k in \<open>simp add: file_sink_loop.simps [of f data]\<close>)
qed (use assms(3) in \<open>simp add: file_sink_loop.simps\<close>)

interpretation file_whole: exact_patch_sink FileSink file_written whole_ok
proof
  fix t :: "fd \<times> os" and bs t' n
  assume ok: "whole_ok t"
  then have fok: "file_ok t" by (simp add: whole_ok_def)
  show "\<exists>t' n. FileSink t bs = Some (t', n)" by (rule file_sink.total [OF fok])
  show "n \<le> int (length bs)" if "FileSink t bs = Some (t', n)" by (rule file_sink.count [OF fok that])
  show "file_written t' = file_written t @ bs" if "FileSink t bs = Some (t', int (length bs))"
    by (rule file_sink.accepted [OF fok that])
  obtain f w where t: "t = (f, w)" by (metis prod.exhaust)
  obtain ino where ino: "files w (f_path f) = Some ino" "f_pos f = length (i_data ino)"
    using fok by (auto simp: t file_ok_def file_data_def)
  obtain k f1 w1 where k: "file_sink_loop f bs w = (k, f1, w1)" by (metis prod.exhaust)
  note e = file_sink_loop_end [OF ino k]
  show "whole_ok t'" if "FileSink t bs = Some (t', n)"
    using that k e ok file_sink.keeps [OF fok that] by (auto simp: t FileSink_def whole_ok_def whole_transfers_def)
  show "file_written t' = file_written t"
    if "FileSink t bs = Some (t', n)" "int (length bs) \<le> LONG_MAX" "n \<noteq> int (length bs)"
    using that k e ino ok file_sink_whole [OF _ that(2) k]
    by (auto simp: t FileSink_def file_written_def file_data_def whole_ok_def)
qed

definition memory_ok :: "MemorySinkInfo \<Rightarrow> bool" where
  "memory_ok msi \<longleftrightarrow> 0 \<le> msi_pos msi \<and> msi_pos msi \<le> msi_size msi \<and> msi_size msi = int (length (msi_buffer msi))"

definition memory_written :: "MemorySinkInfo \<Rightarrow> byte list" where
  "memory_written msi = take (nat (msi_pos msi)) (msi_buffer msi)"

interpretation memory: exact_patch_sink MemorySink memory_written memory_ok
  by unfold_locales
     (auto simp: MemorySink_def memory_ok_def memory_written_def blit_def nat_add_distrib split: if_splits)

end
