(* ===== verification/Imgpatch.thy ===== *)
theory Imgpatch
  imports Sinks
begin

text \<open>
  The image patch decoder, \<open>applypatch/imgpatch.c\<close>.

  zlib is not part of the sources: it is the parameter \<open>zl\<close>. \<open>inflate\<close> is the one call that is
  made on a stream (the compressed bytes and the room for the result give the return code and
  the bytes produced); \<open>deflate\<close> is called on a stream state until it reports the end. \<open>size_t\<close>
  and \<open>ssize_t\<close> are 32 bits wide, so that the 64-bit fields of a chunk header are cut off.
  \<open>None\<close> is undefined behaviour or a loop that does not end.
\<close>

section \<open>Model\<close>

record 'd zlib =
  inflateInit2 :: "int \<Rightarrow> int"
  inflate :: "byte list \<Rightarrow> nat \<Rightarrow> int \<times> byte list"
  deflateInit2 :: "int \<Rightarrow> int \<Rightarrow> int \<Rightarrow> int \<Rightarrow> int \<Rightarrow> byte list \<Rightarrow> 'd"
  deflate :: "'d \<Rightarrow> nat \<Rightarrow> int \<times> byte list \<times> 'd"

abbreviation (input) Z_OK :: int where "Z_OK \<equiv> 0"
abbreviation (input) Z_STREAM_END :: int where "Z_STREAM_END \<equiv> 1"

abbreviation (input) CHUNK_NORMAL :: int where "CHUNK_NORMAL \<equiv> 0"
abbreviation (input) CHUNK_DEFLATE :: int where "CHUNK_DEFLATE \<equiv> 2"
abbreviation (input) CHUNK_RAW :: int where "CHUNK_RAW \<equiv> 3"

text \<open>Everything the decoder gets from outside besides the patch.\<close>

record ('z, 'd, 'c) libs =
  l_bz :: "'z bzlib"
  l_zl :: "'d zlib"
  l_sha :: "'c shalib"
  l_malloc :: "int \<Rightarrow> bool"

text \<open>A \<open>size_t\<close> and an \<open>int\<close> field of a chunk header.\<close>

definition field8 :: "byte list \<Rightarrow> nat \<Rightarrow> u32 option" where
  "field8 hdr off = map_option ucast (Read8 (drop off hdr))"

definition field4 :: "byte list \<Rightarrow> nat \<Rightarrow> int option" where
  "field4 hdr off = map_option sint (Read4 (drop off hdr))"

text \<open>
  The outcome of a chunk: \<open>Inl\<close> is a \<open>return -1\<close>, with the token; \<open>Inr\<close> has the position, the
  token and the SHA context to go on with.
\<close>

type_synonym ('t, 'c) chunk_result = "('t + int \<times> 't \<times> 'c) option"

definition normal_chunk ::
  "('z, 'd, 'c) libs \<Rightarrow> byte list \<Rightarrow> Value \<Rightarrow> 't sink \<Rightarrow> int \<Rightarrow> 't \<Rightarrow> 'c \<Rightarrow> ('t, 'c) chunk_result" where
  "normal_chunk L old_data patch sink pos token ctx = do {
     let normal_header = drop (nat pos) (vbytes patch);
     pos \<leftarrow> c_int (pos + 24);
     if pos > vsize patch then Some (Inl token)
     else do {
       src_start \<leftarrow> field8 normal_header 0;
       src_len \<leftarrow> field8 normal_header 8;
       patch_offset \<leftarrow> field8 normal_header 16;
       if unat src_start > length old_data then None
       else do {
         (_, token, ctx) \<leftarrow> ApplyBSDiffPatch (l_bz L) (l_malloc L) (l_sha L) (drop (unat src_start) old_data)
           (sint src_len) patch (sint patch_offset) sink token (Some ctx);
         ctx \<leftarrow> ctx;
         Some (Inr (pos, token, ctx))
       }
     }
   }"

definition raw_chunk ::
  "('z, 'd, 'c) libs \<Rightarrow> Value \<Rightarrow> 't sink \<Rightarrow> int \<Rightarrow> 't \<Rightarrow> 'c \<Rightarrow> ('t, 'c) chunk_result" where
  "raw_chunk L patch sink pos token ctx = do {
     let raw_header = drop (nat pos) (vbytes patch);
     pos \<leftarrow> c_int (pos + 4);
     if pos > vsize patch then Some (Inl token)
     else do {
       data_len \<leftarrow> field4 raw_header 0;
       end_pos \<leftarrow> c_int (pos + data_len);
       if end_pos > vsize patch then Some (Inl token)
       else if data_len < 0 then None
       else do {
         data \<leftarrow> slice (vbytes patch) (nat pos) (nat data_len);
         let ctx = SHA_update (l_sha L) ctx data;
         (token, n) \<leftarrow> sink token data;
         if n \<noteq> data_len then Some (Inl token) else Some (Inr (end_pos, token, ctx))
       }
     }
   }"

text \<open>The compressed target data goes to the sink in pieces of at most \<open>temp_size\<close> bytes.\<close>

partial_function (option) deflate_loop ::
  "('z, 'd, 'c) libs \<Rightarrow> 't sink \<Rightarrow> nat \<Rightarrow> 'd \<Rightarrow> 't \<Rightarrow> 'c \<Rightarrow> ('t + 't \<times> 'c) option" where
  [code]: "deflate_loop L sink temp_size strm token ctx =
     (let (ret, temp_data, strm) = deflate (l_zl L) strm temp_size
      in if length temp_data > temp_size then None
         else do {
           (token, n) \<leftarrow> sink token temp_data;
           if n \<noteq> int (length temp_data) then Some (Inl token)
           else let ctx = SHA_update (l_sha L) ctx temp_data
                in if ret \<noteq> Z_STREAM_END then deflate_loop L sink temp_size strm token ctx
                   else Some (Inr (token, ctx))
         })"

record deflate_header =
  src_start :: u32
  src_len :: u32
  patch_offset :: u32
  expanded_len :: u32
  target_len :: u32
  level :: int
  z_method :: int
  windowBits :: int
  memLevel :: int
  strategy :: int

definition read_deflate_header :: "byte list \<Rightarrow> deflate_header option" where
  "read_deflate_header hdr = do {
     ss \<leftarrow> field8 hdr 0;
     sl \<leftarrow> field8 hdr 8;
     po \<leftarrow> field8 hdr 16;
     el \<leftarrow> field8 hdr 24;
     tl \<leftarrow> field8 hdr 32;
     le \<leftarrow> field4 hdr 40;
     me \<leftarrow> field4 hdr 44;
     wb \<leftarrow> field4 hdr 48;
     ml \<leftarrow> field4 hdr 52;
     st \<leftarrow> field4 hdr 56;
     Some \<lparr>src_start = ss, src_len = sl, patch_offset = po, expanded_len = el, target_len = tl,
           level = le, z_method = me, windowBits = wb, memLevel = ml, strategy = st\<rparr>
   }"

text \<open>The inflated source with the bonus data behind it; \<open>Some None\<close> is a \<open>return -1\<close>.\<close>

definition expanded_source ::
  "('z, 'd, 'c) libs \<Rightarrow> byte list \<Rightarrow> Value option \<Rightarrow> nat \<Rightarrow> deflate_header \<Rightarrow> byte list option option" where
  "expanded_source L old_data bonus_data i h = do {
     bonus \<leftarrow> (case bonus_data of
         Some v \<Rightarrow> if i \<noteq> 1 then Some [] else if vsize v < 0 then None else slice (vbytes v) 0 (nat (vsize v))
       | None \<Rightarrow> Some []);
     if \<not> l_malloc L (uint (expanded_len h)) then Some None
     else do {
       src \<leftarrow> slice old_data (unat (src_start h)) (unat (src_len h));
       if inflateInit2 (l_zl L) (-15) \<noteq> Z_OK then Some None
       else
         let (ret, expanded) = inflate (l_zl L) src (unat (expanded_len h))
         in if length expanded > unat (expanded_len h) then None
            else if ret \<noteq> Z_STREAM_END then Some None
            else if unat (expanded_len h) - length expanded \<noteq> length bonus then Some None
            else Some (Some (expanded @ bonus))
     }
   }"

definition deflate_chunk ::
  "('z, 'd, 'c) libs \<Rightarrow> byte list \<Rightarrow> Value \<Rightarrow> 't sink \<Rightarrow> Value option \<Rightarrow> nat \<Rightarrow> int \<Rightarrow> 't \<Rightarrow> 'c \<Rightarrow>
   ('t, 'c) chunk_result" where
  "deflate_chunk L old_data patch sink bonus_data i pos token ctx = do {
     let deflate_header = drop (nat pos) (vbytes patch);
     pos \<leftarrow> c_int (pos + 60);
     if pos > vsize patch then Some (Inl token)
     else do {
       h \<leftarrow> read_deflate_header deflate_header;
       src \<leftarrow> expanded_source L old_data bonus_data i h;
       (case src of
          None \<Rightarrow> Some (Inl token)
        | Some source \<Rightarrow> do {
            (r, uncompressed_target_data) \<leftarrow>
              ApplyBSDiffPatchMem (l_bz L) (l_malloc L) source (sint (expanded_len h)) patch (sint (patch_offset h));
            if r \<noteq> 0 then Some (Inl token)
            else if sint (expanded_len h) < 32768 \<and> \<not> l_malloc L 32768 then None
            else do {
              r \<leftarrow> deflate_loop L sink (nat (max 32768 (sint (expanded_len h))))
                (deflateInit2 (l_zl L) (level h) (z_method h) (windowBits h) (memLevel h) (strategy h)
                   uncompressed_target_data) token ctx;
              Some (map_sum (\<lambda>t. t) (\<lambda>(t, c). (pos, t, c)) r)
            }
          })
     }
   }"

definition one_chunk ::
  "('z, 'd, 'c) libs \<Rightarrow> byte list \<Rightarrow> Value \<Rightarrow> 't sink \<Rightarrow> Value option \<Rightarrow> nat \<Rightarrow> int \<Rightarrow> 't \<Rightarrow> 'c \<Rightarrow>
   ('t, 'c) chunk_result" where
  "one_chunk L old_data patch sink bonus_data i pos token ctx = do {
     p4 \<leftarrow> c_int (pos + 4);
     if p4 > vsize patch then Some (Inl token)
     else do {
       type \<leftarrow> field4 (vbytes patch) (nat pos);
       if type = CHUNK_NORMAL then normal_chunk L old_data patch sink p4 token ctx
       else if type = CHUNK_RAW then raw_chunk L patch sink p4 token ctx
       else if type = CHUNK_DEFLATE then deflate_chunk L old_data patch sink bonus_data i p4 token ctx
       else Some (Inl token)
     }
   }"

fun chunk_loop ::
  "('z, 'd, 'c) libs \<Rightarrow> byte list \<Rightarrow> Value \<Rightarrow> 't sink \<Rightarrow> Value option \<Rightarrow> nat \<Rightarrow> nat \<Rightarrow> int \<Rightarrow> 't \<Rightarrow> 'c \<Rightarrow>
   (int \<times> 't \<times> 'c) option" where
  "chunk_loop L old_data patch sink bonus_data 0 i pos token ctx = Some (0, token, ctx)"
| "chunk_loop L old_data patch sink bonus_data (Suc n) i pos token ctx = do {
     r \<leftarrow> one_chunk L old_data patch sink bonus_data i pos token ctx;
     (case r of
        Inl token \<Rightarrow> Some (-1, token, ctx)
      | Inr (pos, token, ctx) \<Rightarrow> chunk_loop L old_data patch sink bonus_data n (Suc i) pos token ctx)
   }"

definition ApplyImagePatch ::
  "('z, 'd, 'c) libs \<Rightarrow> byte list \<Rightarrow> int \<Rightarrow> Value \<Rightarrow> 't sink \<Rightarrow> 't \<Rightarrow> 'c \<Rightarrow> Value option \<Rightarrow> (int \<times> 't \<times> 'c) option" where
  "ApplyImagePatch L old_data old_size patch sink token ctx bonus_data =
     (if vsize patch < 12 then Some (-1, token, ctx)
      else do {
        magic \<leftarrow> slice (vbytes patch) 0 8;
        if magic \<noteq> bytes_of ''IMGDIFF2'' then Some (-1, token, ctx)
        else do {
          num_chunks \<leftarrow> field4 (vbytes patch) 8;
          chunk_loop L old_data patch sink bonus_data (nat num_chunks) 0 12 token ctx
        }
      })"

section \<open>What a sink keeps\<close>

lemma deflate_loop_keeps:
  assumes "sink_keeps snk P" "deflate_loop L snk ts strm t c = Some res" "P t"
  shows "case res of Inl t' \<Rightarrow> P t' | Inr (t', c') \<Rightarrow> P t'"
proof -
  have "sink = snk \<longrightarrow> P t \<longrightarrow> (case y of Inl t' \<Rightarrow> P t' | Inr (t', c') \<Rightarrow> P t')"
    if "deflate_loop L sink ts strm t c = Some y" for sink y
  proof (induction rule: deflate_loop.raw_induct [OF _ that])
    case (1 rec L sink ts strm t c y)
    obtain ret d strm' where d: "deflate (l_zl L) strm ts = (ret, d, strm')" by (metis prod.exhaust)
    show ?case
    proof (intro impI)
      assume sk: "sink = snk" and P: "P t"
      obtain t1 n where s: "snk t d = Some (t1, n)" using 1(2) d by (auto simp: sk split: if_splits bind_splits)
      then have P1: "P t1" using sink_keepsD [OF assms(1) _ P] by blast
      show "case y of Inl t' \<Rightarrow> P t' | Inr (t', c') \<Rightarrow> P t'"
        using 1(1) [of L snk ts strm' t1 "SHA_update (l_sha L) c d" y] 1(2) d s P1
        by (auto simp: sk Let_def split: if_splits)
    qed
  qed
  from this [OF assms(2)] assms(3) show ?thesis by simp
qed

text \<open>What a chunk that ends in \<open>res\<close> has done with the sink and the hash.\<close>

inductive chunk_effect :: "('z, 'd, 'c) libs \<Rightarrow> Value \<Rightarrow> 't sink \<Rightarrow> 't \<Rightarrow> 'c \<Rightarrow> ('t + int \<times> 't \<times> 'c) \<Rightarrow> bool"
  for L patch snk t c where
  silent: "chunk_effect L patch snk t c (Inl t)"
| normal: "ApplyBSDiffPatch (l_bz L) (l_malloc L) (l_sha L) old sz patch off snk t (Some c) = Some (r, t', Some c') \<Longrightarrow>
    chunk_effect L patch snk t c (Inr (pos, t', c'))"
| raw: "snk t d = Some (t', int (length d)) \<Longrightarrow>
    chunk_effect L patch snk t c (Inr (pos, t', SHA_update (l_sha L) c d))"
| raw_failed: "snk t d = Some (t', n) \<Longrightarrow> n \<noteq> int (length d) \<Longrightarrow> chunk_effect L patch snk t c (Inl t')"
| deflate: "deflate_loop L snk ts strm t c = Some (Inr (t', c')) \<Longrightarrow> chunk_effect L patch snk t c (Inr (pos, t', c'))"
| deflate_failed: "deflate_loop L snk ts strm t c = Some (Inl t') \<Longrightarrow> chunk_effect L patch snk t c (Inl t')"

lemma normal_chunk_effect:
  "normal_chunk L old patch snk pos t c = Some res \<Longrightarrow> chunk_effect L patch snk t c res"
  by (auto simp: normal_chunk_def Let_def intro: chunk_effect.intros split: bind_splits if_splits)

lemma raw_chunk_effect:
  assumes "raw_chunk L patch snk pos t c = Some res"
  shows "chunk_effect L patch snk t c res"
proof -
  consider "res = Inl t"
    | pos' data_len d t' n where "slice (vbytes patch) pos' (nat data_len) = Some d" "\<not> data_len < 0" "snk t d = Some (t', n)"
      "n \<noteq> data_len \<and> res = Inl t' \<or> n = data_len \<and> (\<exists>e. res = Inr (e, t', SHA_update (l_sha L) c d))"
    using assms by (auto simp: raw_chunk_def Let_def split: bind_splits if_splits)
  then show ?thesis
  proof cases
    case 2
    then have "data_len = int (length d)" by (auto simp: slice_eq_Some)
    with 2 show ?thesis by (auto intro: chunk_effect.intros)
  qed (simp add: silent)
qed

lemma deflate_chunk_effect:
  assumes "deflate_chunk L old patch snk bonus i pos t c = Some res"
  shows "chunk_effect L patch snk t c res"
proof -
  consider "res = Inl t"
    | ts strm r e where "deflate_loop L snk ts strm t c = Some r" "res = map_sum (\<lambda>t. t) (\<lambda>(t, c). (e, t, c)) r"
    using assms by (auto simp: deflate_chunk_def Let_def split: bind_splits if_splits option.splits)
  then show ?thesis
    by cases (auto intro: chunk_effect.intros simp: map_sum_def split: sum.splits)
qed

lemma one_chunk_effect:
  "one_chunk L old patch snk bonus i pos t c = Some res \<Longrightarrow> chunk_effect L patch snk t c res"
  by (auto simp: one_chunk_def split: bind_splits if_splits
      intro: silent normal_chunk_effect raw_chunk_effect deflate_chunk_effect)

lemma chunk_effect_keeps:
  assumes "chunk_effect L patch snk t c res" "sink_keeps snk P" "P t"
  shows "case res of Inl t' \<Rightarrow> P t' | Inr (pos, t', c') \<Rightarrow> P t'"
  using assms(1)
proof cases
  case (normal old sz off r t' c' pos)
  then show ?thesis using bsdiff_keeps [OF assms(2) normal(2) assms(3)] by simp
next
  case (raw d t' pos)
  then show ?thesis using sink_keepsD [OF assms(2) raw(2) assms(3)] by simp
next
  case (raw_failed d t' n)
  then show ?thesis using sink_keepsD [OF assms(2) raw_failed(2) assms(3)] by simp
next
  case (deflate ts strm t' c' pos)
  then show ?thesis using deflate_loop_keeps [OF assms(2) deflate(2) assms(3)] by simp
next
  case (deflate_failed ts strm t')
  then show ?thesis using deflate_loop_keeps [OF assms(2) deflate_failed(2) assms(3)] by simp
qed (simp add: assms(3))

lemma chunk_loop_keeps:
  assumes "sink_keeps snk P"
  shows "chunk_loop L old patch snk bonus n i pos t c = Some (r, t', c') \<Longrightarrow> P t \<Longrightarrow> P t'"
proof (induction n arbitrary: i pos t c)
  case (Suc n)
  then obtain res where res: "one_chunk L old patch snk bonus i pos t c = Some res"
    by (auto split: bind_splits)
  from chunk_effect_keeps [OF one_chunk_effect [OF this] assms Suc.prems(2)] show ?case
    using Suc res by (cases res) auto
qed simp

lemma image_keeps:
  "sink_keeps snk P \<Longrightarrow> ApplyImagePatch L old sz patch snk t c bonus = Some (r, t', c') \<Longrightarrow> P t \<Longrightarrow> P t'"
  using chunk_loop_keeps [of snk P L] by (auto simp: ApplyImagePatch_def split: bind_splits if_splits)

section \<open>The hash follows the output\<close>

context exact_patch_sink
begin

definition in_step :: "'c shalib \<Rightarrow> 'a \<Rightarrow> 'c \<Rightarrow> bool" where
  "in_step sha t c \<longleftrightarrow> ok t \<and> hashed sha c (written t)"

lemma in_step_accept:
  "sha_streams sha \<Longrightarrow> in_step sha t c \<Longrightarrow> snk t d = Some (t', int (length d)) \<Longrightarrow> in_step sha t' (SHA_update sha c d)"
  by (auto simp: in_step_def keeps accepted hashed_update)

lemma deflate_loop_in_step:
  assumes "sha_streams (l_sha L)" "deflate_loop L snk ts strm t c = Some (Inr (t', c'))" "in_step (l_sha L) t c"
  shows "in_step (l_sha L) t' c'"
proof -
  have "sink = snk \<longrightarrow> sha_streams (l_sha L) \<longrightarrow> in_step (l_sha L) t c \<longrightarrow> (\<forall>t' c'. y = Inr (t', c') \<longrightarrow> in_step (l_sha L) t' c')"
    if "deflate_loop L sink ts strm t c = Some y" for sink y
  proof (induction rule: deflate_loop.raw_induct [OF _ that])
    case (1 rec L sink ts strm t c y)
    obtain ret d strm' where d: "deflate (l_zl L) strm ts = (ret, d, strm')" by (metis prod.exhaust)
    show ?case
    proof (intro impI allI)
      fix t' c'
      assume sk: "sink = snk" and sha: "sha_streams (l_sha L)" and P: "in_step (l_sha L) t c" and y: "y = Inr (t', c')"
      obtain t1 where s: "snk t d = Some (t1, int (length d))"
        using 1(2) d y by (auto simp: sk split: if_splits bind_splits)
      note P1 = in_step_accept [OF sha P s]
      show "in_step (l_sha L) t' c'"
        using 1(1) [of L snk ts strm' t1 "SHA_update (l_sha L) c d" y] 1(2) d s P1 y sha
        by (auto simp: sk Let_def split: if_splits)
    qed
  qed
  from this [OF assms(2)] assms(1,3) show ?thesis by simp
qed

lemma chunk_effect_in_step:
  assumes "chunk_effect L patch snk t c (Inr (pos, t', c'))" "sha_streams (l_sha L)" "in_step (l_sha L) t c"
  shows "in_step (l_sha L) t' c'"
  using assms(1)
proof cases
  case (normal old sz off r)
  then show ?thesis
    using bsdiff_exact [OF _ normal assms(2)] bsdiff_keeps [OF sink_keeps_ok normal] assms(3) by (auto simp: in_step_def)
next
  case (raw d)
  then show ?thesis using in_step_accept [OF assms(2,3) raw(2)] by simp
next
  case (deflate ts strm)
  then show ?thesis by (rule deflate_loop_in_step [OF assms(2) _ assms(3)])
qed

lemma chunk_loop_in_step:
  assumes "sha_streams (l_sha L)"
  shows "chunk_loop L old patch snk bonus n i pos t c = Some (0, t', c') \<Longrightarrow>
    in_step (l_sha L) t c \<Longrightarrow> in_step (l_sha L) t' c'"
proof (induction n arbitrary: i pos t c)
  case (Suc n)
  obtain pos1 t1 c1 where "one_chunk L old patch snk bonus i pos t c = Some (Inr (pos1, t1, c1))"
      "chunk_loop L old patch snk bonus n (Suc i) pos1 t1 c1 = Some (0, t', c')"
    using Suc.prems(1) by (auto split: bind_splits sum.splits)
  then show ?case
    using Suc.IH chunk_effect_in_step [OF one_chunk_effect assms Suc.prems(2)] by blast
qed simp

lemma image_in_step:
  "sha_streams (l_sha L) \<Longrightarrow> ApplyImagePatch L old sz patch snk t c bonus = Some (0, t', c') \<Longrightarrow>
   in_step (l_sha L) t c \<Longrightarrow> in_step (l_sha L) t' c'"
  by (auto simp: ApplyImagePatch_def dest: chunk_loop_in_step split: bind_splits if_splits)

end

section \<open>The format\<close>

text \<open>A chunk of an image patch as \<open>imgdiff\<close> describes it, and its header record with inline data.\<close>

datatype chunk = NormalChunk u32 u32 u32 | RawChunk "byte list" | DeflateChunk deflate_header

definition enc8 :: "u32 list \<Rightarrow> byte list" where
  "enc8 vs = concat (map (\<lambda>v. Write8 v []) (map ucast vs))"

definition enc4 :: "int list \<Rightarrow> byte list" where
  "enc4 vs = concat (map (\<lambda>v. Write4 v []) (map word_of_int vs))"

fun enc_chunk :: "chunk \<Rightarrow> byte list" where
  "enc_chunk (NormalChunk s l p) = Write4 0 [] @ enc8 [s, l, p]"
| "enc_chunk (RawChunk d) = Write4 3 [] @ Write4 (of_nat (length d)) [] @ d"
| "enc_chunk (DeflateChunk h) = Write4 2 [] @
     enc8 [src_start h, src_len h, patch_offset h, expanded_len h, target_len h] @
     enc4 [level h, z_method h, windowBits h, memLevel h, strategy h]"

definition image_patch :: "chunk list \<Rightarrow> byte list \<Rightarrow> byte list" where
  "image_patch cs rest = bytes_of ''IMGDIFF2'' @ Write4 (of_nat (length cs)) [] @ concat (map enc_chunk cs) @ rest"

text \<open>All the bytes a deflate stream produces until it reports its end.\<close>

inductive deflates :: "'d zlib \<Rightarrow> nat \<Rightarrow> 'd \<Rightarrow> byte list \<Rightarrow> bool" for zl ts where
  last: "deflate zl strm ts = (Z_STREAM_END, d, strm') \<Longrightarrow> length d \<le> ts \<Longrightarrow> deflates zl ts strm d"
| more: "deflate zl strm ts = (ret, d, strm') \<Longrightarrow> ret \<noteq> Z_STREAM_END \<Longrightarrow> length d \<le> ts \<Longrightarrow>
    deflates zl ts strm' ds \<Longrightarrow> deflates zl ts strm (d @ ds)"

definition c_ints :: "int list \<Rightarrow> bool" where
  "c_ints vs \<longleftrightarrow> list_all (\<lambda>v. LONG_MIN \<le> v \<and> v \<le> LONG_MAX) vs"

text \<open>
  The output of the chunk with number \<open>i\<close>: a normal chunk is the patched part of the old image, a
  raw chunk its data, and a deflate chunk is inflated, patched and deflated again.
\<close>

inductive chunk_output ::
  "('z, 'd, 'c) libs \<Rightarrow> byte list \<Rightarrow> Value \<Rightarrow> Value option \<Rightarrow> nat \<Rightarrow> chunk \<Rightarrow> byte list \<Rightarrow> bool"
  for L old patch bonus i where
  "unat s \<le> length old \<Longrightarrow>
   ApplyBSDiffPatchMem (l_bz L) (l_malloc L) (drop (unat s) old) (sint l) patch (sint p) = Some (0, d) \<Longrightarrow>
   chunk_output L old patch bonus i (NormalChunk s l p) d"
| "chunk_output L old patch bonus i (RawChunk d) d"
| "c_ints [level h, z_method h, windowBits h, memLevel h, strategy h] \<Longrightarrow>
   expanded_source L old bonus i h = Some (Some src) \<Longrightarrow>
   ApplyBSDiffPatchMem (l_bz L) (l_malloc L) src (sint (expanded_len h)) patch (sint (patch_offset h)) = Some (0, target) \<Longrightarrow>
   l_malloc L 32768 \<Longrightarrow>
   deflates (l_zl L) (nat (max 32768 (sint (expanded_len h))))
     (deflateInit2 (l_zl L) (level h) (z_method h) (windowBits h) (memLevel h) (strategy h) target) d \<Longrightarrow>
   chunk_output L old patch bonus i (DeflateChunk h) d"

inductive_cases normal_outputE: "chunk_output L old patch bonus i (NormalChunk s l p) d"
inductive_cases raw_outputE: "chunk_output L old patch bonus i (RawChunk d') d"
inductive_cases deflate_outputE: "chunk_output L old patch bonus i (DeflateChunk h) d"

fun outputs ::
  "('z, 'd, 'c) libs \<Rightarrow> byte list \<Rightarrow> Value \<Rightarrow> Value option \<Rightarrow> nat \<Rightarrow> chunk list \<Rightarrow> byte list list \<Rightarrow> bool" where
  "outputs L old patch bonus i [] ds \<longleftrightarrow> ds = []"
| "outputs L old patch bonus i (c # cs) [] \<longleftrightarrow> False"
| "outputs L old patch bonus i (c # cs) (d # ds) \<longleftrightarrow>
     chunk_output L old patch bonus i c d \<and> outputs L old patch bonus (Suc i) cs ds"

lemma ucast_up_down: "ucast (ucast (v :: u32) :: u64) = v"
  by (rule bit_word_eqI) (simp add: bit_simps)

lemma field8_enc8: "k < length vs \<Longrightarrow> field8 (enc8 vs @ rest) (8 * k) = Some (vs ! k)"
  using le8.dec_nth [of "map ucast vs" k rest] by (simp add: field8_def enc8_def ucast_up_down)

lemma length_enc8: "length (enc8 vs) = 8 * length vs"
  using le8.length_concat_enc [of "map ucast vs"] by (simp add: enc8_def)

lemma length_enc4: "length (enc4 vs) = 4 * length vs"
  using le4.length_concat_enc [of "map word_of_int vs"] by (simp add: enc4_def)

lemma sint_word_of_int: "LONG_MIN \<le> v \<Longrightarrow> v \<le> LONG_MAX \<Longrightarrow> sint (word_of_int v :: u32) = v"
  by (simp add: sint_sbintrunc' signed_take_bit_int_eq_self LONG_MIN_def LONG_MAX_def)

lemma field4_enc4: "c_ints vs \<Longrightarrow> k < length vs \<Longrightarrow> field4 (enc4 vs @ rest) (4 * k) = Some (vs ! k)"
  using le4.dec_nth [of "map word_of_int vs" k rest]
  by (simp add: field4_def enc4_def sint_word_of_int c_ints_def list_all_length)

lemma field4_skip: "length pre = n \<Longrightarrow> field4 (pre @ bs) (n + k) = field4 bs k"
  by (simp add: field4_def)

lemma read_deflate_header_enc:
  assumes "c_ints [level h, z_method h, windowBits h, memLevel h, strategy h]"
  shows "read_deflate_header (enc8 [src_start h, src_len h, patch_offset h, expanded_len h, target_len h] @
     enc4 [level h, z_method h, windowBits h, memLevel h, strategy h] @ rest) = Some h"
proof -
  let ?a = "[src_start h, src_len h, patch_offset h, expanded_len h, target_len h]"
  let ?b = "[level h, z_method h, windowBits h, memLevel h, strategy h]"
  have a: "field8 (enc8 ?a @ enc4 ?b @ rest) 0 = Some (src_start h)" "field8 (enc8 ?a @ enc4 ?b @ rest) 8 = Some (src_len h)"
    "field8 (enc8 ?a @ enc4 ?b @ rest) 16 = Some (patch_offset h)" "field8 (enc8 ?a @ enc4 ?b @ rest) 24 = Some (expanded_len h)"
    "field8 (enc8 ?a @ enc4 ?b @ rest) 32 = Some (target_len h)"
    using field8_enc8 [of 0 ?a "enc4 ?b @ rest"] field8_enc8 [of 1 ?a "enc4 ?b @ rest"] field8_enc8 [of 2 ?a "enc4 ?b @ rest"]
      field8_enc8 [of 3 ?a "enc4 ?b @ rest"] field8_enc8 [of 4 ?a "enc4 ?b @ rest"] by simp_all
  note l = length_enc8 [of ?a]
  have b: "field4 (enc8 ?a @ enc4 ?b @ rest) 40 = Some (level h)" "field4 (enc8 ?a @ enc4 ?b @ rest) 44 = Some (z_method h)"
    "field4 (enc8 ?a @ enc4 ?b @ rest) 48 = Some (windowBits h)" "field4 (enc8 ?a @ enc4 ?b @ rest) 52 = Some (memLevel h)"
    "field4 (enc8 ?a @ enc4 ?b @ rest) 56 = Some (strategy h)"
    using field4_skip [of "enc8 ?a" 40 "enc4 ?b @ rest" 0] field4_enc4 [OF assms, of 0 rest]
      field4_skip [of "enc8 ?a" 40 "enc4 ?b @ rest" 4] field4_enc4 [OF assms, of 1 rest]
      field4_skip [of "enc8 ?a" 40 "enc4 ?b @ rest" 8] field4_enc4 [OF assms, of 2 rest]
      field4_skip [of "enc8 ?a" 40 "enc4 ?b @ rest" 12] field4_enc4 [OF assms, of 3 rest]
      field4_skip [of "enc8 ?a" 40 "enc4 ?b @ rest" 16] field4_enc4 [OF assms, of 4 rest] l by simp_all
  show ?thesis unfolding read_deflate_header_def a b by simp
qed

text \<open>A memory sink with room for \<open>n\<close> more bytes.\<close>

definition room :: "MemorySinkInfo \<Rightarrow> nat \<Rightarrow> bool" where
  "room m n \<longleftrightarrow> memory_ok m \<and> msi_pos m + int n \<le> msi_size m"

lemma memory_accepts:
  assumes "room m (length d + k)"
  obtains m' where "MemorySink m d = Some (m', int (length d))" "room m' k" "memory_written m' = memory_written m @ d"
proof -
  have "nat (msi_pos m) + length d \<le> length (msi_buffer m)" using assms by (auto simp: room_def memory_ok_def)
  then obtain m' where m: "MemorySink m d = Some (m', int (length d))" "room m' k"
    using assms by (simp add: MemorySink_def room_def memory_ok_def blit_def)
  moreover have "memory_ok m" using assms by (simp add: room_def)
  ultimately show ?thesis using that memory.accepted by blast
qed

lemma deflate_loop_output:
  assumes "deflates (l_zl L) ts strm ds" "sha_streams (l_sha L)" "room m (length ds + k)"
  shows "\<exists>m'. deflate_loop L MemorySink ts strm m c = Some (Inr (m', SHA_update (l_sha L) c ds)) \<and>
    room m' k \<and> memory_written m' = memory_written m @ ds"
  using assms(1,3)
proof (induction arbitrary: m c)
  case (last strm d strm')
  from last(3) obtain m' where m: "MemorySink m d = Some (m', int (length d))" "room m' k" "memory_written m' = memory_written m @ d"
    by (rule memory_accepts)
  then show ?case using last by (subst deflate_loop.simps) simp
next
  case (more strm ret d strm' ds)
  from more.prems have "room m (length d + (length ds + k))" by (simp add: add.assoc)
  then obtain m1 where m: "MemorySink m d = Some (m1, int (length d))" "room m1 (length ds + k)"
      "memory_written m1 = memory_written m @ d"
    by (rule memory_accepts)
  obtain m' where "deflate_loop L MemorySink ts strm' m1 (SHA_update (l_sha L) c d) =
      Some (Inr (m', SHA_update (l_sha L) (SHA_update (l_sha L) c d) ds))" "room m' k"
      "memory_written m' = memory_written m1 @ ds"
    using more.IH [OF m(2)] by blast
  then show ?case
    using more(1-3) m assms(2) by (subst deflate_loop.simps) (simp add: sha_streams_def)
qed

lemma Write4_append_inj: "Write4 a [] @ x = Write4 b [] @ y \<longleftrightarrow> a = b \<and> x = y"
proof -
  have "length (Write4 a []) = length (Write4 b [])" by (simp add: le4.enc_length)
  then show ?thesis using le4.enc_inj [of a b] by auto
qed

lemma field4_at: "length pre = n \<Longrightarrow> field4 (pre @ Write4 v [] @ post) n = Some (sint v)"
  using le4.dec_field [of pre n v post] by (simp add: field4_def)

definition whole_value :: "Value \<Rightarrow> bool" where
  "whole_value v \<longleftrightarrow> vsize v = int (length (vbytes v)) \<and> vsize v \<le> LONG_MAX"

lemma pos_ok: "whole_value patch \<Longrightarrow> n \<le> length (vbytes patch) \<Longrightarrow> c_int (int n) = Some (int n) \<and> \<not> int n > vsize patch"
  by (auto simp: whole_value_def LONG_MIN_def)

lemma normal_chunk_output:
  assumes "chunk_output L old patch bonus i (NormalChunk s l p) d" "whole_value patch"
    and "vbytes patch = pre @ enc8 [s, l, p] @ post" "sha_streams (l_sha L)" "room m (length d + k)"
  shows "\<exists>m'. normal_chunk L old patch MemorySink (int (length pre)) m c =
      Some (Inr (int (length pre + 24), m', SHA_update (l_sha L) c d)) \<and>
    room m' k \<and> memory_written m' = memory_written m @ d"
proof -
  have mem: "unat s \<le> length old"
      "ApplyBSDiffPatchMem (l_bz L) (l_malloc L) (drop (unat s) old) (sint l) patch (sint p) = Some (0, d)"
    using assms(1) by (auto elim: normal_outputE)
  from assms(5) obtain m' where m: "MemorySink m d = Some (m', int (length d))" "room m' k"
      "memory_written m' = memory_written m @ d"
    by (rule memory_accepts)
  have f: "field8 (enc8 [s, l, p] @ post) 0 = Some s" "field8 (enc8 [s, l, p] @ post) 8 = Some l"
      "field8 (enc8 [s, l, p] @ post) 16 = Some p"
    using field8_enc8 [of 0 "[s, l, p]" post] field8_enc8 [of 1 "[s, l, p]" post] field8_enc8 [of 2 "[s, l, p]" post]
    by simp_all
  have pos: "c_int (int (length pre) + 24) = Some (int (length pre) + 24)" "\<not> int (length pre) + 24 > vsize patch"
    using pos_ok [OF assms(2), of "length pre + 24"] assms(3) length_enc8 [of "[s, l, p]"] by simp_all
  show ?thesis
    using mem m f pos assms(3) by (simp add: normal_chunk_def ApplyBSDiffPatch_def)
qed

lemma raw_chunk_output:
  assumes "whole_value patch" "vbytes patch = pre @ Write4 (of_nat (length d)) [] @ d @ post" "room m (length d + k)"
  shows "\<exists>m'. raw_chunk L patch MemorySink (int (length pre)) m c =
      Some (Inr (int (length pre + 4 + length d), m', SHA_update (l_sha L) c d)) \<and>
    room m' k \<and> memory_written m' = memory_written m @ d"
proof -
  from assms(3) obtain m' where m: "MemorySink m d = Some (m', int (length d))" "room m' k"
      "memory_written m' = memory_written m @ d"
    by (rule memory_accepts)
  have l: "length (Write4 (of_nat (length d)) []) = 4" by (rule le4.enc_length)
  have pos: "c_int (int (length pre) + 4) = Some (int (length pre) + 4)" "\<not> int (length pre) + 4 > vsize patch"
      "c_int (int (length pre) + 4 + int (length d)) = Some (int (length pre) + 4 + int (length d))"
      "\<not> int (length pre) + 4 + int (length d) > vsize patch" "int (length d) \<le> LONG_MAX"
    using pos_ok [OF assms(1), of "length pre + 4"] pos_ok [OF assms(1), of "length pre + 4 + length d"]
      assms(1,2) l by (simp_all add: whole_value_def)
  have "field4 (Write4 (of_nat (length d)) [] @ d @ post) 0 = Some (int (length d))"
    using field4_at [of "[]" 0 "of_nat (length d)" "d @ post"] pos(5) sint_word_of_int [of "int (length d)"]
    by (simp add: LONG_MIN_def)
  moreover have "slice (vbytes patch) (length pre + 4) (length d) = Some d"
    using slice_mid [of "pre @ Write4 (of_nat (length d)) []" "length pre + 4" d post] assms(2) l by simp
  ultimately show ?thesis
    using m pos assms(2) by (simp add: raw_chunk_def nat_add_distrib)
qed

lemma deflate_chunk_output:
  assumes "chunk_output L old patch bonus i (DeflateChunk h) d" "whole_value patch"
    and "vbytes patch = pre @ enc8 [src_start h, src_len h, patch_offset h, expanded_len h, target_len h] @
      enc4 [level h, z_method h, windowBits h, memLevel h, strategy h] @ post"
    and "sha_streams (l_sha L)" "room m (length d + k)"
  shows "\<exists>m'. deflate_chunk L old patch MemorySink bonus i (int (length pre)) m c =
      Some (Inr (int (length pre + 60), m', SHA_update (l_sha L) c d)) \<and>
    room m' k \<and> memory_written m' = memory_written m @ d"
  using assms(1)
proof (rule deflate_outputE)
  fix src target
  let ?strm = "deflateInit2 (l_zl L) (level h) (z_method h) (windowBits h) (memLevel h) (strategy h) target"
  assume ints: "c_ints [level h, z_method h, windowBits h, memLevel h, strategy h]"
    and src: "expanded_source L old bonus i h = Some (Some src)"
    and mem: "ApplyBSDiffPatchMem (l_bz L) (l_malloc L) src (sint (expanded_len h)) patch (sint (patch_offset h)) = Some (0, target)"
    and malloc: "l_malloc L 32768" and df: "deflates (l_zl L) (nat (max 32768 (sint (expanded_len h)))) ?strm d"
  obtain m' where m: "deflate_loop L MemorySink (nat (max 32768 (sint (expanded_len h)))) ?strm m c =
      Some (Inr (m', SHA_update (l_sha L) c d))" "room m' k" "memory_written m' = memory_written m @ d"
    using deflate_loop_output [OF df assms(4,5)] by blast
  have pos: "c_int (int (length pre) + 60) = Some (int (length pre) + 60)" "\<not> int (length pre) + 60 > vsize patch"
    using pos_ok [OF assms(2), of "length pre + 60"] assms(3) by (simp_all add: length_enc8 length_enc4)
  show ?thesis
    using src mem malloc m pos assms(3) read_deflate_header_enc [OF ints, of post] by (simp add: deflate_chunk_def)
qed

lemma one_chunk_output:
  assumes "chunk_output L old patch bonus i ch d" "whole_value patch"
    and "vbytes patch = pre @ enc_chunk ch @ post" "sha_streams (l_sha L)" "room m (length d + k)"
  shows "\<exists>m'. one_chunk L old patch MemorySink bonus i (int (length pre)) m c =
      Some (Inr (int (length pre + length (enc_chunk ch)), m', SHA_update (l_sha L) c d)) \<and>
    room m' k \<and> memory_written m' = memory_written m @ d"
proof -
  have l: "length (Write4 v []) = 4" for v by (rule le4.enc_length)
  obtain t body where e: "enc_chunk ch = Write4 t [] @ body" by (cases ch) auto
  have pos: "c_int (int (length pre) + 4) = Some (int (length pre) + 4)" "\<not> int (length pre) + 4 > vsize patch"
    using pos_ok [OF assms(2), of "length pre + 4"] assms(3) e l by simp_all
  have ty: "field4 (vbytes patch) (length pre) = Some (sint t)"
    using assms(3) e field4_at [of pre "length pre" t "body @ post"] by simp
  have pre: "int (length pre) + 4 = int (length (pre @ Write4 t []))" by (simp add: l)
  show ?thesis
  proof (cases ch)
    case (NormalChunk s l1 p)
    then have "t = 0" "body = enc8 [s, l1, p]" using e by (simp_all add: Write4_append_inj)
    with NormalChunk show ?thesis
      using normal_chunk_output [OF assms(1) [unfolded NormalChunk] assms(2) _ assms(4,5), of "pre @ Write4 t []" post c]
        assms(3) e pos ty by (simp add: one_chunk_def l length_enc8 add.commute add.left_commute)
  next
    case (RawChunk d')
    moreover from this have "d' = d" using assms(1) by (auto elim: raw_outputE)
    moreover have "t = 3" "body = Write4 (of_nat (length d')) [] @ d'" using RawChunk e by (simp_all add: Write4_append_inj)
    ultimately show ?thesis
      using raw_chunk_output [OF assms(2) _ assms(5), of "pre @ Write4 t []" post L c]
        assms(3) e pos ty by (simp add: one_chunk_def l add.commute add.left_commute)
  next
    case (DeflateChunk h)
    then have "t = 2" "body = enc8 [src_start h, src_len h, patch_offset h, expanded_len h, target_len h] @
        enc4 [level h, z_method h, windowBits h, memLevel h, strategy h]"
      using e by (simp_all add: Write4_append_inj)
    with DeflateChunk show ?thesis
      using deflate_chunk_output [OF assms(1) [unfolded DeflateChunk] assms(2) _ assms(4,5), of "pre @ Write4 t []" post c]
        assms(3) e pos ty by (simp add: one_chunk_def l length_enc8 length_enc4 add.commute add.left_commute)
  qed
qed

lemma chunk_loop_output:
  assumes "outputs L old patch bonus i cs ds" "whole_value patch"
    and "vbytes patch = pre @ concat (map enc_chunk cs) @ post" "sha_streams (l_sha L)" "room m (length (concat ds))"
  shows "\<exists>m'. chunk_loop L old patch MemorySink bonus (length cs) i (int (length pre)) m c =
      Some (0, m', SHA_update (l_sha L) c (concat ds)) \<and> memory_written m' = memory_written m @ concat ds"
  using assms(1,3,5)
proof (induction cs arbitrary: i ds pre m c)
  case Nil
  then show ?case using assms(4) by (simp add: sha_streams_def)
next
  case (Cons ch cs)
  then obtain d ds' where d: "ds = d # ds'" "chunk_output L old patch bonus i ch d" "outputs L old patch bonus (Suc i) cs ds'"
    by (cases ds) auto
  have rm: "room m (length d + length (concat ds'))" using Cons.prems(3) d(1) by simp
  obtain m1 where m1: "one_chunk L old patch MemorySink bonus i (int (length pre)) m c =
      Some (Inr (int (length pre + length (enc_chunk ch)), m1, SHA_update (l_sha L) c d))" "room m1 (length (concat ds'))"
      "memory_written m1 = memory_written m @ d"
    using one_chunk_output [OF d(2) assms(2) _ assms(4) rm, of pre "concat (map enc_chunk cs) @ post" c] Cons.prems(2)
    by auto
  obtain m' where "chunk_loop L old patch MemorySink bonus (length cs) (Suc i) (int (length (pre @ enc_chunk ch))) m1
        (SHA_update (l_sha L) c d) = Some (0, m', SHA_update (l_sha L) (SHA_update (l_sha L) c d) (concat ds'))"
      "memory_written m' = memory_written m1 @ concat ds'"
    using Cons.IH [OF d(3) _ m1(2), of "pre @ enc_chunk ch" "SHA_update (l_sha L) c d"] Cons.prems(2) by auto
  then show ?case using m1 d(1) assms(4) by (simp add: sha_streams_def)
qed

section \<open>Properties\<close>

text \<open>
  C16. An image patch in the documented format gives exactly the concatenation of what its
  chunks stand for: normal chunks are patched parts of the old image, raw chunks are copied,
  deflate chunks are inflated, patched (after the bonus data was appended for chunk 1) and
  deflated again. The decoder returns 0, a memory sink with enough room receives the new image,
  and the SHA-1 context has seen exactly these bytes.
\<close>

theorem imgpatch_applies_format:
  assumes "outputs L old patch bonus 0 cs ds" "sha_streams (l_sha L)"
    and "vbytes patch = image_patch cs rest" "whole_value patch" "room m (length (concat ds))"
  shows "\<exists>m'. ApplyImagePatch L old sz patch MemorySink m c bonus =
      Some (0, m', SHA_update (l_sha L) c (concat ds)) \<and> memory_written m' = memory_written m @ concat ds"
proof -
  let ?pre = "bytes_of ''IMGDIFF2'' @ Write4 (of_nat (length cs)) []"
  have l: "length (bytes_of ''IMGDIFF2'') = 8" "length ?pre = 12"
    by (simp_all add: bytes_of_def le4.enc_length)
  have v: "vbytes patch = ?pre @ concat (map enc_chunk cs) @ rest" using assms(3) by (simp add: image_patch_def)
  have n4: "4 \<le> length (enc_chunk ch)" for ch by (cases ch) (simp_all add: Write4_def)
  have "length cs \<le> length (concat (map enc_chunk cs))"
  proof (induction cs)
    case (Cons ch cs)
    then show ?case using n4 [of ch] by simp
  qed simp
  moreover have "length (concat (map enc_chunk cs)) \<le> length (vbytes patch)" by (simp only: v) simp
  ultimately have "int (length cs) \<le> LONG_MAX" using assms(4) by (simp add: whole_value_def)
  then have n: "field4 (vbytes patch) 8 = Some (int (length cs))"
    using field4_at [of "bytes_of ''IMGDIFF2''" 8 "of_nat (length cs)" "concat (map enc_chunk cs) @ rest"] l v
      sint_word_of_int [of "int (length cs)"] by (simp add: LONG_MIN_def)
  have "slice (vbytes patch) 0 8 = Some (bytes_of ''IMGDIFF2'')" using v l by (simp add: slice_def)
  moreover have "\<not> vsize patch < 12" using assms(4) v l by (simp add: whole_value_def del: append_assoc)
  ultimately show ?thesis
    using chunk_loop_output [OF assms(1,4) v assms(2,5), of c] n l by (simp add: ApplyImagePatch_def)
qed

definition demo_libs :: "(byte list, byte list, byte list) libs" where
  "demo_libs = \<lparr>l_bz = demo_bz,
     l_zl = \<lparr>inflateInit2 = (\<lambda>_. 0), inflate = (\<lambda>src n. (1, take n src)),
             deflateInit2 = (\<lambda>_ _ _ _ _ bs. bs), deflate = (\<lambda>bs n. (if length bs \<le> n then 1 else 0, take n bs, drop n bs))\<rparr>,
     l_sha = \<lparr>SHA_init = [], SHA_update = (@), SHA_final = (\<lambda>c. c), SHA_hash = (\<lambda>d. d)\<rparr>, l_malloc = (\<lambda>_. True)\<rparr>"

definition demo_image_patch :: Value where
  "demo_image_patch = blob (image_patch [RawChunk [5, 6], NormalChunk 1 2 50]
     (bsdiff_file (enc_triple (2, 1, 0)) [1, 2] 3 [7]))"

lemma demo_sha: "sha_streams (l_sha demo_libs)"
  by (simp add: demo_libs_def sha_streams_def)

theorem imgpatch_applies_format_witness:
  "\<exists>m'. ApplyImagePatch demo_libs [10, 20, 30] 3 demo_image_patch MemorySink
      \<lparr>msi_buffer = replicate 5 0, msi_size = 5, msi_pos = 0\<rparr> [] None = Some (0, m', [5, 6, 21, 32, 7])"
proof -
  have n: "chunk_output demo_libs [10, 20, 30] demo_image_patch None 1 (NormalChunk 1 2 50) [21, 32, 7]"
  proof (rule chunk_output.intros)
    have "int (length (image_patch [RawChunk [5, 6], NormalChunk 1 2 50] [])) = 50" by code_simp
    then show "ApplyBSDiffPatchMem (l_bz demo_libs) (l_malloc demo_libs) (drop (unat (1 :: u32)) [10, 20, 30]) (sint (2 :: u32))
        demo_image_patch (sint (50 :: u32)) = Some (0, [21, 32, 7])"
      using bspatch_format_correct [OF demo_bz_delivers, where c = "enc_triple (2, 1, 0)" and d = "[1, 2]" and e = "[7]"
          and cs = "[(2, 1, 0)]" and ds = "[1, 2]" and es = "[7]" and n = 3 and malloc = "\<lambda>_. True"
          and pre = "image_patch [RawChunk [5, 6], NormalChunk 1 2 50] []" and patch = demo_image_patch and old = "[20, 30]"]
      by (simp add: demo_libs_def demo_image_patch_def demo_bz_def LONG_MAX_def LONG_MIN_def enc_triple_def off8.enc_length
          image_patch_def)
  qed simp
  have w: "whole_value demo_image_patch"
    by (simp add: whole_value_def demo_image_patch_def image_patch_def bsdiff_file_def enc_triple_def off8.enc_length
        bytes_of_def LONG_MAX_def le4.enc_length length_enc8)
  show ?thesis
    using imgpatch_applies_format [where L = demo_libs and old = "[10, 20, 30]" and patch = demo_image_patch and bonus = None
        and cs = "[RawChunk [5, 6], NormalChunk 1 2 50]" and ds = "[[5, 6], [21, 32, 7]]" and sz = 3 and c = "[]"
        and m = "\<lparr>msi_buffer = replicate 5 0, msi_size = 5, msi_pos = 0\<rparr>"
        and rest = "bsdiff_file (enc_triple (2, 1, 0)) [1, 2] 3 [7]"] n demo_sha w
    by (auto simp: chunk_output.intros demo_image_patch_def room_def memory_ok_def demo_libs_def)
qed

text \<open>
  C17. Whatever the patch, the old image and the libraries do: if the decoder returns 0 for a
  memory sink that was empty, the SHA-1 it computed is the hash of exactly the bytes in the sink.
  (The caller compares this hash with the expected one and writes the bytes to the partition.)
\<close>

theorem imgpatch_hash_is_of_output:
  assumes "sha_streams (l_sha L)" "memory_ok m" "msi_pos m = 0"
    and "ApplyImagePatch L old sz patch MemorySink m (SHA_init (l_sha L)) bonus = Some (0, m', c')"
  shows "SHA_final (l_sha L) c' = SHA_hash (l_sha L) (memory_written m')"
proof -
  have "memory.in_step (l_sha L) m (SHA_init (l_sha L))"
    using assms(1-3) hashed_init by (simp add: memory.in_step_def memory_written_def)
  from memory.image_in_step [OF assms(1,4) this] show ?thesis
    using hashed_final [OF assms(1)] by (simp add: memory.in_step_def)
qed

theorem imgpatch_hash_is_of_output_witness:
  "\<exists>m' c'. ApplyImagePatch demo_libs [] 0 (blob (image_patch [RawChunk [5, 6]] [])) MemorySink
      \<lparr>msi_buffer = [0, 0], msi_size = 2, msi_pos = 0\<rparr> [] None = Some (0, m', c') \<and>
    SHA_final (l_sha demo_libs) c' = SHA_hash (l_sha demo_libs) (memory_written m')"
proof -
  have run: "ApplyImagePatch demo_libs [] 0 (blob (image_patch [RawChunk [5, 6]] [])) MemorySink
      \<lparr>msi_buffer = [0, 0], msi_size = 2, msi_pos = 0\<rparr> (SHA_init (l_sha demo_libs)) None =
      Some (0, \<lparr>msi_buffer = [5, 6], msi_size = 2, msi_pos = 2\<rparr>, [5, 6])"
    by code_simp
  from imgpatch_hash_is_of_output [OF demo_sha _ _ run] run show ?thesis
    by (simp add: memory_ok_def demo_libs_def)
qed

text \<open>
  C18. The decoder ignores a normal chunk that cannot be patched: for an image patch that consists
  of one normal chunk whose bsdiff patch is rejected, it returns 0 although it wrote nothing.
\<close>

theorem imgpatch_ignores_failed_chunk:
  assumes "vbytes patch = image_patch [NormalChunk s l p] rest" "whole_value patch" "unat s \<le> length old"
    and "ApplyBSDiffPatchMem (l_bz L) (l_malloc L) (drop (unat s) old) (sint l) patch (sint p) = Some (r, d)" "r \<noteq> 0"
  shows "ApplyImagePatch L old sz patch snk t c bonus = Some (0, t, c)"
proof -
  let ?m = "bytes_of ''IMGDIFF2''" and ?h = "enc8 [s, l, p]"
  have len: "length ?m = 8" "length (Write4 v []) = 4" for v by (simp_all add: bytes_of_def le4.enc_length)
  have v: "vbytes patch = (?m @ Write4 1 []) @ Write4 0 [] @ ?h @ rest" using assms(1) by (simp add: image_patch_def)
  have lh: "length ?h = 24" by (simp add: length_enc8)
  have size: "vsize patch \<ge> 40" using assms(2) v len lh by (simp add: whole_value_def)
  have f: "field4 (vbytes patch) 8 = Some 1" "field4 (vbytes patch) 12 = Some 0"
    using field4_at [of ?m 8 1 "Write4 0 [] @ ?h @ rest"] field4_at [of "?m @ Write4 1 []" 12 0 "?h @ rest"] v len by simp_all
  have h: "field8 (?h @ rest) 0 = Some s" "field8 (?h @ rest) 8 = Some l" "field8 (?h @ rest) 16 = Some p"
    using field8_enc8 [of 0 "[s, l, p]" rest] field8_enc8 [of 1 "[s, l, p]" rest] field8_enc8 [of 2 "[s, l, p]" rest]
    by simp_all
  have c: "c_int 16 = Some 16" "c_int 40 = Some 40" by (simp_all add: c_int_def LONG_MIN_def LONG_MAX_def)
  have "drop 16 (vbytes patch) = ?h @ rest" using v len by simp
  then have "normal_chunk L old patch snk 16 t c = Some (Inr (40, t, c))"
    using assms(3-5) size h c by (simp add: normal_chunk_def ApplyBSDiffPatch_def)
  then have "one_chunk L old patch snk bonus 0 12 t c = Some (Inr (40, t, c))"
    using f c size by (simp add: one_chunk_def)
  moreover have "slice (vbytes patch) 0 8 = Some ?m" using v len by (simp add: slice_def)
  ultimately show ?thesis using f size by (simp add: ApplyImagePatch_def)
qed

theorem imgpatch_ignores_failed_chunk_witness:
  "ApplyImagePatch demo_libs [1, 2] 2 (blob (image_patch [NormalChunk 0 2 0] [])) MemorySink
      \<lparr>msi_buffer = [], msi_size = 0, msi_pos = 0\<rparr> [] None =
    Some (0, \<lparr>msi_buffer = [], msi_size = 0, msi_pos = 0\<rparr>, [])"
proof -
  have "ApplyBSDiffPatchMem (l_bz demo_libs) (l_malloc demo_libs) (drop (unat (0 :: u32)) [1, 2]) (sint (2 :: u32))
      (blob (image_patch [NormalChunk 0 2 0] [])) (sint (0 :: u32)) = Some (1, [])"
    by code_simp
  moreover have "whole_value (blob (image_patch [NormalChunk 0 2 0] []))"
    by (simp add: whole_value_def image_patch_def bytes_of_def LONG_MAX_def le4.enc_length length_enc8)
  ultimately show ?thesis
    using imgpatch_ignores_failed_chunk [of "blob (image_patch [NormalChunk 0 2 0] [])" 0 2 0 "[]" "[1, 2]" demo_libs 1 "[]"]
    by simp
qed

end
