(* ===== verification/Freecache.thy ===== *)
theory Freecache
  imports Os
begin

text \<open>
  Making room on the cache partition, \<open>applypatch/freecache.c\<close>, with \<open>FreeSpaceForFile\<close> and
  \<open>CacheSizeCheck\<close> of \<open>applypatch/applypatch.c\<close>.

  The array of file names is a list of options: an entry that \<open>EliminateOpenFiles\<close> has set to
  \<open>NULL\<close> is \<open>None\<close>. Directory listings and link targets come from the oracle of the system.
\<close>

section \<open>Model\<close>

definition CACHE_TEMP_SOURCE :: string where
  "CACHE_TEMP_SOURCE = ''/cache/saved.file''"

definition FreeSpaceForFile :: "string \<Rightarrow> os \<Rightarrow> u32 \<times> os" where
  "FreeSpaceForFile filename w =
     (case sys_statfs filename w of
        (None, w) \<Rightarrow> (-1, w)
      | (Some (f_bsize, f_bfree), w) \<Rightarrow> (ucast (ucast f_bsize * f_bfree :: u64), w))"

text \<open>The links below one \<open>/proc/N/fd/\<close>: files that are open are taken out of the list.\<close>

fun drop_open :: "string \<Rightarrow> string list \<Rightarrow> string option list \<Rightarrow> os \<Rightarrow> string option list \<times> os" where
  "drop_open path [] fs w = (fs, w)"
| "drop_open path (e # es) fs w =
     (let (link, w) = sys_readlink (path @ e) w
      in case link of
           None \<Rightarrow> drop_open path es fs w
         | Some link \<Rightarrow>
             if starts_with link ''/cache/''
             then drop_open path es (map (\<lambda>f. if f = Some link then None else f) fs) w
             else drop_open path es fs w)"

fun scan_processes :: "string list \<Rightarrow> string option list \<Rightarrow> os \<Rightarrow> string option list \<times> os" where
  "scan_processes [] fs w = (fs, w)"
| "scan_processes (d_name # ds) fs w =
     (if \<not> list_all is_digit d_name then scan_processes ds fs w
      else let path = ''/proc/'' @ d_name @ ''/fd/'';
               (fdd, w) = sys_listdir path w
           in case fdd of
                None \<Rightarrow> scan_processes ds fs w
              | Some es \<Rightarrow> let (fs, w) = drop_open path es fs w in scan_processes ds fs w)"

definition EliminateOpenFiles :: "string option list \<Rightarrow> os \<Rightarrow> int \<times> string option list \<times> os" where
  "EliminateOpenFiles fs w =
     (let (d, w) = sys_listdir ''/proc'' w
      in case d of
           None \<Rightarrow> (-1, fs, w)
         | Some ds \<Rightarrow> let (fs, w) = scan_processes ds fs w in (0, fs, w))"

text \<open>The regular files among the entries of one directory.\<close>

fun regular_files :: "string \<Rightarrow> string list \<Rightarrow> os \<Rightarrow> string list \<times> os" where
  "regular_files dir [] w = ([], w)"
| "regular_files dir (d_name # ds) w =
     (let path = dir @ ''/'' @ d_name
      in if strcmp path CACHE_TEMP_SOURCE = 0 then regular_files dir ds w
         else case sys_stat path w of
             (Inl _, w) \<Rightarrow> regular_files dir ds w
           | (Inr st, w) \<Rightarrow>
               let (ns, w) = regular_files dir ds w
               in (if S_ISREG (i_mode st) then path # ns else ns, w))"

fun expendable_in :: "string list \<Rightarrow> os \<Rightarrow> string list \<times> os" where
  "expendable_in [] w = ([], w)"
| "expendable_in (dir # dirs) w =
     (let (d, w) = sys_listdir dir w
      in case d of
           None \<Rightarrow> expendable_in dirs w
         | Some ds \<Rightarrow> let (ns, w) = regular_files dir ds w; (ms, w) = expendable_in dirs w in (ns @ ms, w))"

definition cache_dirs :: "string list" where
  "cache_dirs = [''/cache'', ''/cache/recovery/otatest'']"

definition FindExpendableFiles :: "os \<Rightarrow> int \<times> string option list \<times> os" where
  "FindExpendableFiles w =
     (let (ns, w) = expendable_in cache_dirs w;
          (r, ns, w) = EliminateOpenFiles (map Some ns) w
      in (if r < 0 then -1 else 0, ns, w))"

fun delete_until :: "u32 \<Rightarrow> string option list \<Rightarrow> u32 \<Rightarrow> os \<Rightarrow> u32 \<times> os" where
  "delete_until bytes_needed [] free_now w = (free_now, w)"
| "delete_until bytes_needed (n # ns) free_now w =
     (if \<not> free_now < bytes_needed then (free_now, w)
      else case n of
          None \<Rightarrow> delete_until bytes_needed ns free_now w
        | Some name \<Rightarrow>
            let (_, w) = sys_unlink name w; (free_now, w) = FreeSpaceForFile ''/cache'' w
            in delete_until bytes_needed ns free_now w)"

definition MakeFreeSpaceOnCache :: "u32 \<Rightarrow> os \<Rightarrow> int \<times> os" where
  "MakeFreeSpaceOnCache bytes_needed w =
     (let (free_now, w) = FreeSpaceForFile ''/cache'' w
      in if free_now \<ge> bytes_needed then (0, w)
         else let (r, ns, w) = FindExpendableFiles w
              in if r < 0 then (-1, w)
                 else if ns = [] then (-1, w)
                 else let (free_now, w) = delete_until bytes_needed ns free_now w
                      in (if free_now \<ge> bytes_needed then 0 else -1, w))"

definition CacheSizeCheck :: "u32 \<Rightarrow> os \<Rightarrow> int \<times> os" where
  "CacheSizeCheck bytes w = (let (r, w) = MakeFreeSpaceOnCache bytes w in (if r < 0 then 1 else 0, w))"

section \<open>Only expendable files are deleted\<close>

text \<open>The files, the devices and the oracles are as before.\<close>

definition same_files :: "os \<Rightarrow> os \<Rightarrow> bool" where
  "same_files w w' \<longleftrightarrow> files w' = files w \<and> mtddev w' = mtddev w \<and> orc w' = orc w"

lemma same_files_refl [simp]: "same_files w w"
  by (simp add: same_files_def)

lemma same_files_trans: "same_files w w1 \<Longrightarrow> same_files w1 w2 \<Longrightarrow> same_files w w2"
  by (simp add: same_files_def)

lemma same_files_ask: "ask w = (v, w') \<Longrightarrow> same_files w w'"
  by (auto simp: same_files_def ask_def)

lemma same_files_statfs: "sys_statfs p w = (r, w') \<Longrightarrow> same_files w w'"
  by (auto simp: same_files_def ask_def sys_statfs_def)

lemma same_files_listdir: "sys_listdir p w = (l, w') \<Longrightarrow> same_files w w'"
  by (auto simp: same_files_def ask_def sys_listdir_def Let_def)

lemma same_files_readlink: "sys_readlink p w = (k, w') \<Longrightarrow> same_files w w'"
  by (auto simp: same_files_def ask_def sys_readlink_def Let_def)

lemma same_files_stat: "sys_stat p w = (s, w') \<Longrightarrow> same_files w w'"
  by (auto simp: same_files_def ask_def sys_stat_def)

lemma same_files_space: "FreeSpaceForFile p w = (n, w') \<Longrightarrow> same_files w w'"
  by (auto simp: FreeSpaceForFile_def dest: same_files_statfs split: option.splits prod.splits)

lemmas same_files_calls =
  same_files_ask same_files_statfs same_files_listdir same_files_readlink same_files_stat same_files_space

text \<open>The texts of the system do not change either.\<close>

lemma names_calls:
  "sys_listdir p w = (l, w') \<Longrightarrow> names w' = names w" "sys_readlink p w = (k, w') \<Longrightarrow> names w' = names w"
  "sys_stat p w = (s, w') \<Longrightarrow> names w' = names w" "FreeSpaceForFile p w = (n, w') \<Longrightarrow> names w' = names w"
  by (auto simp: ask_def sys_listdir_def sys_readlink_def sys_stat_def FreeSpaceForFile_def sys_statfs_def Let_def
      split: option.splits prod.splits)

lemma drop_open_spec:
  "drop_open path es fs w = (fs', w') \<Longrightarrow> same_files w w' \<and> set fs' \<subseteq> insert None (set fs)"
proof (induction es arbitrary: fs w)
  case (Cons e es)
  obtain link w1 where l: "sys_readlink (path @ e) w = (link, w1)" by (metis prod.exhaust)
  define fs1 where "fs1 = (case link of Some k \<Rightarrow>
    if starts_with k ''/cache/'' then map (\<lambda>f. if f = Some k then None else f) fs else fs | None \<Rightarrow> fs)"
  have "drop_open path es fs1 w1 = (fs', w')" using Cons.prems l by (cases link) (simp_all add: fs1_def split: if_splits)
  moreover have "set fs1 \<subseteq> insert None (set fs)" by (auto simp: fs1_def split: option.splits)
  ultimately show ?case using Cons.IH [of fs1 w1] same_files_trans [OF same_files_calls(4) [OF l]] by blast
qed auto

lemma scan_processes_spec:
  "scan_processes ds fs w = (fs', w') \<Longrightarrow> same_files w w' \<and> set fs' \<subseteq> insert None (set fs)"
proof (induction ds arbitrary: fs w)
  case (Cons d ds)
  show ?case
  proof (cases "list_all is_digit d")
    case True
    obtain es w1 where l: "sys_listdir (''/proc/'' @ d @ ''/fd/'') w = (es, w1)" by (metis prod.exhaust)
    note same = same_files_calls(3) [OF l]
    show ?thesis
    proof (cases es)
      case None
      then show ?thesis using Cons.IH [of fs w1] Cons.prems True l same_files_trans [OF same] by simp
    next
      case (Some xs)
      obtain fs1 w2 where d: "drop_open (''/proc/'' @ d @ ''/fd/'') xs fs w1 = (fs1, w2)" by (metis prod.exhaust)
      then have "scan_processes ds fs1 w2 = (fs', w')" using Cons.prems True l Some by simp
      with Cons.IH drop_open_spec [OF d] show ?thesis
        using same_files_trans [OF same] same_files_trans by blast
    qed
  qed (use Cons in simp)
qed auto

lemma drop_open_names: "drop_open path es fs w = (fs', w') \<Longrightarrow> names w' = names w"
proof (induction es arbitrary: fs w)
  case (Cons e es)
  obtain link w1 where l: "sys_readlink (path @ e) w = (link, w1)" by (metis prod.exhaust)
  show ?case using Cons l names_calls(2) [OF l] by (auto split: option.splits if_splits)
qed simp

text \<open>A file that a link leads to is taken out, and stays out.\<close>

definition links_to :: "os \<Rightarrow> string \<Rightarrow> string \<Rightarrow> bool" where
  "links_to w p path \<longleftrightarrow> (\<forall>k. names w k p = [path])"

lemma drop_open_drops:
  assumes "drop_open dir es fs w = (fs', w')" "e \<in> set es" "links_to w (dir @ e) path" "\<forall>k. 0 \<le> orc w k"
    "starts_with path ''/cache/''"
  shows "Some path \<notin> set fs'"
  using assms
proof (induction es arbitrary: fs w)
  case (Cons e1 es)
  obtain link w1 where l: "sys_readlink (dir @ e1) w = (link, w1)" by (metis prod.exhaust)
  define fs1 where "fs1 = (case link of Some k \<Rightarrow>
    if starts_with k ''/cache/'' then map (\<lambda>f. if f = Some k then None else f) fs else fs | None \<Rightarrow> fs)"
  have r: "drop_open dir es fs1 w1 = (fs', w')" using Cons.prems(1) l by (cases link) (simp_all add: fs1_def split: if_splits)
  have w1: "names w1 = names w" "orc w1 = orc w" using names_calls(2) [OF l] same_files_readlink [OF l] by (simp_all add: same_files_def)
  show ?case
  proof (cases "e \<in> set es")
    case True
    then show ?thesis using Cons.IH [OF r] Cons.prems(3-5) w1 by (simp add: links_to_def)
  next
    case False
    then have "link = Some path" using Cons.prems(2-4) l by (auto simp: links_to_def sys_readlink_def ask_def Let_def not_less)
    then have "Some path \<notin> set fs1" using Cons.prems(5) by (auto simp: fs1_def)
    then show ?thesis using drop_open_spec [OF r] by blast
  qed
qed simp

lemma scan_processes_names: "scan_processes ds fs w = (fs', w') \<Longrightarrow> names w' = names w"
proof (induction ds arbitrary: fs w)
  case (Cons d ds)
  obtain es w1 where l: "sys_listdir (''/proc/'' @ d @ ''/fd/'') w = (es, w1)" by (metis prod.exhaust)
  obtain fs1 w2 where d: "drop_open (''/proc/'' @ d @ ''/fd/'') (the es) fs w1 = (fs1, w2)" by (metis prod.exhaust)
  show ?case using Cons l names_calls(1) [OF l] d drop_open_names [OF d] by (cases es) (auto split: if_splits)
qed simp

text \<open>
  A process has the file open, as far as \<open>/proc\<close> shows it at any time: one of the links below its
  \<open>fd\<close> directory leads to the file.
\<close>

definition held_open :: "os \<Rightarrow> string \<Rightarrow> bool" where
  "held_open w path \<longleftrightarrow>
     (\<exists>pid d. list_all is_digit pid \<and> (\<forall>k. pid \<in> set (dir_entries w k ''/proc'')) \<and>
        (\<forall>k. d \<in> set (dir_entries w k (''/proc/'' @ pid @ ''/fd/''))) \<and> links_to w (''/proc/'' @ pid @ ''/fd/'' @ d) path)"

lemma held_open_same: "names w' = names w \<Longrightarrow> held_open w' path = held_open w path"
  by (simp add: held_open_def dir_entries_def links_to_def)

lemma scan_processes_drops:
  assumes "scan_processes ds fs w = (fs', w')" "pid \<in> set ds" "list_all is_digit pid"
    "\<forall>k. d \<in> set (dir_entries w k (''/proc/'' @ pid @ ''/fd/''))" "links_to w (''/proc/'' @ pid @ ''/fd/'' @ d) path"
    "\<forall>k. 0 \<le> orc w k" "starts_with path ''/cache/''"
  shows "Some path \<notin> set fs'"
  using assms
proof (induction ds arbitrary: fs w)
  case (Cons p ds)
  let ?dir = "''/proc/'' @ p @ ''/fd/''"
  show ?case
  proof (cases "list_all is_digit p")
    case True
    obtain es w1 where l: "sys_listdir ?dir w = (es, w1)" by (metis prod.exhaust)
    have es: "es = Some (dir_entries w (clk w) ?dir)" using l Cons.prems(6) by (auto simp: sys_listdir_def ask_def Let_def not_less)
    obtain fs1 w2 where o: "drop_open ?dir (dir_entries w (clk w) ?dir) fs w1 = (fs1, w2)" by (metis prod.exhaust)
    have r: "scan_processes ds fs1 w2 = (fs', w')" using Cons.prems(1) True l es o by simp
    have w1: "names w1 = names w" "orc w1 = orc w" using names_calls(1) [OF l] same_files_listdir [OF l] by (simp_all add: same_files_def)
    have w2: "names w2 = names w" "orc w2 = orc w" using drop_open_names [OF o] drop_open_spec [OF o] w1 by (simp_all add: same_files_def)
    show ?thesis
    proof (cases "pid \<in> set ds")
      case True
      then show ?thesis using Cons.IH [OF r True Cons.prems(3)] Cons.prems(4-7) w2 by (simp add: dir_entries_def links_to_def)
    next
      case False
      then have "Some path \<notin> set fs1"
        using drop_open_drops [OF o, of d path] Cons.prems(2,4-7) w1 by (auto simp: links_to_def)
      then show ?thesis using scan_processes_spec [OF r] by blast
    qed
  next
    case False
    then show ?thesis using Cons.IH [of fs w] Cons.prems by auto
  qed
qed simp

lemma EliminateOpenFiles_drops:
  assumes "EliminateOpenFiles fs w = (r, fs', w')" "held_open w path" "\<forall>k. 0 \<le> orc w k" "starts_with path ''/cache/''"
  shows "Some path \<notin> set fs'"
proof -
  obtain pid d where h: "list_all is_digit pid" "\<forall>k. pid \<in> set (dir_entries w k ''/proc'')"
      "\<forall>k. d \<in> set (dir_entries w k (''/proc/'' @ pid @ ''/fd/''))" "links_to w (''/proc/'' @ pid @ ''/fd/'' @ d) path"
    using assms(2) by (auto simp: held_open_def)
  obtain ds w1 where l: "sys_listdir ''/proc'' w = (ds, w1)" by (metis prod.exhaust)
  have ds: "ds = Some (dir_entries w (clk w) ''/proc'')" using l assms(3) by (auto simp: sys_listdir_def ask_def Let_def not_less)
  obtain fs1 w2 where s: "scan_processes (dir_entries w (clk w) ''/proc'') fs w1 = (fs1, w2)" by (metis prod.exhaust)
  have w1: "names w1 = names w" "orc w1 = orc w" using names_calls(1) [OF l] same_files_listdir [OF l] by (simp_all add: same_files_def)
  have "Some path \<notin> set fs1"
    using scan_processes_drops [OF s _ h(1), of d path] h(2-4) assms(3,4) w1 by (simp add: dir_entries_def links_to_def)
  then show ?thesis using assms(1) l ds s by (simp add: EliminateOpenFiles_def)
qed

lemma EliminateOpenFiles_spec:
  "EliminateOpenFiles fs w = (r, fs', w') \<Longrightarrow> same_files w w' \<and> set fs' \<subseteq> insert None (set fs) \<and> (r = 0 \<or> r = -1)"
  by (auto simp: EliminateOpenFiles_def split: prod.splits option.splits
      dest!: scan_processes_spec same_files_calls(3) dest: same_files_trans)

text \<open>A file directly in a directory.\<close>

definition file_in :: "string \<Rightarrow> string \<Rightarrow> bool" where
  "file_in dir path \<longleftrightarrow> (\<exists>name. path = dir @ ''/'' @ name \<and> name \<noteq> [] \<and> CHR ''/'' \<notin> set name)"

definition expendable :: "os \<Rightarrow> string \<Rightarrow> bool" where
  "expendable w path \<longleftrightarrow>
     path \<noteq> CACHE_TEMP_SOURCE \<and>
     (\<exists>dir \<in> set cache_dirs. file_in dir path) \<and>
     (\<exists>ino. files w path = Some ino \<and> S_ISREG (i_mode ino))"

lemma expendable_same: "same_files w w' \<Longrightarrow> expendable w' = expendable w"
  by (simp add: expendable_def same_files_def fun_eq_iff)

lemma regular_files_spec:
  assumes "dir \<in> set cache_dirs" "list_all (\<lambda>d. d \<noteq> [] \<and> CHR ''/'' \<notin> set d) ds"
  shows "regular_files dir ds w = (ns, w') \<Longrightarrow> same_files w w' \<and> list_all (expendable w) ns"
  using assms(2)
proof (induction ds arbitrary: w ns w')
  case (Cons d ds)
  let ?p = "dir @ ''/'' @ d"
  show ?case
  proof (cases "?p = CACHE_TEMP_SOURCE")
    case False
    obtain s w1 where s: "sys_stat ?p w = (s, w1)" by (metis prod.exhaust)
    obtain ms w2 where m: "regular_files dir ds w1 = (ms, w2)" by (metis prod.exhaust)
    have w1: "same_files w w1" by (rule same_files_calls(5) [OF s])
    with Cons.IH [OF m] Cons.prems(2) have w2: "same_files w w2" "list_all (expendable w) ms"
      using same_files_trans expendable_same by auto
    have reg: "s = Inr st \<Longrightarrow> files w ?p = Some st" for st
      using s by (auto simp: sys_stat_def ask_def Let_def split: if_splits option.splits)
    have "file_in dir ?p" using Cons.prems(2) by (simp add: file_in_def)
    then have "s = Inr st \<Longrightarrow> S_ISREG (i_mode st) \<Longrightarrow> expendable w ?p" for st
      using reg assms(1) False unfolding expendable_def by blast
    then show ?thesis
      using Cons.prems False s m w2 by (auto split: sum.splits if_splits)
  qed (use Cons in simp)
qed simp

lemma expendable_in_spec:
  assumes "set dirs \<subseteq> set cache_dirs"
  shows "expendable_in dirs w = (ns, w') \<Longrightarrow> same_files w w' \<and> list_all (expendable w) ns"
  using assms
proof (induction dirs arbitrary: w ns w')
  case (Cons dir dirs)
  obtain l w1 where l: "sys_listdir dir w = (l, w1)" by (metis prod.exhaust)
  have w1: "same_files w w1" by (rule same_files_calls(3) [OF l])
  show ?case
  proof (cases l)
    case None
    then have "same_files w1 w'" "list_all (expendable w1) ns" using Cons.IH [of w1 ns w'] Cons.prems l by simp_all
    then show ?thesis using same_files_trans [OF w1] by (simp add: expendable_same [OF w1])
  next
    case (Some ds)
    obtain n1 w2 where r: "regular_files dir ds w1 = (n1, w2)" by (metis prod.exhaust)
    obtain n2 w3 where e: "expendable_in dirs w2 = (n2, w3)" by (metis prod.exhaust)
    have "list_all (\<lambda>d. d \<noteq> [] \<and> CHR ''/'' \<notin> set d) ds"
      using l Some by (auto simp: sys_listdir_def dir_entries_def ask_def Let_def list_all_iff split: if_splits)
    then have r': "same_files w1 w2" "list_all (expendable w1) n1"
      using regular_files_spec [OF _ _ r] Cons.prems(2) by auto
    have e': "same_files w2 w3" "list_all (expendable w2) n2" using Cons.IH [OF e] Cons.prems(2) by auto
    have "ns = n1 @ n2" "w' = w3" using Cons.prems(1) l Some r e by auto
    moreover have "same_files w w3" using w1 r'(1) e'(1) by (blast intro: same_files_trans)
    ultimately show ?thesis using r'(2) e'(2) by (simp add: expendable_same [OF r'(1)] expendable_same [OF w1])
  qed
qed simp

text \<open>Files may disappear, but only those in \<open>P\<close>.\<close>

definition deletes_only :: "(string \<Rightarrow> bool) \<Rightarrow> os \<Rightarrow> os \<Rightarrow> bool" where
  "deletes_only P w w' \<longleftrightarrow>
     (\<forall>p. files w' p = files w p \<or> files w' p = None \<and> P p) \<and> mtddev w' = mtddev w \<and> orc w' = orc w"

lemma deletes_only_trans: "deletes_only P w w1 \<Longrightarrow> deletes_only P w1 w2 \<Longrightarrow> deletes_only P w w2"
  unfolding deletes_only_def by metis

lemma deletes_only_same: "same_files w w' \<Longrightarrow> deletes_only P w w'"
  by (simp add: deletes_only_def same_files_def)

lemma deletes_only_unlink: "sys_unlink p w = (r, w') \<Longrightarrow> P p \<Longrightarrow> deletes_only P w w'"
  by (auto simp: sys_unlink_def deletes_only_def ask_def Let_def split: if_splits)

lemma delete_until_spec:
  "delete_until need ns free w = (free', w') \<Longrightarrow> \<forall>n. Some n \<in> set ns \<longrightarrow> P n \<Longrightarrow> deletes_only P w w'"
proof (induction ns arbitrary: free w)
  case (Cons n ns)
  show ?case
  proof (cases "free < need \<and> n \<noteq> None")
    case True
    then obtain name where n: "n = Some name" by auto
    obtain r w1 where u: "sys_unlink name w = (r, w1)" by (metis prod.exhaust)
    obtain f w2 where f: "FreeSpaceForFile ''/cache'' w1 = (f, w2)" by (metis prod.exhaust)
    have "deletes_only P w w1" using deletes_only_unlink [OF u] Cons.prems(2) n by simp
    moreover have "deletes_only P w1 w2" by (rule deletes_only_same [OF same_files_calls(6) [OF f]])
    moreover have "deletes_only P w2 w'" using Cons.IH [of f w2] Cons.prems True n u f by simp
    ultimately show ?thesis using deletes_only_trans by blast
  qed (use Cons in \<open>auto simp: deletes_only_same split: if_splits\<close>)
qed (simp add: deletes_only_same)

lemma regular_files_names: "regular_files dir ds w = (ns, w') \<Longrightarrow> names w' = names w"
proof (induction ds arbitrary: w ns w')
  case (Cons d ds)
  obtain s w1 where s: "sys_stat (dir @ ''/'' @ d) w = (s, w1)" by (metis prod.exhaust)
  obtain ms w2 where m: "regular_files dir ds w1 = (ms, w2)" by (metis prod.exhaust)
  show ?case using Cons.prems Cons.IH [of w] Cons.IH [OF m] s m names_calls(3) [OF s]
    by (cases "dir @ ''/'' @ d = CACHE_TEMP_SOURCE"; cases s) (auto simp: Let_def)
qed simp

lemma expendable_in_names: "expendable_in dirs w = (ns, w') \<Longrightarrow> names w' = names w"
proof (induction dirs arbitrary: w ns w')
  case (Cons dir dirs)
  obtain l w1 where l: "sys_listdir dir w = (l, w1)" by (metis prod.exhaust)
  obtain n1 w2 where r: "regular_files dir (the l) w1 = (n1, w2)" by (metis prod.exhaust)
  obtain n2 w3 where e: "expendable_in dirs w2 = (n2, w3)" by (metis prod.exhaust)
  show ?case using Cons.prems Cons.IH [of w1] Cons.IH [OF e] l r e names_calls(1) [OF l] regular_files_names [OF r]
    by (cases l) auto
qed simp

text \<open>An expendable file that no process has open, if the system answers all calls.\<close>

definition deletable :: "os \<Rightarrow> string \<Rightarrow> bool" where
  "deletable w path \<longleftrightarrow> expendable w path \<and> ((\<forall>k. 0 \<le> orc w k) \<longrightarrow> \<not> held_open w path)"

lemma deletable_same: "same_files w w' \<Longrightarrow> names w' = names w \<Longrightarrow> deletable w' = deletable w"
  using expendable_same [of w w'] held_open_same [of w' w] by (simp add: deletable_def fun_eq_iff same_files_def)

lemma expendable_cache: "expendable w path \<Longrightarrow> starts_with path ''/cache/''"
  by (auto simp: expendable_def cache_dirs_def file_in_def starts_with_def)

lemma FindExpendableFiles_spec:
  assumes "FindExpendableFiles w = (r, ns, w')"
  shows "same_files w w' \<and> (\<forall>n. Some n \<in> set ns \<longrightarrow> deletable w n)"
proof -
  obtain ms w1 where e: "expendable_in cache_dirs w = (ms, w1)" by (metis prod.exhaust)
  obtain r1 ns1 w2 where o: "EliminateOpenFiles (map Some ms) w1 = (r1, ns1, w2)" by (metis prod.exhaust)
  have e': "same_files w w1" "list_all (expendable w) ms" using expendable_in_spec [OF _ e] by auto
  have "ns = ns1" "w' = w2" using assms e o by (simp_all add: FindExpendableFiles_def)
  moreover have "expendable w n" if "Some n \<in> set ns1" for n
    using e'(2) EliminateOpenFiles_spec [OF o] that by (auto simp: list_all_iff)
  moreover from this have "\<not> held_open w n" if "Some n \<in> set ns1" "\<forall>k. 0 \<le> orc w k" for n
    using EliminateOpenFiles_drops [OF o _ _ expendable_cache [of w n]] that e'(1) held_open_same [OF expendable_in_names [OF e], of n]
    by (auto simp: same_files_def)
  ultimately show ?thesis
    using e' EliminateOpenFiles_spec [OF o] same_files_trans by (auto simp: deletable_def)
qed

lemma MakeFreeSpaceOnCache_deletable:
  assumes "MakeFreeSpaceOnCache need w = (r, w')"
  shows "deletes_only (deletable w) w w' \<and> (r = 0 \<or> r = -1)"
proof -
  obtain f w1 where f: "FreeSpaceForFile ''/cache'' w = (f, w1)" by (metis prod.exhaust)
  obtain r1 ns w2 where n: "FindExpendableFiles w1 = (r1, ns, w2)" by (metis prod.exhaust)
  obtain f' w3 where d: "delete_until need ns f w2 = (f', w3)" by (metis prod.exhaust)
  have w1: "same_files w w1" by (rule same_files_calls(6) [OF f])
  have w2: "same_files w w2" "\<forall>n. Some n \<in> set ns \<longrightarrow> deletable w n"
    using FindExpendableFiles_spec [OF n] same_files_trans [OF w1] deletable_same [OF w1 names_calls(4) [OF f]] by auto
  have "deletes_only (deletable w) w w3"
    using deletes_only_trans [OF deletes_only_same [OF w2(1)] delete_until_spec [OF d w2(2)]] .
  then show ?thesis
    using assms f n d w1 w2 by (auto simp: MakeFreeSpaceOnCache_def Let_def deletes_only_same split: if_splits)
qed

lemma MakeFreeSpaceOnCache_deletes:
  assumes "MakeFreeSpaceOnCache need w = (r, w')"
  shows "deletes_only (expendable w) w w' \<and> (r = 0 \<or> r = -1)"
  using MakeFreeSpaceOnCache_deletable [OF assms] by (auto simp: deletes_only_def deletable_def)

text \<open>
  C19. Making room on the cache, whatever the system answers, returns 0 or -1 and deletes nothing
  but regular files directly in \<open>/cache\<close> and \<open>/cache/recovery/otatest\<close>, not in directories below
  them; the saved source of an interrupted patch is never deleted, no file is changed, and no flash
  device is touched. And if the system answers all calls, no file is deleted that a process has
  open, that is, to which a link \<open>/proc/N/fd/M\<close> leads throughout.
\<close>

theorem free_cache_safe:
  assumes "MakeFreeSpaceOnCache need w = (r, w')" "files w' path \<noteq> files w path"
  shows "(r = 0 \<or> r = -1) \<and> mtddev w' = mtddev w \<and> files w' path = None \<and> path \<noteq> CACHE_TEMP_SOURCE \<and>
    (\<exists>dir \<in> {''/cache'', ''/cache/recovery/otatest''}. \<exists>name. path = dir @ ''/'' @ name \<and> name \<noteq> [] \<and> CHR ''/'' \<notin> set name) \<and>
    (\<exists>ino. files w path = Some ino \<and> S_ISREG (i_mode ino)) \<and>
    ((\<forall>k. 0 \<le> orc w k) \<longrightarrow> \<not> held_open w path)"
  using MakeFreeSpaceOnCache_deletable [OF assms(1)] assms(2)
  unfolding deletes_only_def deletable_def expendable_def cache_dirs_def list.set file_in_def by blast

definition demo_cache :: os where
  "demo_cache = \<lparr>files = [''/cache/a'' \<mapsto> \<lparr>i_data = [1], i_mode = 33188, i_uid = 0, i_gid = 0\<rparr>,
       ''/cache/b'' \<mapsto> \<lparr>i_data = [2], i_mode = 33188, i_uid = 0, i_gid = 0\<rparr>],
     mtddev = Map.empty, orc = (\<lambda>_. 0), noise = (\<lambda>_ bs. bs),
     names = (\<lambda>_ p. if p = ''/cache'' then [''a'', ''b'', ''saved.file''] else if p = ''/proc'' then [''self'', ''7'']
       else if p = ''/proc/7/fd/'' then [''0'', ''3''] else if p = ''/proc/7/fd/3'' then [''/cache/b''] else []),
     clk = 0\<rparr>"

theorem free_cache_safe_witness:
  "files (snd (MakeFreeSpaceOnCache 20 demo_cache)) ''/cache/a'' = None \<and>
   files (snd (MakeFreeSpaceOnCache 20 demo_cache)) ''/cache/b'' = files demo_cache ''/cache/b'' \<and>
   fst (MakeFreeSpaceOnCache 20 demo_cache) \<in> {0, -1}"
proof -
  have a: "files (snd (MakeFreeSpaceOnCache 20 demo_cache)) ''/cache/a'' \<noteq> files demo_cache ''/cache/a''"
    by code_simp
  have "held_open demo_cache ''/cache/b''"
    unfolding held_open_def by (rule exI [of _ "''7''"], rule exI [of _ "''3''"])
      (simp add: dir_entries_def links_to_def demo_cache_def is_digit_def)
  then show ?thesis
    using free_cache_safe [OF surjective_pairing a] free_cache_safe [of 20 demo_cache _ _ "''/cache/b''", OF surjective_pairing]
    by (auto simp: demo_cache_def)
qed

end
