(* ===== verification/Mtd.thy ===== *)
theory Mtd
  imports Os
begin

text \<open>
  Raw flash partitions, \<open>mtdutils/mtdutils.c\<close>: the partition table read from \<open>/proc/mtd\<close>,
  buffered reading that skips bad blocks, buffered writing that verifies every block it
  programs, erasing, and the commands built on them.

  The global \<open>g_mtd_state\<close> is threaded as an \<open>MtdState\<close>. A context carries the offset of its
  file descriptor (\<open>rc_pos\<close>, \<open>wc_pos\<close>); \<open>lseek\<close> to a valid offset of an open device does not
  fail. \<open>unsigned\<close> fields are words, read with \<open>sint\<close> where the code casts them to \<open>int\<close>.
\<close>

unbundle bit_operations_syntax

section \<open>Data\<close>

record MtdPartition =
  device_index :: int
  p_size :: u32
  erase_size :: u32
  p_name :: "string option"

record MtdState =
  partitions :: "MtdPartition list option"
  partitions_allocd :: nat
  partition_count :: int

definition g_mtd_state :: MtdState where
  "g_mtd_state = \<lparr>partitions = None, partitions_allocd = 0, partition_count = -1\<rparr>"

record MtdReadContext =
  rc_part :: MtdPartition
  rc_buffer :: "byte list"
  rc_consumed :: nat
  rc_pos :: nat

record MtdWriteContext =
  wc_part :: MtdPartition
  wc_buffer :: "byte list"
  wc_stored :: nat
  wc_pos :: nat
  bad_block_offsets :: "nat list"
  bad_block_alloc :: nat

abbreviation esize :: "MtdPartition \<Rightarrow> nat" where
  "esize p \<equiv> unat (erase_size p)"

definition text_of :: "byte list \<Rightarrow> string" where
  "text_of bs = map (\<lambda>b. char_of (unat b)) bs"

definition c_string :: "string \<Rightarrow> string" where
  "c_string s = takeWhile (\<lambda>c. c \<noteq> CHR 0x00) s"

text \<open>Whether an allocation succeeds.\<close>

definition sys_alloc :: "os \<Rightarrow> bool \<times> os" where
  "sys_alloc w = (let (v, w) = ask w in (v \<ge> 0, w))"

section \<open>Scanning the partition table\<close>

text \<open>The conversions of \<open>sscanf(bufp, "mtd%d: %x %x \"%63[^\"]", ...)\<close>.\<close>

definition scan_lit :: "string \<Rightarrow> string \<Rightarrow> string option" where
  "scan_lit lit s = (if starts_with s lit then Some (drop (length lit) s) else None)"

definition scan_space :: "string \<Rightarrow> string" where
  "scan_space s = dropWhile is_space s"

definition scan_d :: "string \<Rightarrow> (int \<times> string) option" where
  "scan_d s = (let (v, rest) = strtol s in if rest = s then None else Some (v, rest))"

definition hex_val :: "char \<Rightarrow> nat option" where
  "hex_val c =
     (if CHR ''0'' \<le> c \<and> c \<le> CHR ''9'' then Some (of_char c - 48)
      else if CHR ''a'' \<le> c \<and> c \<le> CHR ''f'' then Some (of_char c - 97 + 10)
      else if CHR ''A'' \<le> c \<and> c \<le> CHR ''F'' then Some (of_char c - 65 + 10)
      else None)"

definition is_hex :: "char \<Rightarrow> bool" where
  "is_hex c \<longleftrightarrow> hex_val c \<noteq> None"

fun hex_digits_val :: "nat \<Rightarrow> string \<Rightarrow> nat" where
  "hex_digits_val acc [] = acc"
| "hex_digits_val acc (c # cs) = hex_digits_val (16 * acc + (case hex_val c of Some d \<Rightarrow> d | None \<Rightarrow> 0)) cs"

definition scan_x :: "string \<Rightarrow> (u32 \<times> string) option" where
  "scan_x s =
     (let t = scan_space s;
          neg = (t \<noteq> [] \<and> hd t = CHR ''-'');
          t = (if t \<noteq> [] \<and> (hd t = CHR ''-'' \<or> hd t = CHR ''+'') then tl t else t);
          u = (if (starts_with t ''0x'' \<or> starts_with t ''0X'') \<and> length t > 2 \<and> is_hex (t ! 2)
               then drop 2 t else t);
          ds = takeWhile is_hex u;
          n = hex_digits_val 0 ds;
          v = (if n > 4294967295 then -1 else if neg then - of_nat n else of_nat n)
      in if ds = [] then None else Some (v, dropWhile is_hex u))"

definition scan_mtd_line :: "string \<Rightarrow> (int \<times> u32 \<times> u32 \<times> string) option" where
  "scan_mtd_line bufp = do {
     s \<leftarrow> scan_lit ''mtd'' bufp;
     (mtdnum, s) \<leftarrow> scan_d s;
     s \<leftarrow> scan_lit '':'' s;
     (mtdsize, s) \<leftarrow> scan_x s;
     (mtderasesize, s) \<leftarrow> scan_x s;
     s \<leftarrow> scan_lit [CHR 0x22] (scan_space s);
     let mtdname = take 63 (takeWhile (\<lambda>c. c \<noteq> CHR 0x22) s);
     if mtdname = [] then None else Some (mtdnum, mtdsize, mtderasesize, mtdname)
   }"

definition eat_line :: "string \<Rightarrow> string" where
  "eat_line s = drop 1 (dropWhile (\<lambda>c. c \<noteq> CHR 0x0A) s)"

lemma eat_line_less [termination_simp]: "s \<noteq> [] \<Longrightarrow> length (eat_line s) < length s"
  using length_dropWhile_le [of "\<lambda>c. c \<noteq> CHR 0x0A" s] length_greater_0_conv [of s]
  unfolding eat_line_def length_drop by linarith

text \<open>One entry of the table is filled per matching line; \<open>Inl\<close> is the \<open>goto bail\<close>.\<close>

function scan_lines :: "string \<Rightarrow> MtdState \<Rightarrow> os \<Rightarrow> ((MtdState + MtdState) \<times> os) option" where
  "scan_lines s st w =
     (if s = [] then Some (Inr st, w)
      else case scan_mtd_line (c_string s) of
          None \<Rightarrow> scan_lines (eat_line s) st w
        | Some (mtdnum, mtdsize, mtderasesize, mtdname) \<Rightarrow>
            (case partitions st of
               None \<Rightarrow> None
             | Some ps \<Rightarrow>
                 if mtdnum < 0 \<or> nat mtdnum \<ge> length ps then None
                 else let (ok, w) = sys_alloc w;
                          p = \<lparr>device_index = mtdnum, p_size = mtdsize, erase_size = mtderasesize,
                               p_name = (if ok then Some mtdname else None)\<rparr>;
                          st = st\<lparr>partitions := Some (ps[nat mtdnum := p])\<rparr>
                      in if \<not> ok then Some (Inl st, w)
                         else scan_lines (eat_line s) (st\<lparr>partition_count := partition_count st + 1\<rparr>) w))"
  by pat_completeness auto
termination
  by (relation "measure (\<lambda>(s, _). length s)") (auto simp: eat_line_less)

definition blank_partition :: MtdPartition where
  "blank_partition = \<lparr>device_index = 0, p_size = 0, erase_size = 0, p_name = None\<rparr>"

definition mtd_scan_partitions :: "MtdState \<Rightarrow> os \<Rightarrow> (int \<times> MtdState \<times> os) option" where
  "mtd_scan_partitions st w =
     (let (ok, w) = (if partitions st = None then sys_alloc w else (True, w))
      in if \<not> ok then Some (-1, st, w)
         else
           let st = (if partitions st = None
                     then st\<lparr>partitions := Some (replicate 32 blank_partition), partitions_allocd := 32\<rparr> else st);
               st = st\<lparr>partition_count := 0,
                       partitions := map_option (map (\<lambda>p. p\<lparr>p_name := None, device_index := -1\<rparr>)) (partitions st)\<rparr>;
               bail = (\<lambda>st w. Some (-1, st\<lparr>partition_count := -1\<rparr>, w));
               (f, w) = sys_open False False 0 ''/proc/mtd'' w
           in (case f of
                 None \<Rightarrow> bail st w
               | Some f \<Rightarrow>
                   let ((nbytes, bs), f, w) = sys_read f 2047 w
                   in if nbytes < 0 then bail st w
                      else do {
                        (r, w) \<leftarrow> scan_lines (text_of bs) st w;
                        (case r of Inl st \<Rightarrow> bail st w | Inr st \<Rightarrow> Some (partition_count st, st, w))
                      }))"

definition mtd_find_partition_by_name :: "MtdState \<Rightarrow> string \<Rightarrow> MtdPartition option" where
  "mtd_find_partition_by_name st name =
     (case partitions st of
        None \<Rightarrow> None
      | Some ps \<Rightarrow>
          find (\<lambda>p. device_index p \<ge> 0 \<and> (case p_name p of None \<Rightarrow> False | Some n \<Rightarrow> strcmp n name = 0))
            (take (partitions_allocd st) ps))"

section \<open>Mounting and information\<close>

definition mtdblock_name :: "MtdPartition \<Rightarrow> string" where
  "mtdblock_name p = ''/dev/block/mtdblock'' @ show_int (device_index p)"

text \<open>Mounting itself only yields a status; the mount point is a path of the file system.\<close>

definition mtd_mount_partition :: "MtdPartition \<Rightarrow> string \<Rightarrow> string \<Rightarrow> bool \<Rightarrow> os \<Rightarrow> int \<times> os" where
  "mtd_mount_partition p mount_point filesystem read_only w =
     (let (rv, w) = (if \<not> read_only then sys_status w else (-1, w));
          (rv, w) = (if read_only \<or> rv < 0 then sys_status w else (rv, w))
      in if rv \<ge> 0
         then case sys_stat mount_point w of
             (Inl e, w) \<Rightarrow> (-1, w)
           | (Inr st, w) \<Rightarrow>
               let new_mode = i_mode st OR 73
               in if new_mode \<noteq> i_mode st then sys_chmod mount_point new_mode w else (0, w)
         else (rv, w))"

definition sys_open_mtd :: "MtdPartition \<Rightarrow> os \<Rightarrow> bool \<times> os" where
  "sys_open_mtd p w = (let (v, w) = ask w in (v \<ge> 0 \<and> mtddev w (device_index p) \<noteq> None, w))"

text \<open>Total size, erase size and write size, or the error.\<close>

definition mtd_partition_info :: "MtdPartition \<Rightarrow> os \<Rightarrow> (nat \<times> int \<times> int) option \<times> os" where
  "mtd_partition_info p w =
     (let (ok, w) = sys_open_mtd p w
      in if \<not> ok then (None, w)
         else let (ret, w) = ask w; (erasesize, w) = ask w; (writesize, w) = ask w
              in if ret < 0 then (None, w)
                 else (Some (length (flash_bytes w (device_index p)), erasesize, writesize), w))"

section \<open>Reading\<close>

definition mtd_read_partition :: "MtdPartition \<Rightarrow> os \<Rightarrow> MtdReadContext option \<times> os" where
  "mtd_read_partition p w =
     (let (ok, w) = sys_alloc w
      in if \<not> ok then (None, w)
         else let (ok, w) = sys_alloc w
              in if \<not> ok then (None, w)
                 else let (ok, w) = sys_open_mtd p w
                      in if \<not> ok then (None, w)
                         else (Some \<lparr>rc_part = p, rc_buffer = replicate (esize p) 0,
                                     rc_consumed = esize p, rc_pos = 0\<rparr>, w))"

definition mtd_read_skip_to :: "MtdReadContext \<Rightarrow> nat \<Rightarrow> MtdReadContext" where
  "mtd_read_skip_to ctx offset = ctx\<lparr>rc_pos := offset\<rparr>"

text \<open>
  The status, the bytes of the block and the offset of the descriptor afterwards, which is at
  \<open>fdpos\<close> before: after a failed read it is behind the bytes that were read.
\<close>

partial_function (option) read_block_loop ::
  "MtdPartition \<Rightarrow> int \<Rightarrow> nat \<Rightarrow> nat \<Rightarrow> os \<Rightarrow> (int \<times> byte list \<times> nat \<times> os) option" where
  [code]: "read_block_loop p before pos fdpos w =
     (if int pos + sint (erase_size p) \<le> sint (p_size p)
      then let ((n, bs), w) = flash_read (device_index p) pos (esize p) w; fdpos = pos + length bs
           in if n \<noteq> sint (erase_size p) then read_block_loop p before (pos + esize p) fdpos w
              else let (after, w) = ask w
                   in if after < 0 then Some (-1, bs, fdpos, w)
                      else if after \<noteq> before then read_block_loop p after (pos + esize p) fdpos w
                      else if flash_bad w (device_index p) pos \<noteq> 0
                      then read_block_loop p before (pos + esize p) fdpos w
                      else Some (0, bs, fdpos, w)
      else Some (-1, [], fdpos, w))"

definition read_block :: "MtdPartition \<Rightarrow> nat \<Rightarrow> os \<Rightarrow> (int \<times> byte list \<times> nat \<times> os) option" where
  "read_block p pos w =
     (let (before, w) = ask w
      in if before < 0 then Some (-1, [], pos, w)
         else if sint (erase_size p) < 0 then None
         else read_block_loop p before pos pos w)"

text \<open>Complete blocks are read straight into the caller's memory, here the list \<open>acc\<close>.\<close>

partial_function (option) read_direct ::
  "MtdReadContext \<Rightarrow> nat \<Rightarrow> byte list \<Rightarrow> os \<Rightarrow> (bool \<times> MtdReadContext \<times> byte list \<times> os) option" where
  [code]: "read_direct ctx len acc w =
     (if rc_consumed ctx = esize (rc_part ctx) \<and> len - length acc \<ge> esize (rc_part ctx)
      then do {
        (r, bs, pos, w) \<leftarrow> read_block (rc_part ctx) (rc_pos ctx) w;
        if r \<noteq> 0 then Some (False, ctx\<lparr>rc_pos := pos\<rparr>, acc, w)
        else read_direct (ctx\<lparr>rc_pos := pos\<rparr>) len (acc @ bs) w
      }
      else Some (True, ctx, acc, w))"

text \<open>The loop compares with \<open>(int) len\<close>, where \<open>len\<close> is a \<open>size_t\<close>.\<close>

definition int_of_size :: "nat \<Rightarrow> int" where
  "int_of_size len = sint (of_nat len :: u32)"

partial_function (option) mtd_read_loop ::
  "MtdReadContext \<Rightarrow> nat \<Rightarrow> byte list \<Rightarrow> os \<Rightarrow> (int \<times> byte list \<times> MtdReadContext \<times> os) option" where
  [code]: "mtd_read_loop ctx len acc w =
     (if int (length acc) < int_of_size len
      then do {
        (ctx, acc) \<leftarrow>
          (if rc_consumed ctx < esize (rc_part ctx)
           then let copy = min (len - length acc) (esize (rc_part ctx) - rc_consumed ctx)
                in do {
                  bs \<leftarrow> slice (rc_buffer ctx) (rc_consumed ctx) copy;
                  Some (ctx\<lparr>rc_consumed := rc_consumed ctx + copy\<rparr>, acc @ bs)
                }
           else Some (ctx, acc));
        (ok, ctx, acc, w) \<leftarrow> read_direct ctx len acc w;
        if \<not> ok then Some (-1, acc, ctx, w)
        else if int (length acc) \<ge> int_of_size len then Some (int (length acc), acc, ctx, w)
        else if rc_consumed ctx = esize (rc_part ctx) \<and> int (length acc) < int_of_size len
        then do {
          (r, bs, pos, w) \<leftarrow> read_block (rc_part ctx) (rc_pos ctx) w;
          if r \<noteq> 0 then Some (-1, acc, ctx\<lparr>rc_pos := pos\<rparr>, w)
          else mtd_read_loop (ctx\<lparr>rc_pos := pos, rc_buffer := bs, rc_consumed := 0\<rparr>) len acc w
        }
        else mtd_read_loop ctx len acc w
      }
      else Some (int (length acc), acc, ctx, w))"

text \<open>The returned count, the bytes stored from \<open>data\<close> on, the context and the state.\<close>

definition mtd_read_data ::
  "MtdReadContext \<Rightarrow> nat \<Rightarrow> os \<Rightarrow> (int \<times> byte list \<times> MtdReadContext \<times> os) option" where
  "mtd_read_data ctx len w = mtd_read_loop ctx len [] w"

definition mtd_read_close :: "MtdReadContext \<Rightarrow> os \<Rightarrow> os" where
  "mtd_read_close ctx w = snd (sys_status w)"

section \<open>Writing\<close>

definition mtd_write_partition :: "MtdPartition \<Rightarrow> os \<Rightarrow> MtdWriteContext option \<times> os" where
  "mtd_write_partition p w =
     (let (ok, w) = sys_alloc w
      in if \<not> ok then (None, w)
         else let (ok, w) = sys_alloc w
              in if \<not> ok then (None, w)
                 else let (ok, w) = sys_open_mtd p w
                      in if \<not> ok then (None, w)
                         else (Some \<lparr>wc_part = p, wc_buffer = replicate (esize p) 0, wc_stored = 0,
                                     wc_pos = 0, bad_block_offsets = [], bad_block_alloc = 0\<rparr>, w))"

definition add_bad_block_offset :: "MtdWriteContext \<Rightarrow> nat \<Rightarrow> MtdWriteContext" where
  "add_bad_block_offset ctx pos =
     ctx\<lparr>bad_block_alloc := (if length (bad_block_offsets ctx) + 1 > bad_block_alloc ctx
                             then bad_block_alloc ctx * 2 + 1 else bad_block_alloc ctx),
         bad_block_offsets := bad_block_offsets ctx @ [pos]\<rparr>"

text \<open>
  The attempts to program one block: erase, write, read back, compare. The result is whether
  an attempt succeeded and the offset the descriptor is left at.
\<close>

fun write_attempts ::
  "nat \<Rightarrow> MtdPartition \<Rightarrow> nat \<Rightarrow> byte list \<Rightarrow> nat \<Rightarrow> os \<Rightarrow> bool \<times> nat \<times> os" where
  "write_attempts 0 p pos data fdpos w = (False, fdpos, w)"
| "write_attempts (Suc retries) p pos data fdpos w =
     (let (e, w) = ioctl_MEMERASE (device_index p) pos (esize p) w
      in if e < 0 then write_attempts retries p pos data fdpos w
         else let (wrote, w) = flash_write (device_index p) pos data w;
                  ((n, verify), w) = flash_read (device_index p) pos (esize p) w
              in if n \<noteq> int (esize p) then write_attempts retries p pos data (pos + length verify) w
                 else if data \<noteq> verify then write_attempts retries p pos data (pos + length verify) w
                 else (True, pos + length verify, w))"

partial_function (option) write_block_loop ::
  "MtdWriteContext \<Rightarrow> byte list \<Rightarrow> nat \<Rightarrow> os \<Rightarrow> (int \<times> MtdWriteContext \<times> os) option" where
  [code]: "write_block_loop ctx data pos w = do {
     e \<leftarrow> c_int (int pos + sint (erase_size (wc_part ctx)));
     if e \<le> sint (p_size (wc_part ctx))
     then
       let ret = flash_bad w (device_index (wc_part ctx)) pos
       in if ret \<noteq> 0 \<and> ret \<noteq> - EOPNOTSUPP
          then write_block_loop (add_bad_block_offset ctx pos) data (pos + esize (wc_part ctx)) w
          else
            let (ok, fdpos, w) = write_attempts 2 (wc_part ctx) pos data (wc_pos ctx) w;
                ctx = ctx\<lparr>wc_pos := fdpos\<rparr>
            in if ok then Some (0, ctx, w)
               else let (_, w) = ioctl_MEMERASE (device_index (wc_part ctx)) pos (esize (wc_part ctx)) w
                    in write_block_loop (add_bad_block_offset ctx pos) data (pos + esize (wc_part ctx)) w
     else Some (-1, ctx, w)
   }"

text \<open>The block programmed is the first \<open>erase_size\<close> bytes at \<open>data\<close>.\<close>

definition write_block :: "MtdWriteContext \<Rightarrow> byte list \<Rightarrow> os \<Rightarrow> (int \<times> MtdWriteContext \<times> os) option" where
  "write_block ctx data w =
     (let (ok, w) = sys_alloc w
      in if \<not> ok then Some (1, ctx, w)
         else if sint (erase_size (wc_part ctx)) < 0 then None
         else do {
           blk \<leftarrow> slice data 0 (esize (wc_part ctx));
           write_block_loop ctx blk (wc_pos ctx) w
         })"

partial_function (option) write_direct ::
  "MtdWriteContext \<Rightarrow> byte list \<Rightarrow> nat \<Rightarrow> os \<Rightarrow> (bool \<times> nat \<times> MtdWriteContext \<times> os) option" where
  [code]: "write_direct ctx data wrote w =
     (if wc_stored ctx = 0 \<and> length data - wrote \<ge> esize (wc_part ctx)
      then do {
        (r, ctx, w) \<leftarrow> write_block ctx (drop wrote data) w;
        if r \<noteq> 0 then Some (False, wrote, ctx, w)
        else write_direct ctx data (wrote + esize (wc_part ctx)) w
      }
      else Some (True, wrote, ctx, w))"

partial_function (option) mtd_write_loop ::
  "MtdWriteContext \<Rightarrow> byte list \<Rightarrow> nat \<Rightarrow> os \<Rightarrow> (int \<times> MtdWriteContext \<times> os) option" where
  [code]: "mtd_write_loop ctx data wrote w =
     (if wrote < length data
      then do {
        (ctx, wrote) \<leftarrow>
          (if wc_stored ctx > 0 \<or> length data - wrote < esize (wc_part ctx)
           then let copy = min (length data - wrote) (esize (wc_part ctx) - wc_stored ctx)
                in do {
                  buf \<leftarrow> blit (wc_buffer ctx) (wc_stored ctx) (take copy (drop wrote data));
                  Some (ctx\<lparr>wc_buffer := buf, wc_stored := wc_stored ctx + copy\<rparr>, wrote + copy)
                }
           else Some (ctx, wrote));
        (r, ctx, w) \<leftarrow>
          (if wc_stored ctx = esize (wc_part ctx)
           then do {
             (r, ctx, w) \<leftarrow> write_block ctx (wc_buffer ctx) w;
             Some (r, if r \<noteq> 0 then ctx else ctx\<lparr>wc_stored := 0\<rparr>, w)
           }
           else Some (0, ctx, w));
        if r \<noteq> 0 then Some (-1, ctx, w)
        else do {
          (ok, wrote, ctx, w) \<leftarrow> write_direct ctx data wrote w;
          if \<not> ok then Some (-1, ctx, w) else mtd_write_loop ctx data wrote w
        }
      }
      else Some (int wrote, ctx, w))"

definition mtd_write_data :: "MtdWriteContext \<Rightarrow> byte list \<Rightarrow> os \<Rightarrow> (int \<times> MtdWriteContext \<times> os) option" where
  "mtd_write_data ctx data w = mtd_write_loop ctx data 0 w"

fun erase_loop :: "nat \<Rightarrow> MtdPartition \<Rightarrow> nat \<Rightarrow> os \<Rightarrow> nat \<times> os" where
  "erase_loop 0 p pos w = (pos, w)"
| "erase_loop (Suc blocks) p pos w =
     (if flash_bad w (device_index p) pos > 0 then erase_loop blocks p (pos + esize p) w
      else let (_, w) = ioctl_MEMERASE (device_index p) pos (esize p) w
           in erase_loop blocks p (pos + esize p) w)"

text \<open>Zero-padding and writing the pending data, and erasing \<open>blocks\<close> blocks from there.\<close>

definition flush_pending :: "MtdWriteContext \<Rightarrow> os \<Rightarrow> (int \<times> MtdWriteContext \<times> os) option" where
  "flush_pending ctx w =
     (if wc_stored ctx > 0
      then do {
        buf \<leftarrow> blit (wc_buffer ctx) (wc_stored ctx) (replicate (esize (wc_part ctx) - wc_stored ctx) 0);
        (r, ctx, w) \<leftarrow> write_block (ctx\<lparr>wc_buffer := buf\<rparr>) buf w;
        Some (r, if r \<noteq> 0 then ctx else ctx\<lparr>wc_stored := 0\<rparr>, w)
      }
      else Some (0, ctx, w))"

definition erase_from :: "MtdWriteContext \<Rightarrow> int \<Rightarrow> os \<Rightarrow> (int \<times> MtdWriteContext \<times> os) option" where
  "erase_from ctx blocks w =
     (if erase_size (wc_part ctx) = 0 then None
      else let total = sint ((p_size (wc_part ctx) - of_nat (wc_pos ctx)) div erase_size (wc_part ctx));
               blocks = (if blocks < 0 then total else blocks)
           in if blocks > total then Some (-1, ctx, w)
              else let (pos, w) = erase_loop (nat blocks) (wc_part ctx) (wc_pos ctx) w
                   in Some (int pos, ctx, w))"

definition mtd_erase_blocks :: "MtdWriteContext \<Rightarrow> int \<Rightarrow> os \<Rightarrow> (int \<times> MtdWriteContext \<times> os) option" where
  "mtd_erase_blocks ctx blocks w = do {
     (r, ctx, w) \<leftarrow> flush_pending ctx w;
     if r \<noteq> 0 then Some (-1, ctx, w) else erase_from ctx blocks w
   }"

definition mtd_write_close :: "MtdWriteContext \<Rightarrow> os \<Rightarrow> (int \<times> os) option" where
  "mtd_write_close ctx w = do {
     (e, ctx, w) \<leftarrow> mtd_erase_blocks ctx 0 w;
     let (c, w) = sys_status w
     in Some (if e = -1 \<or> c \<noteq> 0 then -1 else 0, w)
   }"

fun find_write_start :: "nat \<Rightarrow> nat list \<Rightarrow> nat \<Rightarrow> nat" where
  "find_write_start es [] pos = pos"
| "find_write_start es (b # bs) pos =
     (if b = pos then find_write_start es bs (pos + es)
      else if b > pos then pos else find_write_start es bs pos)"

definition mtd_find_write_start :: "MtdWriteContext \<Rightarrow> nat \<Rightarrow> nat" where
  "mtd_find_write_start ctx pos = find_write_start (esize (wc_part ctx)) (bad_block_offsets ctx) pos"

section \<open>Commands\<close>

abbreviation BUFSIZ :: nat where "BUFSIZ \<equiv> 1024"
abbreviation BLOCK_SIZE :: nat where "BLOCK_SIZE \<equiv> 2048"

partial_function (option) restore_loop ::
  "fd \<Rightarrow> MtdWriteContext \<Rightarrow> os \<Rightarrow> (bool \<times> MtdWriteContext \<times> os) option" where
  [code]: "restore_loop f ctx w =
     (let (bs, f, w) = sys_fread f BUFSIZ w
      in if bs = [] then Some (True, ctx, w)
         else do {
           (wrote, ctx, w) \<leftarrow> mtd_write_data ctx bs w;
           if wrote = int (length bs) then restore_loop f ctx w else Some (False, ctx, w)
         })"

definition cmd_mtd_restore_raw_partition ::
  "string \<Rightarrow> string \<Rightarrow> MtdState \<Rightarrow> os \<Rightarrow> (int \<times> MtdState \<times> os) option" where
  "cmd_mtd_restore_raw_partition partition_name filename st w =
     (case sys_open False False 0 filename w of
        (None, w) \<Rightarrow> Some (-1, st, w)
      | (Some f, w) \<Rightarrow> do {
          (n, st, w) \<leftarrow> mtd_scan_partitions st w;
          if n \<le> 0 then Some (-1, st, w)
          else case mtd_find_partition_by_name st partition_name of
              None \<Rightarrow> Some (-1, st, w)
            | Some mtd \<Rightarrow>
                (case sys_open False False 0 filename w of
                   (None, w) \<Rightarrow> Some (-1, st, w)
                 | (Some _, w) \<Rightarrow>
                     (case mtd_write_partition mtd w of
                        (None, w) \<Rightarrow> Some (-1, st, w)
                      | (Some ctx, w) \<Rightarrow> do {
                          (success, ctx, w) \<leftarrow> restore_loop f ctx w;
                          let (_, w) = sys_status w
                          in if \<not> success then Some (-1, st, w)
                             else do {
                               (_, ctx, w) \<leftarrow> mtd_erase_blocks ctx (-1) w;
                               (_, w) \<leftarrow> mtd_write_close ctx w;
                               Some (0, st, w)
                             }
                        }))
        })"

text \<open>Whether everything was written; the output descriptor is at its end.\<close>

partial_function (option) backup_loop ::
  "MtdReadContext \<Rightarrow> fd \<Rightarrow> os \<Rightarrow> (bool \<times> MtdReadContext \<times> os) option" where
  [code]: "backup_loop in_ctx f w = do {
     (len, bs, in_ctx, w) \<leftarrow> mtd_read_data in_ctx BLOCK_SIZE w;
     if len > 0
     then let (wrote, f, w) = sys_write f bs w
          in if wrote \<noteq> len then Some (False, in_ctx, w) else backup_loop in_ctx f w
     else Some (True, in_ctx, w)
   }"

definition cmd_mtd_backup_raw_partition ::
  "string \<Rightarrow> string \<Rightarrow> MtdState \<Rightarrow> os \<Rightarrow> (int \<times> MtdState \<times> os) option" where
  "cmd_mtd_backup_raw_partition partition_name filename st w = do {
     (n, st, w) \<leftarrow> mtd_scan_partitions st w;
     if n \<le> 0 then Some (-1, st, w)
     else case mtd_find_partition_by_name st partition_name of
         None \<Rightarrow> Some (-1, st, w)
       | Some p \<Rightarrow>
           (case mtd_partition_info p w of
              (None, w) \<Rightarrow> Some (-1, st, w)
            | (Some _, w) \<Rightarrow>
                (case (if filename = ''-'' then (Some \<lparr>f_path = ''/dev/stdout'', f_pos = 0\<rparr>, w)
                       else sys_open True True 438 filename w) of
                   (None, w) \<Rightarrow> Some (-1, st, w)
                 | (Some f, w) \<Rightarrow>
                     (case mtd_read_partition p w of
                        (None, w) \<Rightarrow>
                          let (_, w) = sys_status w; (_, w) = sys_unlink filename w in Some (-1, st, w)
                      | (Some ctx, w) \<Rightarrow> do {
                          (ok, ctx, w) \<leftarrow> backup_loop ctx f w;
                          if \<not> ok
                          then let (_, w) = sys_status w; (_, w) = sys_unlink filename w in Some (-1, st, w)
                          else let w = mtd_read_close ctx w; (c, w) = sys_status w
                               in if c \<noteq> 0 then let (_, w) = sys_unlink filename w in Some (-1, st, w)
                                  else Some (0, st, w)
                        })))
   }"

definition cmd_mtd_erase_raw_partition :: "string \<Rightarrow> MtdState \<Rightarrow> os \<Rightarrow> (int \<times> MtdState \<times> os) option" where
  "cmd_mtd_erase_raw_partition partition_name st w = do {
     (n, st, w) \<leftarrow> mtd_scan_partitions st w;
     if n \<le> 0 then Some (-1, st, w)
     else case mtd_find_partition_by_name st partition_name of
         None \<Rightarrow> Some (-1, st, w)
       | Some p \<Rightarrow>
           (case mtd_write_partition p w of
              (None, w) \<Rightarrow> Some (-1, st, w)
            | (Some out, w) \<Rightarrow> do {
                (erased, out, w) \<leftarrow> mtd_erase_blocks out (-1) w;
                Some (if erased = 0 then -1 else 0, st, w)
              })
   }"

definition cmd_mtd_erase_partition ::
  "string \<Rightarrow> string \<Rightarrow> MtdState \<Rightarrow> os \<Rightarrow> (int \<times> MtdState \<times> os) option" where
  "cmd_mtd_erase_partition partition_name filesystem st w = cmd_mtd_erase_raw_partition partition_name st w"

definition cmd_mtd_mount_partition ::
  "string \<Rightarrow> string \<Rightarrow> string \<Rightarrow> bool \<Rightarrow> MtdState \<Rightarrow> os \<Rightarrow> (int \<times> MtdState \<times> os) option" where
  "cmd_mtd_mount_partition partition_name mount_point filesystem read_only st w = do {
     (_, st, w) \<leftarrow> mtd_scan_partitions st w;
     case mtd_find_partition_by_name st partition_name of
       None \<Rightarrow> Some (-1, st, w)
     | Some p \<Rightarrow> let (rv, w) = mtd_mount_partition p mount_point filesystem read_only w in Some (rv, st, w)
   }"

definition cmd_mtd_get_partition_device ::
  "string \<Rightarrow> MtdState \<Rightarrow> os \<Rightarrow> ((int \<times> string) \<times> MtdState \<times> os) option" where
  "cmd_mtd_get_partition_device partition_name st w = do {
     (_, st, w) \<leftarrow> mtd_scan_partitions st w;
     case mtd_find_partition_by_name st partition_name of
       None \<Rightarrow> Some ((-1, []), st, w)
     | Some p \<Rightarrow> Some ((0, mtdblock_name p), st, w)
   }"

section \<open>What a partition holds\<close>

text \<open>
  The bytes of the blocks number \<open>k\<close> to \<open>n - 1\<close> of the flash contents \<open>d\<close>, without the blocks
  whose offset is in \<open>B\<close>.
\<close>

definition good_blocks :: "byte list \<Rightarrow> nat \<Rightarrow> nat set \<Rightarrow> nat \<Rightarrow> nat \<Rightarrow> byte list" where
  "good_blocks d es B k n = concat (map (\<lambda>i. if i * es \<in> B then [] else take es (drop (i * es) d)) [k..<n])"

lemma good_blocks_split: "k \<le> m \<Longrightarrow> m \<le> n \<Longrightarrow> good_blocks d es B k n = good_blocks d es B k m @ good_blocks d es B m n"
  using upt_add_eq_append [of k m "n - m"] by (simp add: good_blocks_def)

lemma good_blocks_Suc: "k \<le> n \<Longrightarrow>
    good_blocks d es B k (Suc n) = good_blocks d es B k n @ (if n * es \<in> B then [] else take es (drop (n * es) d))"
  by (simp add: good_blocks_def)

lemma good_blocks_empty [simp]: "good_blocks d es B n n = []"
  by (simp add: good_blocks_def)

lemma good_blocks_cong:
  assumes "\<And>i. k \<le> i \<Longrightarrow> i < n \<Longrightarrow> i * es \<in> B \<longleftrightarrow> i * es \<in> B'" and "take (n * es) d = take (n * es) d'"
  shows "good_blocks d es B k n = good_blocks d' es B' k n"
proof -
  have "take es (drop (i * es) d) = take es (drop (i * es) d')" if "i < n" for i
  proof -
    have le: "i * es + es \<le> n * es" using that by (metis Suc_leI mult_Suc add.commute mult_le_mono1)
    have "take es (drop (i * es) x) = take es (drop (i * es) (take (n * es) x))" for x :: "byte list"
      using le by (simp add: drop_take min_def)
    then show ?thesis using assms(2) by metis
  qed
  then show ?thesis unfolding good_blocks_def using assms(1)
    by (intro arg_cong [of _ _ concat] map_cong) auto
qed

section \<open>Programming a block\<close>

text \<open>Only the bytes of device \<open>dev\<close> between \<open>lo\<close> and \<open>hi\<close> differ.\<close>

definition flash_frame :: "int \<Rightarrow> nat \<Rightarrow> nat \<Rightarrow> os \<Rightarrow> os \<Rightarrow> bool" where
  "flash_frame dev lo hi w w' \<longleftrightarrow>
     length (flash_bytes w' dev) = length (flash_bytes w dev) \<and>
     take lo (flash_bytes w' dev) = take lo (flash_bytes w dev) \<and>
     drop hi (flash_bytes w' dev) = drop hi (flash_bytes w dev) \<and>
     (\<forall>q. flash_bad w' dev q = flash_bad w dev q) \<and>
     (\<forall>dev'. dev' \<noteq> dev \<longrightarrow> mtddev w' dev' = mtddev w dev') \<and> files w' = files w"

lemma flash_frame_refl [simp]: "flash_frame dev lo hi w w"
  by (simp add: flash_frame_def)

lemma flash_frame_trans:
  "flash_frame dev lo hi w w' \<Longrightarrow> flash_frame dev lo hi w' w'' \<Longrightarrow> flash_frame dev lo hi w w''"
  by (simp add: flash_frame_def)

lemma take_eq_mono: "take n xs = take n ys \<Longrightarrow> m \<le> n \<Longrightarrow> take m xs = take m ys"
  by (metis min.absorb1 take_take)

lemma drop_eq_mono: "drop n xs = drop n ys \<Longrightarrow> n \<le> m \<Longrightarrow> drop m xs = drop m ys"
  by (metis drop_drop le_add_diff_inverse2)

lemma flash_frame_mono:
  "flash_frame dev lo hi w w' \<Longrightarrow> lo' \<le> lo \<Longrightarrow> hi \<le> hi' \<Longrightarrow> flash_frame dev lo' hi' w w'"
  unfolding flash_frame_def using take_eq_mono drop_eq_mono by fast

lemma flash_bytes_ask [simp]: "flash_bytes (snd (ask w)) dev = flash_bytes w dev"
  by (simp add: flash_bytes_def)

lemma flash_bad_ask [simp]: "flash_bad (snd (ask w)) dev = flash_bad w dev"
  by (simp add: flash_bad_def fun_eq_iff)

lemma flash_frame_ask [simp]: "flash_frame dev lo hi w (snd (ask w))"
  by (simp add: flash_frame_def flash_bad_def)

lemma flash_frame_asked: "ask w = (v, w') \<Longrightarrow> flash_frame dev lo hi w w'"
  by (metis flash_frame_ask snd_conv)

lemma flash_frame_store:
  "pos + length bs \<le> hi \<Longrightarrow> flash_frame dev pos hi w (flash_store w dev pos bs)"
  by (auto simp: flash_frame_def flash_store_def flash_bytes_def flash_bad_def blit_def min_def
      split: option.splits)

lemma flash_frame_step:
  "pos + length bs \<le> hi \<Longrightarrow> flash_frame dev pos hi w (flash_store (snd (ask w)) dev pos bs)"
  by (rule flash_frame_trans [OF flash_frame_ask flash_frame_store])

lemma erase_frame:
  "ioctl_MEMERASE dev pos n w = (e, w') \<Longrightarrow> flash_frame dev pos (pos + n) w w'"
  using flash_frame_step [of pos "replicate n 0xFF" "pos + n" dev w]
  by (auto simp: ioctl_MEMERASE_def split_beta flash_frame_asked split: if_splits)

lemma write_frame:
  assumes "flash_write dev pos bs w = (r, w')" "length bs \<le> n"
  shows "flash_frame dev pos (pos + n) w w'"
  using assms flash_frame_step [of pos "stored_as (snd (ask w))
      (take (min (nat (fst (ask w))) (length (flash_bytes w dev) - pos)) bs)" "pos + n" dev w]
  by (auto simp: flash_write_def split_beta Let_def flash_frame_asked split: if_splits)

lemma read_frame:
  assumes "flash_read dev pos n w = ((r, bs), w')"
  shows "flash_frame dev lo hi w w'" "take (length bs) (drop pos (flash_bytes w' dev)) = bs"
    "r \<ge> 0 \<Longrightarrow> r = int (length bs)" "length bs \<le> n"
  using assms by (auto simp: flash_read_def split_beta Let_def min_def split: if_splits)

lemma write_attempts_spec:
  assumes "write_attempts retries p pos data fdpos w = (ok, fdpos', w')" "length data = esize p"
  shows "flash_frame (device_index p) pos (pos + esize p) w w' \<and>
    (ok \<longrightarrow> fdpos' = pos + esize p \<and> take (esize p) (drop pos (flash_bytes w' (device_index p))) = data)"
  using assms
proof (induction retries arbitrary: fdpos w)
  case (Suc retries)
  obtain e w1 where e: "ioctl_MEMERASE (device_index p) pos (esize p) w = (e, w1)" by fastforce
  obtain wr w2 where wr: "flash_write (device_index p) pos data w1 = (wr, w2)" by fastforce
  obtain n verify w3 where rd: "flash_read (device_index p) pos (esize p) w2 = ((n, verify), w3)"
    by (metis prod.exhaust)
  note f1 = erase_frame [OF e] and f3 = read_frame [OF rd]
  have f2: "flash_frame (device_index p) pos (pos + esize p) w1 w2"
    by (rule write_frame [OF wr]) (simp add: Suc.prems)
  have f: "flash_frame (device_index p) pos (pos + esize p) w w3"
    using f1 f2 f3(1) flash_frame_trans by blast
  have len: "length verify = esize p" if "n = int (esize p)"
    using that f3(3) by (metis nat_int of_nat_0_le_iff)
  consider "e < 0" | "e \<ge> 0" "n \<noteq> int (esize p) \<or> data \<noteq> verify" | "e \<ge> 0" "n = int (esize p)" "data = verify"
    by linarith
  then show ?case
  proof cases
    case 1
    then have "write_attempts retries p pos data fdpos w1 = (ok, fdpos', w')" using Suc.prems e by simp
    then show ?thesis using Suc.IH Suc.prems(2) f1 flash_frame_trans by blast
  next
    case 2
    then have "write_attempts retries p pos data (pos + length verify) w3 = (ok, fdpos', w')"
      using Suc.prems e wr rd by (auto split: if_splits)
    then show ?thesis using Suc.IH Suc.prems(2) f flash_frame_trans by blast
  next
    case 3
    then have r: "fdpos' = pos + length verify" "w' = w3" using Suc.prems e wr rd by auto
    have "take (esize p) (drop pos (flash_bytes w3 (device_index p))) = data" using f3(2) len 3 by metis
    then show ?thesis unfolding r using f len [OF 3(2)] by simp
  qed
qed simp

section \<open>The written stream\<close>

text \<open>
  \<open>stream_at ctx w n s\<close>: of the blocks before block \<open>n\<close>, those given up are recorded, all
  others are not marked bad, and these hold exactly the bytes \<open>s\<close>.
\<close>

definition stream_at :: "MtdWriteContext \<Rightarrow> os \<Rightarrow> nat \<Rightarrow> byte list \<Rightarrow> bool" where
  "stream_at ctx w n s \<longleftrightarrow>
     (\<forall>b \<in> set (bad_block_offsets ctx). b < n * esize (wc_part ctx)) \<and>
     (\<forall>i < n. i * esize (wc_part ctx) \<notin> set (bad_block_offsets ctx) \<longrightarrow>
        flash_bad w (device_index (wc_part ctx)) (i * esize (wc_part ctx)) \<in> {0, - EOPNOTSUPP}) \<and>
     good_blocks (flash_bytes w (device_index (wc_part ctx))) (esize (wc_part ctx))
       (set (bad_block_offsets ctx)) 0 n = s"

definition same_buffer :: "MtdWriteContext \<Rightarrow> MtdWriteContext \<Rightarrow> bool" where
  "same_buffer ctx ctx' \<longleftrightarrow>
     wc_part ctx' = wc_part ctx \<and> wc_buffer ctx' = wc_buffer ctx \<and> wc_stored ctx' = wc_stored ctx"

lemma stream_frame:
  assumes "stream_at ctx w n s"
    "flash_frame (device_index (wc_part ctx)) (n * esize (wc_part ctx)) hi w w'"
  shows "stream_at ctx w' n s"
proof -
  have "good_blocks (flash_bytes w (device_index (wc_part ctx))) (esize (wc_part ctx)) B 0 n =
        good_blocks (flash_bytes w' (device_index (wc_part ctx))) (esize (wc_part ctx)) B 0 n" for B
    using assms(2) by (intro good_blocks_cong) (auto simp: flash_frame_def)
  then show ?thesis using assms by (simp add: stream_at_def flash_frame_def)
qed

lemma stream_give_up:
  assumes "stream_at ctx w n s" "0 < esize (wc_part ctx)"
  shows "stream_at (add_bad_block_offset ctx (n * esize (wc_part ctx))) w (Suc n) s"
proof -
  let ?es = "esize (wc_part ctx)" and ?B = "set (bad_block_offsets ctx)"
  have "good_blocks d ?es (insert (n * ?es) ?B) 0 n = good_blocks d ?es ?B 0 n" for d
    using assms(2) by (intro good_blocks_cong) auto
  then show ?thesis
    using assms by (auto simp: stream_at_def add_bad_block_offset_def good_blocks_Suc less_Suc_eq)
qed

lemma stream_program:
  assumes "stream_at ctx w n s" "0 < esize (wc_part ctx)"
    "take (esize (wc_part ctx)) (drop (n * esize (wc_part ctx)) (flash_bytes w (device_index (wc_part ctx)))) = blk"
    "flash_bad w (device_index (wc_part ctx)) (n * esize (wc_part ctx)) \<in> {0, - EOPNOTSUPP}"
  shows "stream_at (ctx\<lparr>wc_pos := q\<rparr>) w (Suc n) (s @ blk)"
proof -
  have "n * esize (wc_part ctx) \<notin> set (bad_block_offsets ctx)" using assms(1) by (auto simp: stream_at_def)
  then show ?thesis using assms by (auto simp: stream_at_def good_blocks_Suc less_Suc_eq)
qed

text \<open>A partition as \<open>/proc/mtd\<close> describes it: its size and one more block fit an \<open>int\<close>.\<close>

definition part_ok :: "MtdPartition \<Rightarrow> bool" where
  "part_ok p \<longleftrightarrow> 0 < esize p \<and> unat (p_size p) + esize p < 2147483648"

lemma part_ok_sint:
  "part_ok p \<Longrightarrow> sint (erase_size p) = int (esize p)" "part_ok p \<Longrightarrow> sint (p_size p) = int (unat (p_size p))"
  using sint_small [of "erase_size p"] sint_small [of "p_size p"] by (simp_all add: part_ok_def)

lemma add_bad_block_offset_simps [simp]:
  "wc_part (add_bad_block_offset ctx q) = wc_part ctx" "wc_pos (add_bad_block_offset ctx q) = wc_pos ctx"
  "same_buffer (add_bad_block_offset ctx q) ctx' = same_buffer ctx ctx'"
  "same_buffer (ctx\<lparr>wc_pos := x\<rparr>) ctx' = same_buffer ctx ctx'"
  "stream_at (ctx\<lparr>wc_pos := x\<rparr>) = stream_at ctx"
  by (auto simp: add_bad_block_offset_def same_buffer_def stream_at_def fun_eq_iff)

text \<open>The outcome of programming the block \<open>blk\<close> after the stream \<open>s\<close>.\<close>

definition block_done ::
  "MtdWriteContext \<Rightarrow> nat \<Rightarrow> byte list \<Rightarrow> byte list \<Rightarrow> int \<Rightarrow> MtdWriteContext \<Rightarrow> os \<Rightarrow> bool" where
  "block_done ctx n s blk r ctx' w' \<longleftrightarrow>
     same_buffer ctx ctx' \<and> (r = 0 \<or> r = -1) \<and>
     (r = 0 \<longrightarrow> (\<exists>m > n. wc_pos ctx' = m * esize (wc_part ctx) \<and> stream_at ctx' w' m (s @ blk) \<and>
                       m * esize (wc_part ctx) \<le> unat (p_size (wc_part ctx))))"

lemma block_done_later:
  "block_done (add_bad_block_offset (ctx\<lparr>wc_pos := q\<rparr>) x) (Suc n) s blk r ctx' w' \<Longrightarrow> block_done ctx n s blk r ctx' w'"
  by (auto simp: block_done_def dest: Suc_lessD)

lemma write_block_loop_spec:
  assumes "part_ok (wc_part ctx)" "length blk = esize (wc_part ctx)"
    and "stream_at ctx w n s" "n * esize (wc_part ctx) \<le> unat (p_size (wc_part ctx))"
  shows "\<exists>r ctx' w'. write_block_loop ctx blk (n * esize (wc_part ctx)) w = Some (r, ctx', w') \<and>
    block_done ctx n s blk r ctx' w'"
  using assms
proof (induction "Suc (unat (p_size (wc_part ctx))) - n" arbitrary: n ctx w rule: less_induct)
  case less
  let ?p = "wc_part ctx" and ?es = "esize (wc_part ctx)"
  let ?pos = "n * ?es"
  note si = part_ok_sint [OF less.prems(1)]
  have es: "0 < ?es" "unat (p_size ?p) + ?es < 2147483648" using less.prems(1) by (auto simp: part_ok_def)
  have c: "c_int (int ?pos + sint (erase_size ?p)) = Some (int (?pos + ?es))"
    using es less.prems(4) unfolding si(1) of_nat_add [symmetric]
    by (auto simp: c_int_def LONG_MAX_def LONG_MIN_def simp del: of_nat_add)
  show ?case
  proof (cases "?pos + ?es \<le> unat (p_size ?p)")
    case False
    then have "write_block_loop ctx blk ?pos w = Some (-1, ctx, w)"
      using c si(2) by (subst write_block_loop.simps) (simp del: of_nat_add of_nat_unat add: of_nat_le_iff)
    then show ?thesis by (simp add: same_buffer_def block_done_def)
  next
    case True
    have next_pos: "Suc n * ?es = ?pos + ?es" by simp
    have dec: "Suc (unat (p_size ?p)) - Suc n < Suc (unat (p_size ?p)) - n"
      using True es(1) by (intro diff_less_mono2) (auto intro: le_less_trans [of n ?pos])
    have IH: "\<exists>r ctx' w'. write_block_loop (add_bad_block_offset (ctx\<lparr>wc_pos := q\<rparr>) ?pos) blk (?pos + ?es) w1 =
          Some (r, ctx', w') \<and> block_done ctx n s blk r ctx' w'"
      if "stream_at (ctx\<lparr>wc_pos := q\<rparr>) w1 n s" for w1 q
    proof -
      let ?c = "add_bad_block_offset (ctx\<lparr>wc_pos := q\<rparr>) ?pos"
      have "stream_at ?c w1 (Suc n) s" using stream_give_up [OF that] es(1) by simp
      then have "\<exists>r ctx' w'. write_block_loop ?c blk (Suc n * ?es) w1 = Some (r, ctx', w') \<and>
          block_done ?c (Suc n) s blk r ctx' w'"
        using less.hyps [of ?c "Suc n" w1] dec True less.prems(1,2) by simp
      then show ?thesis unfolding next_pos using block_done_later by blast
    qed
    let ?bad = "flash_bad w (device_index ?p) ?pos"
    show ?thesis
    proof (cases "?bad \<noteq> 0 \<and> ?bad \<noteq> - EOPNOTSUPP")
      case bad: True
      then have "write_block_loop ctx blk ?pos w = write_block_loop (add_bad_block_offset ctx ?pos) blk (?pos + ?es) w"
        using c si(2) True by (subst write_block_loop.simps) (simp del: of_nat_add of_nat_unat add: of_nat_le_iff)
      then show ?thesis using IH [of "wc_pos ctx" w] less.prems(3) by simp
    next
      case good: False
      obtain ok q w1 where at: "write_attempts 2 ?p ?pos blk (wc_pos ctx) w = (ok, q, w1)" by (metis prod.exhaust)
      obtain e w2 where er: "ioctl_MEMERASE (device_index ?p) ?pos ?es w1 = (e, w2)" by fastforce
      note sp = write_attempts_spec [OF at less.prems(2)]
      have eq: "write_block_loop ctx blk ?pos w =
          (if ok then Some (0, ctx\<lparr>wc_pos := q\<rparr>, w1)
           else write_block_loop (add_bad_block_offset (ctx\<lparr>wc_pos := q\<rparr>) ?pos) blk (?pos + ?es) w2)"
        using c si(2) True good at er
        by (subst write_block_loop.simps) (auto simp del: of_nat_add of_nat_unat simp add: of_nat_le_iff Let_def)
      have s1: "stream_at ctx w1 n s" using stream_frame [OF less.prems(3)] sp by blast
      then have s2: "stream_at (ctx\<lparr>wc_pos := q\<rparr>) w2 n s"
        using stream_frame [OF s1 erase_frame [OF er]] by simp
      show ?thesis
      proof (cases ok)
        case True
        then have "stream_at (ctx\<lparr>wc_pos := q\<rparr>) w1 (Suc n) (s @ blk)"
          using stream_program [OF s1 es(1)] sp good by (auto simp: flash_frame_def)
        then show ?thesis
          using eq True sp \<open>?pos + ?es \<le> unat (p_size ?p)\<close>
          by (auto simp: block_done_def same_buffer_def algebra_simps intro: exI [of _ "Suc n"])
      qed (use eq IH [OF s2] in simp)
    qed
  qed
qed

definition positioned :: "MtdWriteContext \<Rightarrow> os \<Rightarrow> byte list \<Rightarrow> bool" where
  "positioned ctx w s \<longleftrightarrow>
     (\<exists>n. wc_pos ctx = n * esize (wc_part ctx) \<and> n * esize (wc_part ctx) \<le> unat (p_size (wc_part ctx)) \<and>
          stream_at ctx w n s)"

text \<open>
  The invariant of a write context after the bytes \<open>s\<close> were accepted: they are in the blocks
  before the descriptor, up to a rest that waits in the buffer.
\<close>

definition write_inv :: "MtdWriteContext \<Rightarrow> os \<Rightarrow> byte list \<Rightarrow> bool" where
  "write_inv ctx w s \<longleftrightarrow>
     part_ok (wc_part ctx) \<and> length (wc_buffer ctx) = esize (wc_part ctx) \<and> wc_stored ctx < esize (wc_part ctx) \<and>
     (\<exists>t. positioned ctx w t \<and> s = t @ take (wc_stored ctx) (wc_buffer ctx))"

lemma positioned_fields [simp]:
  "positioned (ctx\<lparr>wc_buffer := b\<rparr>) w s = positioned ctx w s"
  "positioned (ctx\<lparr>wc_stored := k\<rparr>) w s = positioned ctx w s"
  by (simp_all add: positioned_def stream_at_def)

lemma positioned_ask: "positioned ctx w s \<Longrightarrow> positioned ctx (snd (ask w)) s"
  by (simp add: positioned_def stream_at_def)

lemma write_block_spec:
  assumes ok: "part_ok (wc_part ctx)" and len: "esize (wc_part ctx) \<le> length data" and at: "positioned ctx w s"
  shows "\<exists>r ctx' w'. write_block ctx data w = Some (r, ctx', w') \<and> same_buffer ctx ctx' \<and>
    (r = 0 \<longrightarrow> positioned ctx' w' (s @ take (esize (wc_part ctx)) data))"
proof -
  let ?w = "snd (ask w)" and ?blk = "take (esize (wc_part ctx)) data"
  obtain n where n: "wc_pos ctx = n * esize (wc_part ctx)" "n * esize (wc_part ctx) \<le> unat (p_size (wc_part ctx))"
      "stream_at ctx ?w n s"
    using positioned_ask [OF at] by (auto simp: positioned_def)
  obtain r ctx' w' where wb: "write_block_loop ctx ?blk (wc_pos ctx) ?w = Some (r, ctx', w')"
      "block_done ctx n s ?blk r ctx' w'"
    using write_block_loop_spec [OF ok _ n(3,2), of ?blk] len n(1) by auto
  have "write_block ctx data w = (if fst (ask w) \<ge> 0 then Some (r, ctx', w') else Some (1, ctx, ?w))"
    using wb(1) len part_ok_sint(1) [OF ok]
    by (auto simp: write_block_def sys_alloc_def split_beta Let_def slice_def)
  moreover have "same_buffer ctx ctx" by (simp add: same_buffer_def)
  ultimately show ?thesis
    using wb(2) by (auto simp: block_done_def positioned_def same_buffer_def)
qed

lemma take_drop_shift:
  "take a (drop n xs) @ take b (drop (n + a) xs) = take (a + b) (drop n xs)"
  by (metis add.commute drop_drop take_add)

lemma write_direct_spec:
  assumes "part_ok (wc_part ctx)" "wc_stored ctx = 0" "positioned ctx w s" "wrote \<le> length data"
  shows "\<exists>ok wrote' ctx' w'. write_direct ctx data wrote w = Some (ok, wrote', ctx', w') \<and>
    same_buffer ctx ctx' \<and>
    (ok \<longrightarrow> wrote \<le> wrote' \<and> wrote' \<le> length data \<and> length data - wrote' < esize (wc_part ctx) \<and>
           positioned ctx' w' (s @ take (wrote' - wrote) (drop wrote data)))"
  using assms
proof (induction "length data - wrote" arbitrary: ctx w s wrote rule: less_induct)
  case less
  let ?es = "esize (wc_part ctx)"
  have es: "0 < ?es" using less.prems(1) by (simp add: part_ok_def)
  show ?case
  proof (cases "length data - wrote \<ge> ?es")
    case False
    then show ?thesis
      using less.prems by (subst write_direct.simps) (auto simp: same_buffer_def)
  next
    case True
    obtain r ctx1 w1 where wb: "write_block ctx (drop wrote data) w = Some (r, ctx1, w1)" "same_buffer ctx ctx1"
        "r = 0 \<longrightarrow> positioned ctx1 w1 (s @ take ?es (drop wrote data))"
      using write_block_spec [OF less.prems(1) _ less.prems(3), of "drop wrote data"] True by auto
    have eq: "write_direct ctx data wrote w =
        (if r \<noteq> 0 then Some (False, wrote, ctx1, w1) else write_direct ctx1 data (wrote + ?es) w1)"
      using True less.prems(2) wb(1,2) by (subst write_direct.simps) (simp add: same_buffer_def)
    have sb: "wc_part ctx1 = wc_part ctx" "wc_stored ctx1 = 0" using wb(2) less.prems(2) by (auto simp: same_buffer_def)
    show ?thesis
    proof (cases "r = 0")
      case r: True
      have lt: "length data - (wrote + ?es) < length data - wrote" "wrote + ?es \<le> length data"
        using True es by linarith+
      obtain ok wrote' ctx' w' where rec: "write_direct ctx1 data (wrote + ?es) w1 = Some (ok, wrote', ctx', w')"
          "same_buffer ctx1 ctx'"
          "ok \<longrightarrow> wrote + ?es \<le> wrote' \<and> wrote' \<le> length data \<and> length data - wrote' < ?es \<and>
             positioned ctx' w' ((s @ take ?es (drop wrote data)) @ take (wrote' - (wrote + ?es)) (drop (wrote + ?es) data))"
        using less.hyps [of "wrote + ?es" ctx1 w1 "s @ take ?es (drop wrote data)"] lt less.prems(1) wb(3) r sb
        by auto
      have "?es + (wrote' - (wrote + ?es)) = wrote' - wrote" if "wrote + ?es \<le> wrote'" using that by simp
      then show ?thesis
        using rec eq r wb(2) take_drop_shift [of ?es wrote data "wrote' - (wrote + ?es)"]
        by (auto simp: same_buffer_def)
    next
      case False
      then show ?thesis using eq wb(2) by (intro exI [of _ False]) auto
    qed
  qed
qed

text \<open>The outcome of handing over the bytes \<open>rest\<close> of \<open>n\<close> bytes when \<open>s\<close> were accepted before.\<close>

definition data_done ::
  "MtdWriteContext \<Rightarrow> nat \<Rightarrow> byte list \<Rightarrow> (int \<times> MtdWriteContext \<times> os) option \<Rightarrow> bool" where
  "data_done ctx n s res \<longleftrightarrow>
     (\<exists>r ctx' w'. res = Some (r, ctx', w') \<and> wc_part ctx' = wc_part ctx \<and> (r = -1 \<or> r = int n) \<and>
                 (r \<noteq> -1 \<longrightarrow> write_inv ctx' w' s))"

lemma write_tail:
  assumes inv: "write_inv ctx w s" and le: "wrote0 \<le> wrote" "wrote \<le> length data"
    and go: "wrote0 < wrote \<or> wc_stored ctx = 0 \<and> length data - wrote \<ge> esize (wc_part ctx)"
    and full: "wc_stored ctx = 0 \<or> wrote = length data"
    and IH: "\<And>ctx' w' s' wrote'. wrote0 < wrote' \<Longrightarrow> wrote' \<le> length data \<Longrightarrow> write_inv ctx' w' s' \<Longrightarrow>
               data_done ctx' (length data) (s' @ drop wrote' data) (mtd_write_loop ctx' data wrote' w')"
  shows "data_done ctx (length data) (s @ drop wrote data)
    (do { (ok, wrote, ctx, w) \<leftarrow> write_direct ctx data wrote w;
          if \<not> ok then Some (-1, ctx, w) else mtd_write_loop ctx data wrote w })"
proof (cases "wc_stored ctx = 0")
  case False
  then have "write_direct ctx data wrote w = Some (True, wrote, ctx, w)"
    by (subst write_direct.simps) simp
  then show ?thesis using IH [OF _ le(2) inv] go False by simp
next
  case True
  have es: "0 < esize (wc_part ctx)" using inv by (simp add: write_inv_def part_ok_def)
  obtain ok wrote' ctx' w' where d: "write_direct ctx data wrote w = Some (ok, wrote', ctx', w')"
      "same_buffer ctx ctx'"
      "ok \<longrightarrow> wrote \<le> wrote' \<and> wrote' \<le> length data \<and> length data - wrote' < esize (wc_part ctx) \<and>
           positioned ctx' w' (s @ take (wrote' - wrote) (drop wrote data))"
    using write_direct_spec [OF _ True _ le(2), of w s] inv True by (auto simp: write_inv_def)
  show ?thesis
  proof (cases ok)
    case False
    then show ?thesis using d by (simp add: data_done_def same_buffer_def)
  next
    case ok: True
    have "write_inv ctx' w' (s @ take (wrote' - wrote) (drop wrote data))"
      using d(2,3) ok inv True by (auto simp: write_inv_def same_buffer_def)
    moreover have "wrote0 < wrote'" using d(3) ok le go by linarith
    moreover have "take (wrote' - wrote) (drop wrote data) @ drop wrote' data = drop wrote data"
      using d(3) ok by (metis append_take_drop_id drop_drop le_add_diff_inverse2)
    ultimately show ?thesis using IH [of wrote' ctx' w' "s @ take (wrote' - wrote) (drop wrote data)"] d ok by (simp add: data_done_def same_buffer_def)
  qed
qed

lemma blit_take:
  assumes "i + length ys \<le> length xs"
  shows "\<exists>zs. blit xs i ys = Some zs \<and> length zs = length xs \<and> take (i + length ys) zs = take i xs @ ys"
  using assms by (cases ys) (auto simp: blit_def min_def)

lemma write_copy:
  assumes inv: "write_inv ctx w s" and more: "wrote < length data"
    and part: "wc_stored ctx > 0 \<or> length data - wrote < esize (wc_part ctx)"
    and IH: "\<And>ctx' w' s' wrote'. wrote < wrote' \<Longrightarrow> wrote' \<le> length data \<Longrightarrow> write_inv ctx' w' s' \<Longrightarrow>
               data_done ctx' (length data) (s' @ drop wrote' data) (mtd_write_loop ctx' data wrote' w')"
  shows "data_done ctx (length data) (s @ drop wrote data) (mtd_write_loop ctx data wrote w)"
proof -
  let ?es = "esize (wc_part ctx)"
  define c where "c = min (length data - wrote) (?es - wc_stored ctx)"
  define piece where "piece = take c (drop wrote data)"
  have c: "0 < c" "wrote + c \<le> length data" "wc_stored ctx + c \<le> ?es" "length piece = c"
    "wc_stored ctx + c < ?es \<Longrightarrow> wrote + c = length data"
    using more inv by (auto simp: c_def piece_def write_inv_def)
  obtain t where t: "positioned ctx w t" "s = t @ take (wc_stored ctx) (wc_buffer ctx)"
    using inv by (auto simp: write_inv_def)
  obtain buf where buf: "blit (wc_buffer ctx) (wc_stored ctx) piece = Some buf" "length buf = ?es"
      "take (wc_stored ctx + c) buf = take (wc_stored ctx) (wc_buffer ctx) @ piece"
    using blit_take [of "wc_stored ctx" piece "wc_buffer ctx"] c inv by (auto simp: write_inv_def)
  let ?ctx1 = "ctx\<lparr>wc_buffer := buf, wc_stored := wc_stored ctx + c\<rparr>"
  have rest: "s @ drop wrote data = (t @ take (wc_stored ctx + c) buf) @ drop (wrote + c) data"
    using t(2) buf(3) append_take_drop_id [of c "drop wrote data"] by (simp add: piece_def add.commute)
  have ok: "part_ok (wc_part ctx)" using inv by (simp add: write_inv_def)
  let ?tail = "\<lambda>ctx w. do { (ok, wrote, ctx, w) \<leftarrow> write_direct ctx data (wrote + c) w;
                if \<not> ok then Some (-1, ctx, w) else mtd_write_loop ctx data wrote w }"
  show ?thesis
  proof (cases "wc_stored ctx + c = ?es")
    case False
    then have fit: "wc_stored ctx + c < ?es" using c by simp
    then have "write_inv ?ctx1 w (t @ take (wc_stored ctx + c) buf)"
      using ok buf(2) t(1) by (auto simp: write_inv_def)
    then have "data_done ?ctx1 (length data) (s @ drop wrote data) (?tail ?ctx1 w)"
      unfolding rest using c fit by (intro write_tail [OF _ _ _ _ _ IH]) auto
    moreover have "mtd_write_loop ctx data wrote w = ?tail ?ctx1 w"
      using more part buf(1) fit by (subst mtd_write_loop.simps) (simp add: c_def [symmetric] piece_def [symmetric])
    ultimately show ?thesis by (simp add: data_done_def)
  next
    case full: True
    obtain r ctx2 w2 where wb: "write_block ?ctx1 buf w = Some (r, ctx2, w2)" "same_buffer ?ctx1 ctx2"
        "r = 0 \<longrightarrow> positioned ctx2 w2 (t @ take ?es buf)"
      using write_block_spec [of ?ctx1 buf w t] ok buf(2) t(1) by auto
    have eq: "mtd_write_loop ctx data wrote w =
        (if r \<noteq> 0 then Some (-1, ctx2, w2) else ?tail (ctx2\<lparr>wc_stored := 0\<rparr>) w2)"
      using more part buf(1) full wb(1)
      by (subst mtd_write_loop.simps) (simp add: c_def [symmetric] piece_def [symmetric])
    show ?thesis
    proof (cases "r = 0")
      case True
      have "0 < ?es" using c by linarith
      then have "write_inv (ctx2\<lparr>wc_stored := 0\<rparr>) w2 (t @ take (wc_stored ctx + c) buf)"
        using ok buf(2) wb(2,3) True full by (auto simp: write_inv_def same_buffer_def)
      then have "data_done (ctx2\<lparr>wc_stored := 0\<rparr>) (length data) (s @ drop wrote data) (?tail (ctx2\<lparr>wc_stored := 0\<rparr>) w2)"
        unfolding rest using c by (intro write_tail [OF _ _ _ _ _ IH]) auto
      then show ?thesis using eq True wb(2) by (simp add: data_done_def same_buffer_def)
    qed (use eq wb(2) in \<open>simp add: data_done_def same_buffer_def\<close>)
  qed
qed

lemma write_loop_spec:
  assumes "write_inv ctx w s" "wrote \<le> length data"
  shows "data_done ctx (length data) (s @ drop wrote data) (mtd_write_loop ctx data wrote w)"
  using assms
proof (induction "length data - wrote" arbitrary: ctx w s wrote rule: less_induct)
  case less
  have IH: "data_done ctx' (length data) (s' @ drop wrote' data) (mtd_write_loop ctx' data wrote' w')"
    if "wrote < wrote'" "wrote' \<le> length data" "write_inv ctx' w' s'" for ctx' w' s' wrote'
    using that by (intro less.hyps) auto
  show ?case
  proof (cases "wrote < length data")
    case False
    then show ?thesis using less.prems by (subst mtd_write_loop.simps) (auto simp: data_done_def)
  next
    case more: True
    show ?thesis
    proof (cases "wc_stored ctx > 0 \<or> length data - wrote < esize (wc_part ctx)")
      case False
      then have "wc_stored ctx = 0" "length data - wrote \<ge> esize (wc_part ctx)" "0 < esize (wc_part ctx)"
        using less.prems by (auto simp: write_inv_def part_ok_def)
      then show ?thesis
        using write_tail [OF less.prems(1) order_refl less.prems(2) _ _ IH] more
        by (subst mtd_write_loop.simps) simp
    next
      case True
      show ?thesis by (rule write_copy [OF less.prems(1) more True IH])
    qed
  qed
qed

section \<open>Erasing the rest and closing\<close>

lemma erase_loop_frame:
  "erase_loop k p pos w = (pos', w') \<Longrightarrow> flash_frame (device_index p) pos (pos + k * esize p) w w'"
proof (induction k arbitrary: pos w)
  case (Suc k)
  let ?frame = "flash_frame (device_index p) pos (pos + Suc k * esize p)"
  obtain e w1 where e: "ioctl_MEMERASE (device_index p) pos (esize p) w = (e, w1)" by fastforce
  have "\<exists>v. erase_loop k p (pos + esize p) v = (pos', w') \<and> ?frame w v"
  proof (cases "flash_bad w (device_index p) pos > 0")
    case True
    then show ?thesis using Suc.prems by (intro exI [of _ w]) simp
  next
    case False
    have "?frame w w1" by (rule flash_frame_mono [OF erase_frame [OF e]]) auto
    then show ?thesis using Suc.prems e False by (intro exI [of _ w1]) simp
  qed
  then obtain v where v: "erase_loop k p (pos + esize p) v = (pos', w')" "?frame w v" by blast
  have "?frame v w'" by (rule flash_frame_mono [OF Suc.IH [OF v(1)]]) auto
  then show ?case using v(2) flash_frame_trans by blast
qed simp

lemma positioned_frame:
  assumes "positioned ctx w s" "flash_frame (device_index (wc_part ctx)) (wc_pos ctx) hi w w'"
  shows "positioned ctx w' s"
proof -
  obtain n where "wc_pos ctx = n * esize (wc_part ctx)" "n * esize (wc_part ctx) \<le> unat (p_size (wc_part ctx))"
      "stream_at ctx w n s" using assms(1) by (auto simp: positioned_def)
  then show ?thesis using stream_frame [of ctx w n s hi w'] assms(2) by (auto simp: positioned_def)
qed

lemma flush_spec:
  assumes inv: "write_inv ctx w s"
  shows "\<exists>r ctx' w'. flush_pending ctx w = Some (r, ctx', w') \<and> wc_part ctx' = wc_part ctx \<and>
    (r = 0 \<longrightarrow> wc_stored ctx' = 0 \<and> (\<exists>z < esize (wc_part ctx). write_inv ctx' w' (s @ replicate z 0)))"
proof (cases "wc_stored ctx > 0")
  case False
  then show ?thesis using inv by (auto simp: flush_pending_def write_inv_def intro!: exI [of _ 0])
next
  case True
  let ?es = "esize (wc_part ctx)" and ?pad = "replicate (esize (wc_part ctx) - wc_stored ctx) (0 :: byte)"
  obtain t where t: "positioned ctx w t" "s = t @ take (wc_stored ctx) (wc_buffer ctx)"
    "length (wc_buffer ctx) = ?es" "wc_stored ctx < ?es" "part_ok (wc_part ctx)"
    using inv by (auto simp: write_inv_def)
  obtain buf where buf: "blit (wc_buffer ctx) (wc_stored ctx) ?pad = Some buf" "length buf = ?es"
      "take (wc_stored ctx + length ?pad) buf = take (wc_stored ctx) (wc_buffer ctx) @ ?pad"
    using blit_take [of "wc_stored ctx" ?pad "wc_buffer ctx"] t(3,4) by auto
  obtain r ctx1 w1 where wb: "write_block (ctx\<lparr>wc_buffer := buf\<rparr>) buf w = Some (r, ctx1, w1)"
      "same_buffer (ctx\<lparr>wc_buffer := buf\<rparr>) ctx1" "r = 0 \<longrightarrow> positioned ctx1 w1 (t @ take ?es buf)"
    using write_block_spec [of "ctx\<lparr>wc_buffer := buf\<rparr>" buf w t] t(5) buf(2) t(1) by auto
  have eq: "flush_pending ctx w = Some (r, if r \<noteq> 0 then ctx1 else ctx1\<lparr>wc_stored := 0\<rparr>, w1)"
    using True buf(1) wb(1) by (simp add: flush_pending_def)
  show ?thesis
  proof (cases "r = 0")
    case r: True
    have "take ?es buf = take (wc_stored ctx) (wc_buffer ctx) @ ?pad" using buf(3) t(4) by simp
    then have "write_inv (ctx1\<lparr>wc_stored := 0\<rparr>) w1 (s @ ?pad)"
      using wb(2,3) r buf(2) t by (auto simp: write_inv_def same_buffer_def)
    moreover have "?es - wc_stored ctx < ?es" using True t(4) by simp
    ultimately show ?thesis using eq r wb(2) by (auto simp: same_buffer_def)
  qed (use eq wb(2) in \<open>simp add: same_buffer_def\<close>)
qed

lemma erase_from_spec:
  assumes inv: "write_inv ctx w s" and pend: "wc_stored ctx = 0"
  shows "\<exists>e w'. erase_from ctx k w = Some (e, ctx, w') \<and> (e \<noteq> -1 \<longrightarrow> write_inv ctx w' s)"
proof -
  let ?p = "wc_part ctx"
  obtain pos w' where el: "erase_loop (nat (if k < 0 then sint ((p_size ?p - of_nat (wc_pos ctx)) div erase_size ?p) else k))
      ?p (wc_pos ctx) w = (pos, w')" by fastforce
  have "positioned ctx w s" using inv pend by (auto simp: write_inv_def)
  then have "write_inv ctx w' s"
    using positioned_frame [OF _ erase_loop_frame [OF el]] inv pend by (auto simp: write_inv_def)
  moreover have "erase_size ?p \<noteq> 0" using inv by (auto simp: write_inv_def part_ok_def)
  ultimately show ?thesis using el by (auto simp: erase_from_def Let_def)
qed

lemma erase_blocks_spec:
  assumes inv: "write_inv ctx w s"
  shows "\<exists>e ctx' w'. mtd_erase_blocks ctx k w = Some (e, ctx', w') \<and> wc_part ctx' = wc_part ctx \<and>
    (e \<noteq> -1 \<longrightarrow> wc_stored ctx' = 0 \<and> (\<exists>z < esize (wc_part ctx). write_inv ctx' w' (s @ replicate z 0)))"
proof -
  obtain r ctx1 w1 where fl: "flush_pending ctx w = Some (r, ctx1, w1)" "wc_part ctx1 = wc_part ctx"
      "r = 0 \<longrightarrow> wc_stored ctx1 = 0 \<and> (\<exists>z < esize (wc_part ctx). write_inv ctx1 w1 (s @ replicate z 0))"
    using flush_spec [OF inv] by auto
  show ?thesis
  proof (cases "r = 0")
    case True
    then obtain z where z: "z < esize (wc_part ctx)" "write_inv ctx1 w1 (s @ replicate z 0)" "wc_stored ctx1 = 0"
      using fl by auto
    from erase_from_spec [OF z(2,3), of k] show ?thesis using fl(1,2) True z by (auto simp: mtd_erase_blocks_def)
  qed (use fl in \<open>simp add: mtd_erase_blocks_def\<close>)
qed

section \<open>The delivered stream\<close>

text \<open>
  Why a block is left out by an attempt to read it at time \<open>k\<close>: it is marked bad, the read fails or
  comes up short, or the statistics of the device show more ECC failures after the read than at an
  earlier time since \<open>k0\<close>.
\<close>

definition short_read :: "MtdPartition \<Rightarrow> os \<Rightarrow> nat \<Rightarrow> nat \<Rightarrow> bool" where
  "short_read p w k pos \<longleftrightarrow> fst (fst (flash_read (device_index p) pos (esize p) (w\<lparr>clk := k\<rparr>))) \<noteq> int (esize p)"

definition ecc_changed :: "os \<Rightarrow> nat \<Rightarrow> nat \<Rightarrow> bool" where
  "ecc_changed w k0 k \<longleftrightarrow> 0 \<le> orc w k \<and> (\<exists>j. k0 \<le> j \<and> j < k \<and> 0 \<le> orc w j \<and> orc w j \<noteq> orc w k)"

definition left_out :: "MtdPartition \<Rightarrow> os \<Rightarrow> nat \<Rightarrow> nat \<Rightarrow> nat \<Rightarrow> bool" where
  "left_out p w k0 k pos \<longleftrightarrow> flash_bad w (device_index p) pos \<noteq> 0 \<or> short_read p w k pos \<or> ecc_changed w k0 (k + 1)"

text \<open>The devices are as before, at a later time.\<close>

definition later :: "os \<Rightarrow> os \<Rightarrow> bool" where
  "later w w' \<longleftrightarrow> mtddev w' = mtddev w \<and> orc w' = orc w \<and> clk w \<le> clk w'"

lemma later_refl [simp]: "later w w"
  by (simp add: later_def)

lemma later_trans: "later w w1 \<Longrightarrow> later w1 w2 \<Longrightarrow> later w w2"
  by (simp add: later_def)

lemma later_ask: "ask w = (v, w') \<Longrightarrow> later w w' \<and> clk w' = Suc (clk w)"
  by (auto simp: later_def ask_def)

lemma left_out_later: "later w w' \<Longrightarrow> left_out p w' k0 k pos = left_out p w k0 k pos"
  by (simp add: later_def left_out_def short_read_def ecc_changed_def flash_bad_def flash_bytes_def flash_read_def ask_def)

text \<open>
  \<open>delivered p k0 w n B s\<close>: the blocks before block \<open>n\<close> whose offset is not in \<open>B\<close> are not marked
  bad and hold exactly the bytes \<open>s\<close>; those in \<open>B\<close> were left out for a reason, at a time since \<open>k0\<close>.
\<close>

definition delivered :: "MtdPartition \<Rightarrow> nat \<Rightarrow> os \<Rightarrow> nat \<Rightarrow> nat set \<Rightarrow> byte list \<Rightarrow> bool" where
  "delivered p k0 w n B s \<longleftrightarrow>
     n * esize p \<le> unat (p_size p) \<and> (\<forall>b \<in> B. \<exists>i < n. b = i * esize p) \<and>
     (\<forall>b \<in> B. \<exists>k. k0 \<le> k \<and> k < clk w \<and> left_out p w k0 k b) \<and>
     (\<forall>i < n. i * esize p \<notin> B \<longrightarrow> flash_bad w (device_index p) (i * esize p) = 0) \<and>
     good_blocks (flash_bytes w (device_index p)) (esize p) B 0 n = s"

lemma delivered_later:
  assumes "delivered p k0 w n B s" "later w w'"
  shows "delivered p k0 w' n B s"
proof -
  have "mtddev w' = mtddev w" "clk w \<le> clk w'" using assms(2) by (simp_all add: later_def)
  then have "flash_bytes w' = flash_bytes w" "flash_bad w' = flash_bad w" "\<And>k. k < clk w \<Longrightarrow> k < clk w'"
    by (auto simp: flash_bytes_def flash_bad_def fun_eq_iff)
  then show ?thesis using assms(1) unfolding delivered_def left_out_later [OF assms(2)] by metis
qed

lemma delivered_skip:
  assumes "delivered p k0 w n B s" "0 < esize p" "n * esize p + esize p \<le> unat (p_size p)"
    "later w w'" "k0 \<le> k" "k < clk w'" "left_out p w k0 k (n * esize p)"
  shows "delivered p k0 w' (Suc n) (insert (n * esize p) B) s"
proof -
  have "good_blocks d (esize p) (insert (n * esize p) B) 0 n = good_blocks d (esize p) B 0 n" for d
    using assms(2) by (intro good_blocks_cong) auto
  moreover have "\<exists>k. k0 \<le> k \<and> k < clk w' \<and> left_out p w' k0 k (n * esize p)"
    using assms(5-7) left_out_later [OF assms(4)] by blast
  ultimately show ?thesis using delivered_later [OF assms(1,4)] assms(2,3)
    by (auto simp: delivered_def good_blocks_Suc less_Suc_eq)
qed

lemma delivered_block:
  assumes "delivered p k0 w n B s" "0 < esize p" "n * esize p + esize p \<le> unat (p_size p)"
    "flash_bad w (device_index p) (n * esize p) = 0"
  shows "delivered p k0 w (Suc n) B (s @ take (esize p) (drop (n * esize p) (flash_bytes w (device_index p))))"
proof -
  have "n * esize p \<notin> B" using assms(1,2) by (auto simp: delivered_def)
  then show ?thesis using assms by (auto simp: delivered_def good_blocks_Suc less_Suc_eq)
qed

lemma read_state:
  assumes "flash_read dev pos n w = ((r, bs), w')"
  shows "later w w'" "clk w' = Suc (clk w)" "r = int n \<Longrightarrow> bs = take n (drop pos (flash_bytes w dev)) \<and> length bs = n"
proof -
  have "flash_bytes (w\<lparr>clk := k\<rparr>) dev = flash_bytes w dev" for k by (simp add: flash_bytes_def)
  then show "later w w'" "clk w' = Suc (clk w)" "r = int n \<Longrightarrow> bs = take n (drop pos (flash_bytes w dev)) \<and> length bs = n"
    using assms by (auto simp: flash_read_def split_beta Let_def min_def later_def ask_def split: if_splits)
qed

definition block_read :: "MtdPartition \<Rightarrow> nat \<Rightarrow> byte list \<Rightarrow> os \<Rightarrow> (int \<times> byte list \<times> nat \<times> os) option \<Rightarrow> bool" where
  "block_read p k0 s w res \<longleftrightarrow>
     (\<exists>r bs q w'. res = Some (r, bs, q, w') \<and> later w w' \<and> (r = 0 \<or> r = -1) \<and>
        (r = 0 \<longrightarrow> length bs = esize p \<and> (\<exists>m B. q = m * esize p \<and> delivered p k0 w' m B (s @ bs))))"

lemma block_read_later: "later w w' \<Longrightarrow> block_read p k0 s w' res \<Longrightarrow> block_read p k0 s w res"
  unfolding block_read_def using later_trans by blast

lemma read_block_loop_step:
  assumes "int pos + sint (erase_size p) \<le> sint (p_size p)"
    "flash_read (device_index p) pos (esize p) w = ((r, bs), w1)" "ask w1 = (after, w2)"
    "sint (erase_size p) = int (esize p)" "mtddev w2 = mtddev w"
  shows "read_block_loop p before pos fdpos w =
    (if r \<noteq> int (esize p) then read_block_loop p before (pos + esize p) (pos + length bs) w1
     else if after < 0 then Some (-1, bs, pos + length bs, w2)
     else if after \<noteq> before then read_block_loop p after (pos + esize p) (pos + length bs) w2
     else if flash_bad w (device_index p) pos \<noteq> 0 then read_block_loop p before (pos + esize p) (pos + length bs) w2
     else Some (0, bs, pos + length bs, w2))"
  using assms(1-3,5) unfolding assms(4)
  by (subst read_block_loop.simps) (simp add: assms(4) flash_bad_def del: of_nat_unat)

text \<open>\<open>before\<close> is an answer of the statistics at a time since \<open>k0\<close>.\<close>

lemma read_block_loop_spec:
  assumes "part_ok p" "delivered p k0 w n B s" "k0 \<le> j" "j < clk w" "orc w j = before" "0 \<le> before"
  shows "block_read p k0 s w (read_block_loop p before (n * esize p) fdpos w)"
  using assms
proof (induction "Suc (unat (p_size p)) - n" arbitrary: n B w before j fdpos rule: less_induct)
  case less
  let ?es = "esize p" and ?dev = "device_index p" and ?pos = "n * esize p"
  note si = part_ok_sint [OF less.prems(1)]
  have es: "0 < ?es" using less.prems(1) by (simp add: part_ok_def)
  have guard: "(int ?pos + sint (erase_size p) \<le> sint (p_size p)) = (?pos + ?es \<le> unat (p_size p))"
    unfolding si of_nat_add [symmetric] of_nat_le_iff by simp
  show ?case
  proof (cases "?pos + ?es \<le> unat (p_size p)")
    case False
    then show ?thesis unfolding block_read_def by (subst read_block_loop.simps) (simp add: guard del: of_nat_mult of_nat_unat)
  next
    case True
    obtain r bs w1 where rd: "flash_read ?dev ?pos ?es w = ((r, bs), w1)" by (metis prod.exhaust)
    obtain after w2 where ecc: "ask w1 = (after, w2)" by fastforce
    have l1: "later w w1" "clk w1 = Suc (clk w)" using read_state(1,2) [OF rd] by simp_all
    have l2: "later w w2" "clk w2 = Suc (Suc (clk w))" using later_trans [OF l1(1)] later_ask [OF ecc] l1(2) by simp_all
    have after: "after = orc w (Suc (clk w))" using ecc l1 by (auto simp: ask_def later_def)
    have time: "k0 \<le> clk w" using less.prems(3,4) by simp
    have "Suc (unat (p_size p)) - Suc n < Suc (unat (p_size p)) - n"
      using True es by (intro diff_less_mono2) (auto intro: le_less_trans [of n ?pos])
    note IH = less.hyps [OF this less.prems(1)]
    have skip: "block_read p k0 s w (read_block_loop p b (?pos + ?es) q v)"
      if "later w v" "clk w < clk v" "left_out p w k0 (clk w) ?pos" "k0 \<le> i" "i < clk v" "orc w i = b" "0 \<le> b" for b v q i
    proof (rule block_read_later [OF that(1)])
      have "delivered p k0 v (Suc n) (insert ?pos B) s"
        by (rule delivered_skip [OF less.prems(2) es True that(1) time that(2,3)])
      then show "block_read p k0 s v (read_block_loop p b (?pos + ?es) q v)"
        using IH [where w = v and B = "insert ?pos B" and j = i and before = b and fdpos = q] that(1,4-7)
        by (simp add: later_def add.commute)
    qed
    have same: "mtddev w2 = mtddev w" using l2(1) by (simp add: later_def)
    have eq: "read_block_loop p before ?pos fdpos w =
        (if r \<noteq> int ?es then read_block_loop p before (?pos + ?es) (?pos + length bs) w1
         else if after < 0 then Some (-1, bs, ?pos + length bs, w2)
         else if after \<noteq> before then read_block_loop p after (?pos + ?es) (?pos + length bs) w2
         else if flash_bad w ?dev ?pos \<noteq> 0 then read_block_loop p before (?pos + ?es) (?pos + length bs) w2
         else Some (0, bs, ?pos + length bs, w2))"
      by (rule read_block_loop_step [OF guard [THEN iffD2, OF True] rd ecc si(1) same])
    have short1: "left_out p w k0 (clk w) ?pos" if "r \<noteq> int ?es" using rd that by (simp add: left_out_def short_read_def)
    have ecc_ch: "left_out p w k0 (clk w) ?pos" if "0 \<le> after" "after \<noteq> before"
    proof -
      have "ecc_changed w k0 (Suc (clk w))"
        unfolding ecc_changed_def using that after less.prems(3-6) by (intro conjI exI [of _ j]) auto
      then show ?thesis by (simp add: left_out_def)
    qed
    have marked: "left_out p w k0 (clk w) ?pos" if "flash_bad w ?dev ?pos \<noteq> 0" using that by (simp add: left_out_def)
    show ?thesis
    proof (cases "r = int ?es \<and> after \<ge> 0 \<and> after = before \<and> flash_bad w ?dev ?pos = 0")
      case fin: True
      then have d: "delivered p k0 w (Suc n) B (s @ bs)" "length bs = ?es"
        using delivered_block [OF less.prems(2) es True] read_state(3) [OF rd] by auto
      have "\<exists>m B. ?pos + length bs = m * ?es \<and> delivered p k0 w2 m B (s @ bs)"
        using delivered_later [OF d(1) l2(1)] d(2) by (intro exI [of _ "Suc n"] exI [of _ B]) simp
      moreover have "read_block_loop p before ?pos fdpos w = Some (0, bs, ?pos + length bs, w2)"
        unfolding eq using fin by simp
      ultimately show ?thesis using l2(1) d(2) by (auto simp: block_read_def)
    next
      case False
      then consider (short) "r \<noteq> int ?es" | (stats) "r = int ?es" "after < 0" | (ecc) "r = int ?es" "\<not> after < 0" "after \<noteq> before"
        | (bad) "r = int ?es" "\<not> after < 0" "after = before" "flash_bad w ?dev ?pos \<noteq> 0" by force
      then show ?thesis
      proof cases
        case short
        have "block_read p k0 s w (read_block_loop p before (?pos + ?es) (?pos + length bs) w1)"
          by (rule skip [OF l1(1) _ short1 less.prems(3)]) (use short l1(2) less.prems(4-6) in simp_all)
        then show ?thesis unfolding eq using short by (simp only: if_True simp_thms)
      next
        case stats
        then show ?thesis unfolding eq using l2(1) by (simp add: block_read_def)
      next
        case ecc
        have "block_read p k0 s w (read_block_loop p after (?pos + ?es) (?pos + length bs) w2)"
          by (rule skip [OF l2(1) _ ecc_ch, of "Suc (clk w)"]) (use ecc l2(2) after time in simp_all)
        then show ?thesis unfolding eq using ecc by (simp only: if_True if_False simp_thms)
      next
        case bad
        have "block_read p k0 s w (read_block_loop p before (?pos + ?es) (?pos + length bs) w2)"
          by (rule skip [OF l2(1) _ marked less.prems(3)]) (use bad l2(2) less.prems(4-6) in simp_all)
        then show ?thesis unfolding eq using bad by (simp only: if_True if_False simp_thms)
      qed
    qed
  qed
qed

lemma read_block_spec:
  assumes "part_ok p" "delivered p k0 w n B s" "k0 \<le> clk w"
  shows "block_read p k0 s w (read_block p (n * esize p) w)"
proof -
  obtain before w1 where a: "ask w = (before, w1)" by fastforce
  note l = later_ask [OF a]
  have b: "before = orc w1 (clk w)" using a by (auto simp: ask_def)
  have "block_read p k0 s w (read_block_loop p before (n * esize p) (n * esize p) w1)" if "0 \<le> before"
    using read_block_loop_spec [OF assms(1) delivered_later [OF assms(2)], of w1 "clk w" before] assms(3) l b that
    by (auto intro: block_read_later)
  then show ?thesis
    using a l part_ok_sint(1) [OF assms(1)] by (auto simp: read_block_def block_read_def)
qed

text \<open>
  The invariant of a read context that handed out the bytes \<open>s\<close>: together with the rest of the
  buffer they are the contents of the good blocks before the descriptor.
\<close>

definition read_inv :: "nat \<Rightarrow> MtdReadContext \<Rightarrow> os \<Rightarrow> byte list \<Rightarrow> bool" where
  "read_inv k0 ctx w s \<longleftrightarrow>
     part_ok (rc_part ctx) \<and> length (rc_buffer ctx) = esize (rc_part ctx) \<and>
     rc_consumed ctx \<le> esize (rc_part ctx) \<and> k0 \<le> clk w \<and>
     (\<exists>n B. rc_pos ctx = n * esize (rc_part ctx) \<and>
        delivered (rc_part ctx) k0 w n B (s @ drop (rc_consumed ctx) (rc_buffer ctx)))"

lemma read_inv_block:
  assumes inv: "read_inv k0 ctx w s" and cons: "rc_consumed ctx = esize (rc_part ctx)"
  obtains r bs q w' where "read_block (rc_part ctx) (rc_pos ctx) w = Some (r, bs, q, w')"
    "later w w'" "r = 0 \<or> r = -1"
    "r = 0 \<Longrightarrow> length bs = esize (rc_part ctx)"
    "r = 0 \<Longrightarrow> read_inv k0 (ctx\<lparr>rc_pos := q\<rparr>) w' (s @ bs)"
    "r = 0 \<Longrightarrow> read_inv k0 (ctx\<lparr>rc_pos := q, rc_buffer := bs, rc_consumed := 0\<rparr>) w' s"
proof -
  obtain n B where n: "rc_pos ctx = n * esize (rc_part ctx)"
      "delivered (rc_part ctx) k0 w n B (s @ drop (rc_consumed ctx) (rc_buffer ctx))"
    using inv unfolding read_inv_def by blast
  have n2: "delivered (rc_part ctx) k0 w n B s" using n(2) inv cons by (simp add: read_inv_def)
  have "block_read (rc_part ctx) k0 s w (read_block (rc_part ctx) (rc_pos ctx) w)"
    unfolding n(1) using inv n2 by (intro read_block_spec) (auto simp: read_inv_def)
  then obtain r bs q w' where rb: "read_block (rc_part ctx) (rc_pos ctx) w = Some (r, bs, q, w')"
      "later w w'" "r = 0 \<or> r = -1"
      "r = 0 \<longrightarrow> length bs = esize (rc_part ctx) \<and>
         (\<exists>m B. q = m * esize (rc_part ctx) \<and> delivered (rc_part ctx) k0 w' m B (s @ bs))"
    unfolding block_read_def by blast
  have "k0 \<le> clk w'" using rb(2) inv by (simp add: later_def read_inv_def)
  then show thesis
    using rb inv cons by (intro that [OF rb(1-3)]) (auto simp: read_inv_def)
qed

text \<open>The outcome of asking for \<open>len\<close> bytes when \<open>s\<close> were handed out before.\<close>

definition read_done :: "MtdPartition \<Rightarrow> nat \<Rightarrow> os \<Rightarrow> nat \<Rightarrow> byte list \<Rightarrow> (int \<times> byte list \<times> MtdReadContext \<times> os) option \<Rightarrow> bool" where
  "read_done p k0 w len s res \<longleftrightarrow>
     (\<exists>r bs ctx' w'. res = Some (r, bs, ctx', w') \<and> later w w' \<and> rc_part ctx' = p \<and>
        (r = -1 \<or> r = int len) \<and> (r \<noteq> -1 \<longrightarrow> length bs = len \<and> read_inv k0 ctx' w' (s @ bs)))"

lemma int_of_size: "len < 2 ^ 31 \<Longrightarrow> int_of_size len = int len"
  using sint_small [of "of_nat len :: u32"] by (simp add: int_of_size_def unat_of_nat)

lemma int_of_large_size: "2 ^ 31 \<le> len \<Longrightarrow> len < 2 ^ 32 \<Longrightarrow> int_of_size len < 0"
proof -
  assume l: "2 ^ 31 \<le> len" "len < 2 ^ 32"
  then have "uint (of_nat len :: u32) = int len" by (simp add: unsigned_of_nat take_bit_nat_eq_self_iff)
  then have "int_of_size len = (int len + 2147483648) mod 4294967296 - 2147483648"
    by (simp add: int_of_size_def sint_uint signed_take_bit_eq_take_bit_shift take_bit_eq_mod)
  moreover have "(int len - 2147483648 + 4294967296) mod 4294967296 = int len - 2147483648"
    using l by (subst mod_add_self2, intro mod_pos_pos_trivial) simp_all
  ultimately show ?thesis using l by (simp add: add.commute)
qed

lemma read_direct_spec:
  assumes "read_inv k0 ctx w (s @ acc)" "length acc \<le> len"
  shows "\<exists>ok ctx' acc' w'. read_direct ctx len acc w = Some (ok, ctx', acc', w') \<and> later w w' \<and>
    rc_part ctx' = rc_part ctx \<and> rc_consumed ctx' = rc_consumed ctx \<and>
    (ok \<longrightarrow> length acc \<le> length acc' \<and> length acc' \<le> len \<and> read_inv k0 ctx' w' (s @ acc') \<and>
       (rc_consumed ctx = esize (rc_part ctx) \<longrightarrow> len - length acc' < esize (rc_part ctx)))"
  using assms
proof (induction "len - length acc" arbitrary: ctx w acc rule: less_induct)
  case less
  let ?es = "esize (rc_part ctx)"
  show ?case
  proof (cases "rc_consumed ctx = ?es \<and> len - length acc \<ge> ?es")
    case False
    then have "read_direct ctx len acc w = Some (True, ctx, acc, w)" by (subst read_direct.simps) auto
    moreover have "rc_consumed ctx = ?es \<longrightarrow> len - length acc < ?es" using False by linarith
    ultimately show ?thesis using less.prems later_refl by blast
  next
    case True
    obtain r bs q w1 where rb: "read_block (rc_part ctx) (rc_pos ctx) w = Some (r, bs, q, w1)"
        "later w w1" "r = 0 \<or> r = -1" "r = 0 \<Longrightarrow> length bs = ?es"
        "r = 0 \<Longrightarrow> read_inv k0 (ctx\<lparr>rc_pos := q\<rparr>) w1 ((s @ acc) @ bs)"
      by (rule read_inv_block [OF less.prems(1) conjunct1 [OF True]]) blast
    have es: "0 < ?es" using less.prems by (simp add: read_inv_def part_ok_def)
    have eq: "read_direct ctx len acc w =
        (if r \<noteq> 0 then Some (False, ctx\<lparr>rc_pos := q\<rparr>, acc, w1)
         else read_direct (ctx\<lparr>rc_pos := q\<rparr>) len (acc @ bs) w1)"
      using True rb(1) by (subst read_direct.simps) simp
    show ?thesis
    proof (cases "r = 0")
      case r: True
      have "len - length (acc @ bs) < len - length acc" "length (acc @ bs) \<le> len"
        using True es rb(4) [OF r] less.prems(2) by auto
      moreover have "read_inv k0 (ctx\<lparr>rc_pos := q\<rparr>) w1 (s @ acc @ bs)" using rb(5) [OF r] by simp
      ultimately have "\<exists>ok ctx' acc' w'. read_direct (ctx\<lparr>rc_pos := q\<rparr>) len (acc @ bs) w1 = Some (ok, ctx', acc', w') \<and>
        later w1 w' \<and> rc_part ctx' = rc_part ctx \<and> rc_consumed ctx' = rc_consumed ctx \<and>
        (ok \<longrightarrow> length (acc @ bs) \<le> length acc' \<and> length acc' \<le> len \<and> read_inv k0 ctx' w' (s @ acc') \<and>
           (rc_consumed ctx = ?es \<longrightarrow> len - length acc' < ?es))"
        using less.hyps [of "acc @ bs" "ctx\<lparr>rc_pos := q\<rparr>" w1] by simp
      then obtain ok ctx' acc' w' where rec:
        "read_direct (ctx\<lparr>rc_pos := q\<rparr>) len (acc @ bs) w1 = Some (ok, ctx', acc', w')"
        "later w1 w'" "rc_part ctx' = rc_part ctx" "rc_consumed ctx' = rc_consumed ctx"
        "ok \<longrightarrow> length (acc @ bs) \<le> length acc' \<and> length acc' \<le> len \<and> read_inv k0 ctx' w' (s @ acc') \<and>
           (rc_consumed ctx = ?es \<longrightarrow> len - length acc' < ?es)" by blast
      show ?thesis unfolding eq using r rec later_trans [OF rb(2) rec(2)] by auto
    next
      case False
      then show ?thesis using eq rb(2) by (intro exI [of _ False]) auto
    qed
  qed
qed

lemma read_loop_spec:
  assumes "read_inv k0 ctx w (s @ acc)" "length acc \<le> len" "len < 2 ^ 31"
  shows "read_done (rc_part ctx) k0 w len s (mtd_read_loop ctx len acc w)"
  using assms(1,2)
proof (induction "2 * (len - length acc) + (if rc_consumed ctx = esize (rc_part ctx) then 1 else 0)"
    arbitrary: ctx w acc rule: less_induct)
  case less
  let ?es = "esize (rc_part ctx)"
  note inv = less.prems(1) [unfolded read_inv_def] and size = int_of_size [OF assms(3)]
  show ?case
  proof (cases "length acc < len")
    case False
    then show ?thesis using less.prems by (subst mtd_read_loop.simps) (auto simp: read_done_def size)
  next
    case more: True
    define c where "c = min (len - length acc) (?es - rc_consumed ctx)"
    define ctx1 where "ctx1 = ctx\<lparr>rc_consumed := rc_consumed ctx + c\<rparr>"
    define acc1 where "acc1 = acc @ take c (drop (rc_consumed ctx) (rc_buffer ctx))"
    have c: "rc_consumed ctx + c \<le> ?es" "length acc + c \<le> len" "rc_consumed ctx < ?es \<Longrightarrow> 0 < c"
      "rc_consumed ctx + c < ?es \<Longrightarrow> length acc + c = len"
      using more inv by (auto simp: c_def)
    have len1: "length acc1 = length acc + c" using c(1) inv by (simp add: acc1_def)
    have "take c (drop (rc_consumed ctx) (rc_buffer ctx)) @ drop (rc_consumed ctx + c) (rc_buffer ctx) =
        drop (rc_consumed ctx) (rc_buffer ctx)"
      by (metis append_take_drop_id drop_drop add.commute)
    then have inv1: "read_inv k0 ctx1 w (s @ acc1)"
      using inv c(1) by (simp add: read_inv_def ctx1_def acc1_def)
    have copy: "(if rc_consumed ctx < ?es
        then let copy = min (len - length acc) (?es - rc_consumed ctx)
             in do { bs \<leftarrow> slice (rc_buffer ctx) (rc_consumed ctx) copy;
                     Some (ctx\<lparr>rc_consumed := rc_consumed ctx + copy\<rparr>, acc @ bs) }
        else Some (ctx, acc)) = Some (ctx1, acc1)"
    proof (cases "rc_consumed ctx < ?es")
      case True
      then show ?thesis
        using inv c(1) unfolding c_def [symmetric] by (simp add: slice_def ctx1_def acc1_def)
    qed (use inv in \<open>simp add: ctx1_def acc1_def c_def\<close>)
    obtain ok ctx2 acc2 w2 where d: "read_direct ctx1 len acc1 w = Some (ok, ctx2, acc2, w2)" "later w w2"
        "rc_part ctx2 = rc_part ctx" "rc_consumed ctx2 = rc_consumed ctx + c"
        "ok \<longrightarrow> length acc1 \<le> length acc2 \<and> length acc2 \<le> len \<and> read_inv k0 ctx2 w2 (s @ acc2)"
      using read_direct_spec [OF inv1, of len] len1 c(2) by (auto simp: ctx1_def)
    have eq: "mtd_read_loop ctx len acc w =
        (if \<not> ok then Some (-1, acc2, ctx2, w2)
         else if length acc2 \<ge> len then Some (int (length acc2), acc2, ctx2, w2)
         else if rc_consumed ctx2 = esize (rc_part ctx2)
         then do {
           (r, bs, pos, w) \<leftarrow> read_block (rc_part ctx2) (rc_pos ctx2) w2;
           if r \<noteq> 0 then Some (-1, acc2, ctx2\<lparr>rc_pos := pos\<rparr>, w)
           else mtd_read_loop (ctx2\<lparr>rc_pos := pos, rc_buffer := bs, rc_consumed := 0\<rparr>) len acc2 w
         }
         else mtd_read_loop ctx2 len acc2 w2)"
      using more d(1) by (subst mtd_read_loop.simps) (auto simp: copy size not_le)
    show ?thesis
    proof (cases "ok \<and> length acc2 < len")
      case False
      then show ?thesis using d eq by (auto simp: read_done_def)
    next
      case True
      then have full: "rc_consumed ctx2 = esize (rc_part ctx2)" using c(1,4) d(3-5) len1 by fastforce
      have inv2: "read_inv k0 ctx2 w2 (s @ acc2)" using d(5) True by simp
      obtain r bs q w3 where rb: "read_block (rc_part ctx2) (rc_pos ctx2) w2 = Some (r, bs, q, w3)"
          "later w2 w3" "r = 0 \<or> r = -1"
          "r = 0 \<Longrightarrow> read_inv k0 (ctx2\<lparr>rc_pos := q, rc_buffer := bs, rc_consumed := 0\<rparr>) w3 (s @ acc2)"
        by (rule read_inv_block [OF inv2 full]) blast
      show ?thesis
      proof (cases "r = 0")
        case r: True
        let ?ctx3 = "ctx2\<lparr>rc_pos := q, rc_buffer := bs, rc_consumed := 0\<rparr>"
        have es: "0 < ?es" using inv by (simp add: part_ok_def)
        have "length acc \<le> length acc2 \<and> (rc_consumed ctx < ?es \<longrightarrow> length acc < length acc2)"
          using d(5) True len1 c(3) by auto
        then have "2 * (len - length acc2) + (if rc_consumed ?ctx3 = esize (rc_part ?ctx3) then 1 else 0) <
            2 * (len - length acc) + (if rc_consumed ctx = ?es then 1 else 0)"
          using es d(3) True more inv by auto
        then have "read_done (rc_part ?ctx3) k0 w3 len s (mtd_read_loop ?ctx3 len acc2 w3)"
          using rb(4) [OF r] d(5) True by (intro less.hyps) auto
        then show ?thesis using eq True full r rb(1) d(3) later_trans [OF later_trans [OF d(2) rb(2)]]
          by (auto simp: read_done_def)
      qed (use eq True full rb d(3) later_trans [OF d(2) rb(2)] in \<open>simp add: read_done_def\<close>)
    qed
  qed
qed

section \<open>Properties\<close>

text \<open>A client that hands over several pieces of data and stops at the first failure.\<close>

fun write_pieces :: "MtdWriteContext \<Rightarrow> byte list list \<Rightarrow> os \<Rightarrow> (bool \<times> MtdWriteContext \<times> os) option" where
  "write_pieces ctx [] w = Some (True, ctx, w)"
| "write_pieces ctx (d # ds) w = do {
     (r, ctx, w) \<leftarrow> mtd_write_data ctx d w;
     if r \<noteq> int (length d) then Some (False, ctx, w) else write_pieces ctx ds w
   }"

lemma write_pieces_spec:
  assumes "write_inv ctx w s"
  shows "\<exists>ok ctx' w'. write_pieces ctx ds w = Some (ok, ctx', w') \<and> wc_part ctx' = wc_part ctx \<and>
    (ok \<longrightarrow> write_inv ctx' w' (s @ concat ds))"
  using assms
proof (induction ds arbitrary: ctx w s)
  case (Cons d ds)
  obtain r ctx1 w1 where d: "mtd_write_data ctx d w = Some (r, ctx1, w1)" "wc_part ctx1 = wc_part ctx"
      "r = -1 \<or> r = int (length d)" "r \<noteq> -1 \<longrightarrow> write_inv ctx1 w1 (s @ d)"
    using write_loop_spec [OF Cons.prems, of 0 d] by (auto simp: mtd_write_data_def data_done_def)
  then show ?case using Cons.IH [of ctx1 w1 "s @ d"]
    by (cases "r = int (length d)") (auto intro: exI [of _ False])
qed auto

lemma write_partition_inv:
  assumes "mtd_write_partition p w = (Some ctx, w')" "part_ok p"
  shows "write_inv ctx w' [] \<and> wc_part ctx = p"
proof -
  have ctx: "ctx = \<lparr>wc_part = p, wc_buffer = replicate (esize p) 0, wc_stored = 0, wc_pos = 0,
      bad_block_offsets = [], bad_block_alloc = 0\<rparr>"
    using assms(1) by (auto simp: mtd_write_partition_def split_beta Let_def split: if_splits)
  have "positioned ctx w' []" by (auto simp: ctx positioned_def stream_at_def)
  then show ?thesis using assms(2) by (auto simp: ctx write_inv_def part_ok_def)
qed

lemma close_spec:
  assumes "write_inv ctx w s"
  shows "\<exists>r w'. mtd_write_close ctx w = Some (r, w') \<and>
    (r = 0 \<longrightarrow> (\<exists>n B z. z < esize (wc_part ctx) \<and> n * esize (wc_part ctx) \<le> unat (p_size (wc_part ctx)) \<and>
       (\<forall>i < n. i * esize (wc_part ctx) \<notin> B \<longrightarrow>
          flash_bad w' (device_index (wc_part ctx)) (i * esize (wc_part ctx)) \<in> {0, - EOPNOTSUPP}) \<and>
       good_blocks (flash_bytes w' (device_index (wc_part ctx))) (esize (wc_part ctx)) B 0 n =
         s @ replicate z 0))"
proof -
  obtain e ctx1 w1 where e: "mtd_erase_blocks ctx 0 w = Some (e, ctx1, w1)" "wc_part ctx1 = wc_part ctx"
      "e \<noteq> -1 \<longrightarrow> wc_stored ctx1 = 0 \<and> (\<exists>z < esize (wc_part ctx). write_inv ctx1 w1 (s @ replicate z 0))"
    using erase_blocks_spec [OF assms, of 0] by blast
  obtain c w2 where c: "sys_status w1 = (c, w2)" by fastforce
  have dev: "mtddev w2 = mtddev w1"
    using c ask_state(2) [of w1] by (auto simp: sys_status_def split_beta)
  have cl: "mtd_write_close ctx w = Some (if e = -1 \<or> c \<noteq> 0 then -1 else 0, w2)"
    using e(1) c by (simp add: mtd_write_close_def)
  show ?thesis
  proof (cases "e = -1")
    case False
    then obtain z where z: "z < esize (wc_part ctx)" "write_inv ctx1 w1 (s @ replicate z 0)" "wc_stored ctx1 = 0"
      using e(3) by blast
    then obtain n where n: "n * esize (wc_part ctx) \<le> unat (p_size (wc_part ctx))"
        "stream_at ctx1 w1 n (s @ replicate z 0)"
      using e(2) by (auto simp: write_inv_def positioned_def)
    then have "(\<forall>i < n. i * esize (wc_part ctx) \<notin> set (bad_block_offsets ctx1) \<longrightarrow>
          flash_bad w2 (device_index (wc_part ctx)) (i * esize (wc_part ctx)) \<in> {0, - EOPNOTSUPP}) \<and>
       good_blocks (flash_bytes w2 (device_index (wc_part ctx))) (esize (wc_part ctx))
         (set (bad_block_offsets ctx1)) 0 n = s @ replicate z 0"
      using e(2) dev by (simp add: stream_at_def flash_bad_def flash_bytes_def)
    then show ?thesis unfolding cl using z(1) n(1) by blast
  qed (simp add: cl)
qed

text \<open>
  C10. Writing a partition always comes to an end, whatever the flash device answers, and if
  every piece and the final close report success, then the partition holds exactly the bytes
  handed over, in order and padded with zeros to a block boundary, in its blocks that were not
  given up; none of these blocks is marked bad. Silent corruption while programming a block,
  failing erasures and short writes are covered: they are caught by the read back.
\<close>

theorem mtd_write_verified:
  assumes "part_ok p" "mtd_write_partition p w = (Some ctx, w0)"
  shows "\<exists>ok ctx1 w1. write_pieces ctx ds w0 = Some (ok, ctx1, w1) \<and>
    (ok \<longrightarrow> (\<exists>r w2. mtd_write_close ctx1 w1 = Some (r, w2) \<and>
       (r = 0 \<longrightarrow> (\<exists>n B z. z < esize p \<and> n * esize p \<le> unat (p_size p) \<and>
          (\<forall>i < n. i * esize p \<notin> B \<longrightarrow>
             flash_bad w2 (device_index p) (i * esize p) \<in> {0, - EOPNOTSUPP}) \<and>
          good_blocks (flash_bytes w2 (device_index p)) (esize p) B 0 n = concat ds @ replicate z 0))))"
proof -
  have inv: "write_inv ctx w0 []" "wc_part ctx = p" using write_partition_inv [OF assms(2,1)] by auto
  obtain ok ctx1 w1 where wp: "write_pieces ctx ds w0 = Some (ok, ctx1, w1)" "wc_part ctx1 = p"
      "ok \<longrightarrow> write_inv ctx1 w1 (concat ds)"
    using write_pieces_spec [OF inv(1), of ds] inv(2) by auto
  then show ?thesis using close_spec [of ctx1 w1 "concat ds"] by auto
qed

definition demo_part :: MtdPartition where
  "demo_part = \<lparr>device_index = 0, p_size = 6, erase_size = 2, p_name = Some ''misc''\<rparr>"

definition demo_os :: os where
  "demo_os = \<lparr>files = Map.empty,
     mtddev = [0 \<mapsto> \<lparr>fl_data = replicate 6 7, fl_bad = (\<lambda>q. if q = 2 then 1 else 0)\<rparr>],
     orc = (\<lambda>_. 5), noise = (\<lambda>_ bs. bs), names = (\<lambda>_ _. []), clk = 0\<rparr>"

lemma demo_ok: "part_ok demo_part"
  by (simp add: part_ok_def demo_part_def)

theorem mtd_write_verified_witness:
  "\<exists>ctx w0 ok ctx1 w1. mtd_write_partition demo_part demo_os = (Some ctx, w0) \<and>
     write_pieces ctx [[1], [2, 3]] w0 = Some (ok, ctx1, w1)"
proof -
  obtain ctx w0 where "mtd_write_partition demo_part demo_os = (Some ctx, w0)"
    by (simp add: mtd_write_partition_def demo_part_def demo_os_def sys_alloc_def sys_open_mtd_def ask_def)
  with mtd_write_verified [OF demo_ok this, of "[[1], [2, 3]]"] show ?thesis by blast
qed



end
