(* ===== verification/Retouch.thy ===== *)
theory Retouch
  imports Byte_Utils
begin

text \<open>
  Masking of address randomisation in prelinked libraries, \<open>minelf/Retouch.c\<close>.

  A retouched library ends with a blob of encoded relocation entries, a \<open>retouch_info_t\<close> (12
  bytes) and a \<open>prelink_info_t\<close> (8 bytes). Pointers into the library are offsets into the list
  \<open>data\<close>; an access outside of it is \<open>None\<close>. The two static variables of the decoder are the
  record \<open>compression_state\<close>. Memory words are little-endian, as on the target.
\<close>

section \<open>Model\<close>

abbreviation (input) RETOUCH_DATA_ERROR :: int where "RETOUCH_DATA_ERROR \<equiv> 0"
abbreviation (input) RETOUCH_DATA_MATCHED :: int where "RETOUCH_DATA_MATCHED \<equiv> 1"
abbreviation (input) RETOUCH_DATA_MISMATCHED :: int where "RETOUCH_DATA_MISMATCHED \<equiv> 2"
abbreviation (input) RETOUCH_DATA_NOTAPPLICABLE :: int where "RETOUCH_DATA_NOTAPPLICABLE \<equiv> 3"

record compression_state =
  offs_prev :: u32
  cont_prev :: u32

definition init_compression_state :: compression_state where
  "init_compression_state = \<lparr>offs_prev = 0, cont_prev = 0\<rparr>"

definition decode_bytes :: "compression_state \<Rightarrow> byte list \<Rightarrow> nat \<Rightarrow> u32 \<times> u32" where
  "decode_bytes s encoded_bytes encoded_size =
     (let b = (\<lambda>i. ucast (encoded_bytes ! i) :: u32)
      in if encoded_size = 2
         then let tmp = push_bit 8 (b 0 AND 0x1f) OR b 1;
                  tmp = (if tmp AND 0x1000 \<noteq> 0 then 0xffffe000 OR tmp else tmp)
              in (offs_prev s + (drop_bit 5 (b 0 AND 0x60) + 1) * 4, cont_prev s + tmp)
         else if encoded_size = 3
         then let tmp = push_bit 16 (b 0 AND 0xf) OR push_bit 8 (b 1) OR b 2;
                  tmp = (if tmp AND 0x80000 \<noteq> 0 then 0xfff00000 OR tmp else tmp)
              in (offs_prev s + (drop_bit 4 (b 0 AND 0x30) + 1) * 4, cont_prev s + tmp)
         else let off = push_bit 24 (b 0) OR push_bit 16 (b 1) OR push_bit 8 (b 2) OR b 3
              in (if off = 0x3fffffff then -1 else off,
                  push_bit 24 (b 4) OR push_bit 16 (b 5) OR push_bit 8 (b 6) OR b 7))"

definition input_size :: "byte \<Rightarrow> nat" where
  "input_size b0 = (if b0 AND 0x80 \<noteq> 0 then 2 else if b0 AND 0x40 \<noteq> 0 then 3 else 8)"

text \<open>The pointer behind the entry, the entry and the new decoder state.\<close>

definition decode_in_memory ::
  "compression_state \<Rightarrow> byte list \<Rightarrow> nat \<Rightarrow> (nat \<times> u32 \<times> u32 \<times> compression_state) option" where
  "decode_in_memory s data b_ptr = do {
     b0 \<leftarrow> rd data b_ptr;
     input \<leftarrow> slice data b_ptr (input_size b0);
     let (offset, contents) = decode_bytes s input (input_size b0);
     Some (b_ptr + input_size b0, offset, contents, \<lparr>offs_prev = offset, cont_prev = contents\<rparr>)
   }"

record inferred =
  offset_candidate :: u32
  offset_set :: bool
  offset_mismatch :: bool

definition infer :: "u32 \<Rightarrow> inferred \<Rightarrow> inferred" where
  "infer offset_of_this_entry i =
     (if \<not> offset_set i then i\<lparr>offset_candidate := offset_of_this_entry, offset_set := True\<rparr>
      else if offset_candidate i \<noteq> offset_of_this_entry then i\<lparr>offset_mismatch := True\<rparr>
      else i)"

text \<open>The word an entry stands for; \<open>-1\<close> is \<open>mmap_addr\<close> of the \<open>prelink_info_t\<close>.\<close>

definition retouch_entry :: "nat \<Rightarrow> u32 \<Rightarrow> nat" where
  "retouch_entry r_offs entry_offset =
     (if sint entry_offset = -1 then r_offs + 12 else nat (sint entry_offset))"

text \<open>
  The loop over the entries: the data, and unless it ran into a bad entry the final pointer and
  what was inferred.
\<close>

function mask_loop ::
  "nat \<Rightarrow> nat \<Rightarrow> u32 option \<Rightarrow> byte list \<Rightarrow> nat \<Rightarrow> compression_state \<Rightarrow> inferred \<Rightarrow>
   (byte list \<times> (nat \<times> inferred) option) option" where
  "mask_loop b_offs r_offs desired data b_ptr s i =
     (if b_ptr < r_offs
      then do {
        (b_ptr', entry_offset, original_value, s') \<leftarrow> decode_in_memory s data b_ptr;
        if sint entry_offset < -1 \<or> sint entry_offset \<ge> int b_offs then Some (data, None)
        else do {
          let entry = retouch_entry r_offs entry_offset;
          data \<leftarrow> (case desired of
                    None \<Rightarrow> Some data
                  | Some target_offset \<Rightarrow> blit data entry (Write4 (original_value + target_offset) []));
          v \<leftarrow> Read4 (drop entry data);
          mask_loop b_offs r_offs desired data b_ptr' s' (infer (v - original_value) i)
        }
      }
      else Some (data, Some (b_ptr, i)))"
  by pat_completeness auto
termination
  by (relation "measure (\<lambda>(b_offs, r_offs, desired, data, b_ptr, s, i). r_offs - b_ptr)")
     (auto simp: decode_in_memory_def input_size_def Let_def split: bind_splits if_splits prod.splits)

declare mask_loop.simps [simp del]

text \<open>The status, the data and \<open>*retouch_offset\<close>.\<close>

definition retouch_mask_data ::
  "byte list \<Rightarrow> int \<Rightarrow> u32 option \<Rightarrow> (int \<times> byte list \<times> u32) option" where
  "retouch_mask_data data binary_size desired_offset =
     (let target_offset = (case desired_offset of None \<Rightarrow> 0 | Some d \<Rightarrow> d);
          p_offs = binary_size - 8;
          r_offs = p_offs - 12;
          not_retouched = (if desired_offset = None then RETOUCH_DATA_NOTAPPLICABLE else RETOUCH_DATA_MATCHED)
      in if r_offs < 0 then Some (not_retouched, data, target_offset)
         else do {
           p_tag \<leftarrow> slice data (nat p_offs + 4) 4;
           r_tag \<leftarrow> slice data (nat r_offs) 8;
           if p_tag \<noteq> bytes_of ''PRE '' \<or> r_tag \<noteq> bytes_of ''RETOUCH ''
           then Some (not_retouched, data, target_offset)
           else do {
             blob_size \<leftarrow> Read4 (drop (nat r_offs + 8) data);
             let b_offs = sint (word_of_int r_offs - blob_size :: u32);
             if b_offs < 0 then Some (RETOUCH_DATA_ERROR, data, target_offset)
             else do {
               (data, r) \<leftarrow> mask_loop (nat b_offs) (nat r_offs) desired_offset data (nat b_offs)
                 init_compression_state
                 \<lparr>offset_candidate = target_offset, offset_set = False, offset_mismatch = False\<rparr>;
               Some (case r of
                   None \<Rightarrow> (RETOUCH_DATA_ERROR, data, target_offset)
                 | Some (b_ptr, i) \<Rightarrow>
                     if b_ptr > nat r_offs then (RETOUCH_DATA_ERROR, data, target_offset)
                     else if offset_mismatch i then (RETOUCH_DATA_MISMATCHED, data, target_offset)
                     else (RETOUCH_DATA_MATCHED, data, offset_candidate i))
             }
           }
         })"

section \<open>Every input is handled\<close>

lemma input_size_range: "2 \<le> input_size b" "input_size b \<le> 8"
  by (simp_all add: input_size_def)

lemma decode_in_memory_defined:
  assumes "b_ptr + 8 \<le> length data"
  obtains b_ptr' off c s' where "decode_in_memory s data b_ptr = Some (b_ptr', off, c, s')"
    and "b_ptr < b_ptr'" "b_ptr' \<le> b_ptr + 8"
proof -
  let ?n = "input_size (data ! b_ptr)"
  obtain off c where "decode_bytes s (take ?n (drop b_ptr data)) ?n = (off, c)" by (metis prod.exhaust)
  then show ?thesis
    using that [of "b_ptr + ?n"] input_size_range [of "data ! b_ptr"] assms
    by (simp add: decode_in_memory_def rd_def slice_def)
qed

lemma blit_defined: "pos + length bs \<le> length data \<Longrightarrow> \<exists>d. blit data pos bs = Some d \<and> length d = length data"
  by (simp add: blit_def)

lemma length_Write4 [simp]: "length (Write4 v []) = 4"
  by (rule le4.enc_length)

lemma Read4_defined: "4 \<le> length bs \<Longrightarrow> \<exists>v. Read4 bs = Some v"
  by (simp add: Read4_def)

lemma Read4_blit: "blit data pos (Write4 v []) = Some d \<Longrightarrow> Read4 (drop pos d) = Some v"
  by (auto simp: blit_def Read4_Write4 split: if_splits)

lemma retouch_entry_inside:
  assumes "\<not> sint off < -1" "\<not> sint off \<ge> int b" "b \<le> r"
  shows "retouch_entry r off + 4 \<le> r + 20"
  using assms by (auto simp: retouch_entry_def)

text \<open>With a desired offset every entry is set, so it never disagrees with the offset inferred before.\<close>

definition agrees :: "u32 option \<Rightarrow> inferred \<Rightarrow> bool" where
  "agrees desired i \<longleftrightarrow> (desired \<noteq> None \<longrightarrow>
     \<not> offset_mismatch i \<and> offset_candidate i = the desired)"

lemma agrees_infer [simp]: "agrees None (infer v i)"
  by (simp add: agrees_def)

lemma agrees_infer_same: "agrees (Some t) i \<Longrightarrow> agrees (Some t) (infer t i)"
  by (auto simp: agrees_def infer_def)

lemma mask_loop_defined:
  assumes "b_offs \<le> b_ptr" "r_offs + 20 \<le> length data" "agrees desired i"
  shows "\<exists>data' r. mask_loop b_offs r_offs desired data b_ptr s i = Some (data', r) \<and>
    length data' = length data \<and> (\<forall>p j. r = Some (p, j) \<longrightarrow> agrees desired j)"
  using assms
proof (induction b_offs r_offs desired data b_ptr s i rule: mask_loop.induct)
  case (1 b_offs r_offs desired data b_ptr s i)
  show ?case
  proof (cases "b_ptr < r_offs")
    case True
    obtain b_ptr' off c s' where d: "decode_in_memory s data b_ptr = Some (b_ptr', off, c, s')"
        and p: "b_ptr < b_ptr'" "b_ptr' \<le> b_ptr + 8"
      by (rule decode_in_memory_defined [of b_ptr data s]) (use True "1.prems" in auto)
    show ?thesis
    proof (cases "sint off < -1 \<or> sint off \<ge> int b_offs")
      case False
      let ?e = "retouch_entry r_offs off"
      have e: "?e + 4 \<le> length data"
        using retouch_entry_inside [of off b_offs r_offs] False True "1.prems" by auto
      obtain data' v where d': "(case desired of None \<Rightarrow> Some data | Some t \<Rightarrow> blit data ?e (Write4 (c + t) [])) = Some data'"
          "length data' = length data" "Read4 (drop ?e data') = Some v" "agrees desired (infer (v - c) i)"
      proof (cases desired)
        case None
        obtain v where "Read4 (drop ?e data) = Some v"
          using Read4_defined [of "drop ?e data"] e by fastforce
        then show ?thesis using that [of data] None by simp
      next
        case (Some t)
        obtain d where bd: "blit data ?e (Write4 (c + t) []) = Some d" "length d = length data"
          using blit_defined [of ?e "Write4 (c + t) []" data] e by auto
        show ?thesis
          by (rule that [of d "c + t"]) (use bd Read4_blit [OF bd(1)] Some "1.prems"(3) in \<open>simp_all add: agrees_infer_same\<close>)
      qed
      have "\<exists>data'' r. mask_loop b_offs r_offs desired data' b_ptr' s' (infer (v - c) i) = Some (data'', r) \<and>
          length data'' = length data' \<and> (\<forall>p j. r = Some (p, j) \<longrightarrow> agrees desired j)"
        by (rule "1.IH" [OF True d refl refl refl False refl d'(1) d'(3)]) (use p d' "1.prems" in simp_all)
      then show ?thesis
        using True False d d' by (subst mask_loop.simps) auto
    qed (use True d "1.prems" in \<open>subst mask_loop.simps, simp\<close>)
  qed (use "1.prems" in \<open>subst mask_loop.simps, simp\<close>)
qed

section \<open>Masking is canonical\<close>

text \<open>The entries of the blob between \<open>b_ptr\<close> and \<open>r_offs\<close>, and where the last one ends.\<close>

function decode_blob ::
  "nat \<Rightarrow> byte list \<Rightarrow> nat \<Rightarrow> compression_state \<Rightarrow> ((u32 \<times> u32) list \<times> nat) option" where
  "decode_blob r_offs data b_ptr s =
     (if b_ptr < r_offs
      then do {
        (b_ptr', off, c, s') \<leftarrow> decode_in_memory s data b_ptr;
        (es, q) \<leftarrow> decode_blob r_offs data b_ptr' s';
        Some ((off, c) # es, q)
      }
      else Some ([], b_ptr))"
  by pat_completeness auto
termination
  by (relation "measure (\<lambda>(r_offs, data, b_ptr, s). r_offs - b_ptr)")
     (auto simp: decode_in_memory_def input_size_def Let_def split: bind_splits if_splits prod.splits)

declare decode_blob.simps [simp del]

definition store32 :: "byte list \<Rightarrow> nat \<Rightarrow> u32 \<Rightarrow> byte list" where
  "store32 d a v = take a d @ Write4 v [] @ drop (a + 4) d"

text \<open>Setting all entries to their original value plus an offset.\<close>

fun set_entries :: "nat \<Rightarrow> u32 \<Rightarrow> byte list \<Rightarrow> (u32 \<times> u32) list \<Rightarrow> byte list" where
  "set_entries r t d [] = d"
| "set_entries r t d ((off, c) # es) = set_entries r t (store32 d (retouch_entry r off) (c + t)) es"

definition covers :: "nat \<Rightarrow> (u32 \<times> u32) list \<Rightarrow> nat \<Rightarrow> bool" where
  "covers r es j \<longleftrightarrow> (\<exists>(off, c) \<in> set es. retouch_entry r off \<le> j \<and> j < retouch_entry r off + 4)"

definition entries_fit :: "nat \<Rightarrow> nat \<Rightarrow> (u32 \<times> u32) list \<Rightarrow> bool" where
  "entries_fit b r es \<longleftrightarrow> b \<le> r \<and>
     list_all (\<lambda>(off, c). sint off = -1 \<or> 0 \<le> sint off \<and> sint off + 4 \<le> int b) es"

lemma covers_Cons: "covers r ((off, c) # es) j \<longleftrightarrow>
    (retouch_entry r off \<le> j \<and> j < retouch_entry r off + 4) \<or> covers r es j"
  by (auto simp: covers_def)

lemma length_store32: "a + 4 \<le> length d \<Longrightarrow> length (store32 d a v) = length d"
  by (simp add: store32_def)

lemma store32_nth: "a + 4 \<le> length d \<Longrightarrow> j < length d \<Longrightarrow>
    store32 d a v ! j = (if a \<le> j \<and> j < a + 4 then Write4 v [] ! (j - a) else d ! j)"
  by (auto simp: store32_def nth_append)

lemma blit_store32: "a + 4 \<le> length d \<Longrightarrow> blit d a (Write4 v []) = Some (store32 d a v)"
  by (simp add: blit_def store32_def)

lemma fit_entry:
  assumes "entries_fit b r ((off, c) # es)" "r + 20 \<le> length d"
  shows "retouch_entry r off + 4 \<le> length d" "\<not> (sint off < -1 \<or> sint off \<ge> int b)" "entries_fit b r es"
    and "b \<le> j \<Longrightarrow> j < r + 12 \<Longrightarrow> \<not> (retouch_entry r off \<le> j \<and> j < retouch_entry r off + 4)"
  using assms by (auto simp: entries_fit_def retouch_entry_def)

lemma set_entries_length:
  "entries_fit b r es \<Longrightarrow> r + 20 \<le> length d \<Longrightarrow> length (set_entries r t d es) = length d"
proof (induction es arbitrary: d)
  case (Cons e es)
  obtain off c where e: "e = (off, c)" by (metis prod.exhaust)
  show ?case
    using Cons.IH [of "store32 d (retouch_entry r off) (c + t)"] Cons.prems
      fit_entry [of b r off c es d] length_store32 [of "retouch_entry r off" d]
    by (simp add: e)
qed simp

lemma set_entries_uncovered:
  "entries_fit b r es \<Longrightarrow> r + 20 \<le> length d \<Longrightarrow> j < length d \<Longrightarrow> \<not> covers r es j \<Longrightarrow> set_entries r t d es ! j = d ! j"
proof (induction es arbitrary: d)
  case (Cons e es)
  obtain off c where e: "e = (off, c)" by (metis prod.exhaust)
  show ?case
    using Cons.IH [of "store32 d (retouch_entry r off) (c + t)"] Cons.prems
      fit_entry [of b r off c es d] length_store32 [of "retouch_entry r off" d] store32_nth [of "retouch_entry r off" d j]
    by (auto simp: e covers_Cons)
qed simp

text \<open>Only the bytes outside of the entries matter for the result.\<close>

lemma set_entries_canonical:
  assumes "entries_fit b r es" "length d = length d'" "r + 20 \<le> length d"
    and "\<And>j. j < length d \<Longrightarrow> \<not> covers r es j \<Longrightarrow> d ! j = d' ! j"
  shows "set_entries r t d es = set_entries r t d' es"
  using assms
proof (induction es arbitrary: d d')
  case Nil
  then show ?case by (auto simp: covers_def intro: nth_equalityI)
next
  case (Cons e es)
  obtain off c where e: "e = (off, c)" by (metis prod.exhaust)
  let ?a = "retouch_entry r off"
  have a: "?a + 4 \<le> length d" "entries_fit b r es" using fit_entry Cons.prems by (auto simp: e)
  have "set_entries r t (store32 d ?a (c + t)) es = set_entries r t (store32 d' ?a (c + t)) es"
  proof (rule Cons.IH [OF a(2)])
    show "store32 d ?a (c + t) ! j = store32 d' ?a (c + t) ! j"
      if "j < length (store32 d ?a (c + t))" "\<not> covers r es j" for j
      using that a Cons.prems(2,3) Cons.prems(4) [of j]
      by (auto simp: store32_nth length_store32 e covers_Cons)
  qed (use a Cons.prems(2,3) in \<open>simp_all add: length_store32\<close>)
  then show ?case by (simp add: e)
qed

lemma decode_in_memory_cong:
  assumes "length d = length d'" "\<And>j. b_ptr \<le> j \<Longrightarrow> j < b_ptr + 8 \<Longrightarrow> d ! j = d' ! j"
    and "b_ptr < length d"
  shows "decode_in_memory s d b_ptr = decode_in_memory s d' b_ptr"
proof -
  let ?n = "input_size (d ! b_ptr)"
  have b0: "d ! b_ptr = d' ! b_ptr" using assms(2) [of b_ptr] by simp
  have "slice d b_ptr ?n = slice d' b_ptr ?n"
    using assms input_size_range [of "d ! b_ptr"]
    by (auto simp: slice_def intro!: nth_equalityI)
  then show ?thesis using assms(1,3) b0 by (simp add: decode_in_memory_def rd_def)
qed

lemma decode_blob_cong:
  assumes "length d = length d'" "r + 20 \<le> length d" "\<And>j. b \<le> j \<Longrightarrow> j < r + 12 \<Longrightarrow> d ! j = d' ! j" "b \<le> p"
  shows "decode_blob r d p s = decode_blob r d' p s"
  using assms
proof (induction r d p s rule: decode_blob.induct)
  case (1 r d p s)
  show ?case
  proof (cases "p < r")
    case True
    have eq: "decode_in_memory s d p = decode_in_memory s d' p"
      by (rule decode_in_memory_cong) (use True "1.prems" in auto)
    obtain p' off c s' where d: "decode_in_memory s d p = Some (p', off, c, s')" and p: "p < p'"
      by (rule decode_in_memory_defined [of p d s]) (use True "1.prems" in auto)
    have "decode_blob r d p' s' = decode_blob r d' p' s'"
      by (rule "1.IH" [OF True d refl refl refl]) (use "1.prems" p in auto)
    then show ?thesis
      using True d eq by (subst (1 2) decode_blob.simps) simp
  qed (simp add: decode_blob.simps [of r d] decode_blob.simps [of r d'])
qed

lemma mask_loop_set:
  assumes "decode_blob r d p s = Some (es, q)" "entries_fit b r es" "b \<le> p" "r + 20 \<le> length d"
  shows "mask_loop b r (Some t) d p s i = Some (set_entries r t d es, Some (q, fold (\<lambda>_. infer t) es i))"
  using assms
proof (induction es arbitrary: d p s i)
  case Nil
  then have "\<not> p < r" "q = p" by (auto simp: decode_blob.simps [of r d p] split: if_splits bind_splits)
  then show ?case by (simp add: mask_loop.simps)
next
  case (Cons e es)
  obtain off c where e: "e = (off, c)" by (metis prod.exhaust)
  have "\<exists>p' s'. p < r \<and> decode_in_memory s d p = Some (p', off, c, s') \<and> decode_blob r d p' s' = Some (es, q)"
    using Cons.prems(1) by (auto simp: e decode_blob.simps [of r d p] split: if_splits bind_splits)
  then obtain p' s' where p: "p < r" "decode_in_memory s d p = Some (p', off, c, s')" "decode_blob r d p' s' = Some (es, q)"
    by blast
  have pp: "p < p'" using p(2) decode_in_memory_defined [of p d s] Cons.prems(4) p(1) by fastforce
  let ?a = "retouch_entry r off"
  have a: "?a + 4 \<le> length d" "\<not> (sint off < -1 \<or> sint off \<ge> int b)" "entries_fit b r es"
    using fit_entry [of b r off c es d] Cons.prems by (auto simp: e)
  let ?d = "store32 d ?a (c + t)"
  have ld: "length ?d = length d" using a by (simp add: length_store32)
  have bl: "blit d ?a (Write4 (c + t) []) = Some ?d" using a by (simp add: blit_store32)
  have "?d ! j = d ! j" if "b \<le> j" "j < r + 12" for j
    using fit_entry(4) [of b r off c es d j] a(1) that Cons.prems(2,4) by (auto simp: e store32_nth)
  then have "decode_blob r ?d p' s' = decode_blob r d p' s'"
    using pp ld Cons.prems(3,4) by (intro decode_blob_cong [where b = b]) auto
  with p(3) have "decode_blob r ?d p' s' = Some (es, q)" by simp
  then have "mask_loop b r (Some t) ?d p' s' (infer t i) =
      Some (set_entries r t ?d es, Some (q, fold (\<lambda>_. infer t) es (infer t i)))"
    using a pp ld Cons.prems by (intro Cons.IH) auto
  then show ?case
    using p a bl Read4_blit [OF bl] by (subst mask_loop.simps) (simp add: e)
qed

lemma mask_loop_infer:
  assumes "decode_blob r d p s = Some (es, q)" "entries_fit b r es" "b \<le> p" "r + 20 \<le> length d"
    and "\<forall>(off, c) \<in> set es. Read4 (drop (retouch_entry r off) d) = Some (c + t)"
  shows "mask_loop b r None d p s i = Some (d, Some (q, fold (\<lambda>_. infer t) es i))"
  using assms
proof (induction es arbitrary: p s i)
  case Nil
  then have "\<not> p < r" "q = p" by (auto simp: decode_blob.simps [of r d p] split: if_splits bind_splits)
  then show ?case by (simp add: mask_loop.simps)
next
  case (Cons e es)
  obtain off c where e: "e = (off, c)" by (metis prod.exhaust)
  have "\<exists>p' s'. p < r \<and> decode_in_memory s d p = Some (p', off, c, s') \<and> decode_blob r d p' s' = Some (es, q)"
    using Cons.prems(1) by (auto simp: e decode_blob.simps [of r d p] split: if_splits bind_splits)
  then obtain p' s' where p: "p < r" "decode_in_memory s d p = Some (p', off, c, s')" "decode_blob r d p' s' = Some (es, q)"
    by blast
  have pp: "p < p'" using p(2) decode_in_memory_defined [of p d s] Cons.prems(4) p(1) by fastforce
  have a: "\<not> (sint off < -1 \<or> sint off \<ge> int b)" "entries_fit b r es"
    using fit_entry [of b r off c es d] Cons.prems by (auto simp: e)
  have "mask_loop b r None d p' s' (infer t i) = Some (d, Some (q, fold (\<lambda>_. infer t) es (infer t i)))"
    using p pp a Cons.prems by (intro Cons.IH) auto
  then show ?case
    using p a Cons.prems(5) by (subst mask_loop.simps) (simp add: e)
qed

lemma fold_infer: "offset_candidate i = t \<Longrightarrow> \<not> offset_mismatch i \<Longrightarrow>
    offset_candidate (fold (\<lambda>_. infer t) es i) = t \<and> \<not> offset_mismatch (fold (\<lambda>_. infer t) es i)"
  by (induction es arbitrary: i) (auto simp: infer_def)

text \<open>A retouched library with the blob from \<open>b\<close> to \<open>r\<close> that encodes the entries \<open>es\<close>.\<close>

definition retouched_file :: "byte list \<Rightarrow> nat \<Rightarrow> nat \<Rightarrow> (u32 \<times> u32) list \<Rightarrow> bool" where
  "retouched_file d b r es \<longleftrightarrow>
     length d = r + 20 \<and> int (length d) \<le> LONG_MAX \<and>
     slice d (r + 16) 4 = Some (bytes_of ''PRE '') \<and> slice d r 8 = Some (bytes_of ''RETOUCH '') \<and>
     Read4 (drop (r + 8) d) = Some (of_nat (r - b)) \<and>
     decode_blob r d b init_compression_state = Some (es, r) \<and> entries_fit b r es"

lemma sint_of_nat_small: "int n \<le> LONG_MAX \<Longrightarrow> sint (of_nat n :: u32) = int n"
proof -
  assume "int n \<le> LONG_MAX"
  then have n: "n < 2147483648" by (simp add: LONG_MAX_def)
  then have "unat (of_nat n :: u32) = n" by (simp add: unat_of_nat take_bit_nat_eq_self)
  with n show ?thesis by (simp add: sint_small)
qed

lemma blob_start:
  assumes "retouched_file d b r es"
  shows "sint (of_nat b :: u32) = int b" "b \<le> r"
  using assms by (auto simp: retouched_file_def entries_fit_def intro!: sint_of_nat_small)

lemma retouch_mask_data_set:
  assumes "retouched_file d b r es"
  shows "retouch_mask_data d (int (length d)) (Some t) = Some (RETOUCH_DATA_MATCHED, set_entries r t d es, t)"
proof -
  note f = assms [unfolded retouched_file_def]
  have "nat (int (length d) - 16) = r + 4" "nat (int (length d) - 20) = r" "int (length d) - 20 = int r"
    "nat (int (length d) - 8) = r + 12"
    using f by auto
  moreover have "mask_loop b r (Some t) d b init_compression_state j =
      Some (set_entries r t d es, Some (r, fold (\<lambda>_. infer t) es j))" for j
    using f by (intro mask_loop_set) auto
  moreover note blob_start [OF assms]
  ultimately show ?thesis
    using f by (simp add: retouch_mask_data_def Let_def fold_infer add.commute)
qed

lemma Read4_cong: "length d = length d' \<Longrightarrow> a + 4 \<le> length d \<Longrightarrow> (\<And>j. a \<le> j \<Longrightarrow> j < a + 4 \<Longrightarrow> d ! j = d' ! j) \<Longrightarrow>
    Read4 (drop a d) = Read4 (drop a d')"
  by (simp add: Read4_def)

lemma slice_cong: "length d = length d' \<Longrightarrow> (\<And>j. a \<le> j \<Longrightarrow> j < a + n \<Longrightarrow> d ! j = d' ! j) \<Longrightarrow> slice d a n = slice d' a n"
  by (auto simp: slice_def intro!: nth_equalityI)

lemma not_covered:
  assumes "entries_fit b r es" "b \<le> j" "j < r + 12 \<or> r + 16 \<le> j"
  shows "\<not> covers r es j"
  using assms by (fastforce simp: covers_def entries_fit_def retouch_entry_def list_all_iff split: if_splits)

lemma retouched_file_set:
  assumes "retouched_file d b r es"
  shows "retouched_file (set_entries r t d es) b r es"
proof -
  let ?d = "set_entries r t d es"
  note f = assms [unfolded retouched_file_def]
  have l: "length ?d = length d" using set_entries_length [of b r es d] f by simp
  have same: "?d ! j = d ! j" if "b \<le> j" "j < r + 12 \<or> r + 16 \<le> j" "j < length d" for j
    using set_entries_uncovered [of b r es d j] not_covered [of b r es j] that f by simp
  have br: "b \<le> r" using f by (simp add: entries_fit_def)
  have ld: "length d = r + 20" using f by simp
  have s: "slice ?d (r + 16) 4 = slice d (r + 16) 4" "slice ?d r 8 = slice d r 8"
    by (rule slice_cong [OF l], rule same; use ld br in simp)+
  have r4: "Read4 (drop (r + 8) ?d) = Read4 (drop (r + 8) d)"
    by (rule Read4_cong [OF l]) (use ld l br in \<open>auto intro!: same\<close>)
  have "decode_blob r ?d b init_compression_state = decode_blob r d b init_compression_state"
    using f l by (intro decode_blob_cong [of _ _ _ b]) (auto intro!: same)
  with f l s r4 show ?thesis by (simp only: retouched_file_def) simp
qed

fun disjoint_entries :: "nat \<Rightarrow> (u32 \<times> u32) list \<Rightarrow> bool" where
  "disjoint_entries r [] \<longleftrightarrow> True"
| "disjoint_entries r ((off, c) # es) \<longleftrightarrow>
     list_all (\<lambda>(o', c'). retouch_entry r off + 4 \<le> retouch_entry r o' \<or> retouch_entry r o' + 4 \<le> retouch_entry r off) es \<and>
     disjoint_entries r es"

lemma set_entries_read:
  assumes "entries_fit b r es" "r + 20 \<le> length d" "disjoint_entries r es" "(off, c) \<in> set es"
  shows "Read4 (drop (retouch_entry r off) (set_entries r t d es)) = Some (c + t)"
  using assms
proof (induction es arbitrary: d)
  case (Cons e es)
  obtain o1 c1 where e: "e = (o1, c1)" by (metis prod.exhaust)
  let ?a = "retouch_entry r o1"
  let ?d = "store32 d ?a (c1 + t)"
  have a: "?a + 4 \<le> length d" "entries_fit b r es" using fit_entry Cons.prems by (auto simp: e)
  have ld: "length ?d = length d" using a by (simp add: length_store32)
  show ?case
  proof (cases "(off, c) \<in> set es")
    case True
    then show ?thesis using Cons.IH [of ?d] Cons.prems a ld by (simp add: e)
  next
    case False
    then have oc: "o1 = off" "c1 = c" using Cons.prems by (auto simp: e)
    have unc: "\<not> covers r es j" if "?a \<le> j" "j < ?a + 4" for j
      using Cons.prems(3) that by (fastforce simp: e covers_def list_all_iff)
    have "Read4 (drop ?a (set_entries r t ?d es)) = Read4 (drop ?a ?d)"
      using a ld Cons.prems(2) set_entries_length [OF a(2), of ?d t] unc
      by (intro Read4_cong set_entries_uncovered [OF a(2)]) auto
    moreover have "Read4 (drop ?a ?d) = Some (c1 + t)"
      using Read4_blit [OF blit_store32 [OF a(1)]] .
    ultimately show ?thesis using oc by (simp add: e)
  qed
qed simp

lemma retouch_mask_data_infer:
  assumes "retouched_file d b r es" "es \<noteq> []"
    and "\<forall>(off, c) \<in> set es. Read4 (drop (retouch_entry r off) d) = Some (c + t)"
  shows "retouch_mask_data d (int (length d)) None = Some (RETOUCH_DATA_MATCHED, d, t)"
proof -
  note f = assms(1) [unfolded retouched_file_def]
  have n: "nat (int (length d) - 16) = r + 4" "nat (int (length d) - 20) = r" "int (length d) - 20 = int r"
    "nat (int (length d) - 8) = r + 12"
    using f by auto
  have m: "mask_loop b r None d b init_compression_state j =
      Some (d, Some (r, fold (\<lambda>_. infer t) es j))" for j
    using f assms(3) by (intro mask_loop_infer) auto
  obtain e es' where es: "es = e # es'" using assms(2) by (cases es) auto
  note s = blob_start [OF assms(1)]
  show ?thesis
    using f n m s
    by (simp add: retouch_mask_data_def Let_def fold_infer infer_def es add.commute)
qed

section \<open>Properties\<close>

text \<open>
  C14. \<open>retouch_mask_data\<close> is safe on every file: whatever the tags, the blob size and the
  encoded entries are, all accesses stay inside the file, the loop ends, the file keeps its
  size, and the status is one of the four documented ones; when retouching (a desired offset is
  given) it is never \<open>MISMATCHED\<close> or \<open>NOTAPPLICABLE\<close>.
\<close>

theorem retouch_total:
  assumes "int (length data) \<le> LONG_MAX"
  shows "\<exists>st data' off. retouch_mask_data data (int (length data)) desired = Some (st, data', off) \<and>
    length data' = length data \<and> st \<in> {RETOUCH_DATA_ERROR, RETOUCH_DATA_MATCHED,
      RETOUCH_DATA_MISMATCHED, RETOUCH_DATA_NOTAPPLICABLE} \<and>
    (desired \<noteq> None \<longrightarrow> st \<in> {RETOUCH_DATA_ERROR, RETOUCH_DATA_MATCHED})"
proof (cases "length data < 20")
  case False
  define r where "r = length data - 20"
  have n: "nat (int (length data) - 20) = r" "nat (int (length data) - 8) = r + 12" "nat (int (length data) - 16) = r + 4"
    "int (length data) - 20 = int r" "length data = r + 20"
    using False by (auto simp: r_def)
  obtain bs where bs: "Read4 (drop (r + 8) data) = Some bs" using Read4_defined [of "drop (r + 8) data"] n by auto
  define b where "b = nat (sint (word_of_int (int r) - bs :: u32))"
  let ?t = "case desired of None \<Rightarrow> 0 | Some d \<Rightarrow> d"
  have "agrees desired \<lparr>offset_candidate = ?t, offset_set = False, offset_mismatch = False\<rparr>"
    by (cases desired) (simp_all add: agrees_def)
  with n(5) obtain data' res where "mask_loop b r desired data b init_compression_state
        \<lparr>offset_candidate = ?t, offset_set = False, offset_mismatch = False\<rparr> = Some (data', res)"
      and "length data' = length data" "\<forall>p j. res = Some (p, j) \<longrightarrow> agrees desired j"
    using mask_loop_defined [of b b r data desired _ init_compression_state] by (metis order_refl)
  then show ?thesis
    using n bs False
    by (cases "desired = None") (auto simp: retouch_mask_data_def Let_def slice_def b_def agrees_def split: option.splits)
qed (simp add: retouch_mask_data_def Let_def)

definition demo_library :: "byte list" where
  "demo_library = [1, 2, 3, 4] @ [0, 0, 0, 0, 0, 0, 0, 16] @ bytes_of ''RETOUCH '' @ [8, 0, 0, 0] @ [9, 9, 9, 9] @ bytes_of ''PRE ''"

theorem retouch_total_witness:
  "\<exists>st data' off. retouch_mask_data demo_library 32 (Some 5) = Some (st, data', off) \<and> length data' = 32"
  using retouch_total [of demo_library "Some 5"] by (auto simp: demo_library_def bytes_of_def LONG_MAX_def)

text \<open>
  C15. Masking makes patching blind to the randomisation: retouching a library by any offset
  \<open>t\<close> succeeds, and masking the retouched library (offset 0) gives the same bytes as masking
  the library itself. When the entries do not overlap, calling the function without a desired
  offset on the retouched library finds \<open>t\<close> again and leaves it alone.
\<close>

theorem retouch_round_trip:
  assumes "retouched_file d b r es"
  shows "\<exists>d'. retouch_mask_data d (int (length d)) (Some t) = Some (RETOUCH_DATA_MATCHED, d', t) \<and>
    retouch_mask_data d' (int (length d)) (Some 0) = retouch_mask_data d (int (length d)) (Some 0) \<and>
    (disjoint_entries r es \<and> es \<noteq> [] \<longrightarrow>
       retouch_mask_data d' (int (length d)) None = Some (RETOUCH_DATA_MATCHED, d', t))"
proof -
  let ?d = "set_entries r t d es"
  note f = assms [unfolded retouched_file_def]
  have fit: "entries_fit b r es" "r + 20 \<le> length d" using f by simp_all
  have l: "length ?d = length d" by (rule set_entries_length [OF fit])
  have d: "retouched_file ?d b r es" by (rule retouched_file_set [OF assms])
  have "set_entries r 0 ?d es = set_entries r 0 d es"
    using fit l by (intro set_entries_canonical [OF fit(1)]) (auto intro: set_entries_uncovered)
  then have "retouch_mask_data ?d (int (length d)) (Some 0) = retouch_mask_data d (int (length d)) (Some 0)"
    using retouch_mask_data_set [OF d, of 0] retouch_mask_data_set [OF assms, of 0] l by simp
  moreover have "retouch_mask_data ?d (int (length d)) None = Some (RETOUCH_DATA_MATCHED, ?d, t)"
    if "disjoint_entries r es" "es \<noteq> []"
    using retouch_mask_data_infer [OF d that(2)] set_entries_read [OF fit that(1)] l by auto
  ultimately show ?thesis using retouch_mask_data_set [OF assms, of t] by blast
qed

theorem retouch_round_trip_witness:
  "retouched_file demo_library 4 12 [(0, 16)] \<and> disjoint_entries 12 [(0, 16)] \<and>
   (\<exists>d'. retouch_mask_data demo_library 32 (Some 5) = Some (RETOUCH_DATA_MATCHED, d', 5) \<and>
         retouch_mask_data d' 32 None = Some (RETOUCH_DATA_MATCHED, d', 5))"
proof -
  have "retouched_file demo_library 4 12 [(0, 16)]" by code_simp
  then show ?thesis using retouch_round_trip [of demo_library 4 12 "[(0, 16)]" 5]
    by (auto simp: demo_library_def bytes_of_def)
qed

end
