(* ===== verification/Applypatch.thy ===== *)
theory Applypatch
  imports Imgpatch Freecache Mtd Retouch
begin

text \<open>
  The patch tool, \<open>applypatch/applypatch.c\<close>: loading files and partitions, saving and writing
  them back with verification, and \<open>applypatch\<close> itself.

  The state \<open>ap\<close> is the system together with the static variables (the table of MTD partitions
  and whether it was scanned). The libraries are the parameter \<open>L\<close>. The fields of a
  \<open>FileContents\<close> that have not been set are \<open>None\<close>: reading them is undefined, like any other
  undefined behaviour and a loop that does not end.
\<close>

section \<open>Data\<close>

record FileContents =
  fc_sha1 :: "byte list"
  fc_data :: "byte list option"
  fc_size :: "int option"
  fc_st :: "(int \<times> int \<times> int) option"

definition fresh_contents :: FileContents where
  "fresh_contents = \<lparr>fc_sha1 = [], fc_data = None, fc_size = None, fc_st = None\<rparr>"

record ap =
  ap_os :: os
  ap_mtd :: MtdState
  mtd_partitions_scanned :: bool

definition is_partition :: "string \<Rightarrow> bool" where
  "is_partition filename \<longleftrightarrow> starts_with filename ''MTD:'' \<or> starts_with filename ''EMMC:''"

section \<open>Digests\<close>

definition SHA_DIGEST_SIZE :: nat where "SHA_DIGEST_SIZE = 20"

definition sha_digit :: "char \<Rightarrow> nat option" where
  "sha_digit c =
     (if CHR ''0'' \<le> c \<and> c \<le> CHR ''9'' then Some (of_char c - of_char (CHR ''0''))
      else if CHR ''a'' \<le> c \<and> c \<le> CHR ''f'' then Some (of_char c - of_char (CHR ''a'') + 10)
      else if CHR ''A'' \<le> c \<and> c \<le> CHR ''F'' then Some (of_char c - of_char (CHR ''A'') + 10)
      else None)"

text \<open>\<open>n\<close> bytes from two digits each, and the rest of the string.\<close>

fun sha_digits :: "nat \<Rightarrow> string \<Rightarrow> (byte list \<times> string) option" where
  "sha_digits 0 ps = Some ([], ps)"
| "sha_digits (Suc n) (h # l # ps) = do {
     hv \<leftarrow> sha_digit h;
     lv \<leftarrow> sha_digit l;
     (pd, ps) \<leftarrow> sha_digits n ps;
     Some ((push_bit 4 (of_nat hv) OR of_nat lv) # pd, ps)
   }"
| "sha_digits (Suc n) ps = None"

text \<open>The digest, or \<open>None\<close> for the return value -1.\<close>

definition ParseSha1 :: "string \<Rightarrow> byte list option" where
  "ParseSha1 str = (case sha_digits SHA_DIGEST_SIZE str of
       Some (digest, ps) \<Rightarrow> if ps \<noteq> '''' then None else Some digest
     | None \<Rightarrow> None)"

fun find_patch :: "byte list \<Rightarrow> string list \<Rightarrow> int \<Rightarrow> int" where
  "find_patch sha1 [] i = -1"
| "find_patch sha1 (s # ss) i = (if ParseSha1 s = Some sha1 then i else find_patch sha1 ss (i + 1))"

definition FindMatchingPatch :: "byte list \<Rightarrow> string list \<Rightarrow> int" where
  "FindMatchingPatch sha1 patch_sha1_str = find_patch sha1 patch_sha1_str 0"

section \<open>Loading\<close>

definition compare_size_indices :: "u32 list \<Rightarrow> nat \<Rightarrow> nat \<Rightarrow> int" where
  "compare_size_indices size_array aa bb =
     (if size_array ! aa < size_array ! bb then -1
      else if size_array ! aa > size_array ! bb then 1
      else 0)"

text \<open>\<open>qsort\<close> with a comparison function (equal elements stay in order).\<close>

fun qsort_insert :: "('a \<Rightarrow> 'a \<Rightarrow> int) \<Rightarrow> 'a \<Rightarrow> 'a list \<Rightarrow> 'a list" where
  "qsort_insert cmp x [] = [x]"
| "qsort_insert cmp x (y # ys) = (if cmp x y \<le> 0 then x # y # ys else y # qsort_insert cmp x ys)"

definition qsort :: "('a \<Rightarrow> 'a \<Rightarrow> int) \<Rightarrow> 'a list \<Rightarrow> 'a list" where
  "qsort cmp xs = foldr (qsort_insert cmp) xs []"

text \<open>
  The pairs of size and digest in a partition name. \<open>Inl\<close> is the return for a bad size; a missing
  digest is found out only when it is parsed.
\<close>

fun parse_pairs :: "nat \<Rightarrow> string \<Rightarrow> (unit + (u32 \<times> string option) list) option" where
  "parse_pairs 0 rest = Some (Inr [])"
| "parse_pairs (Suc n) rest = do {
     (size_str, rest) \<leftarrow> strtok '':'' rest;
     let sz = word_of_int (fst (strtol size_str));
     if sz = 0 then Some (Inl ())
     else let (sha1sum, rest) = (case strtok '':'' rest of
                  Some (s, rest) \<Rightarrow> (Some s, rest) | None \<Rightarrow> (None, ''''))
          in do {
            r \<leftarrow> parse_pairs n rest;
            Some (map_sum (\<lambda>u. u) (Cons (sz, sha1sum)) r)
          }
   }"

datatype reader = MtdReader MtdReadContext | EmmcReader fd

definition read_partition :: "reader \<Rightarrow> u32 \<Rightarrow> os \<Rightarrow> (u32 \<times> byte list \<times> reader \<times> os) option" where
  "read_partition rdr next w =
     (case rdr of
        MtdReader ctx \<Rightarrow> do {
          (r, bs, ctx, w) \<leftarrow> mtd_read_data ctx (unat next) w;
          Some (word_of_int r, bs, MtdReader ctx, w)
        }
      | EmmcReader dev \<Rightarrow>
          let (bs, dev, w) = sys_fread dev (unat next) w in Some (of_nat (length bs), bs, EmmcReader dev, w))"

text \<open>
  Reading up to the next size and comparing the digest. The result is the data read so far (its
  length is \<open>file->size\<close>) and \<open>Inl\<close> for an immediate return, or \<open>Inr\<close> whether a pair matched, the
  SHA context and the reader.
\<close>

fun load_pairs ::
  "'c shalib \<Rightarrow> (u32 \<times> string option) list \<Rightarrow> reader \<Rightarrow> byte list \<Rightarrow> 'c \<Rightarrow> os \<Rightarrow>
   (byte list \<times> (unit + bool \<times> 'c \<times> reader) \<times> os) option" where
  "load_pairs sha [] rdr data sha_ctx w = Some (data, Inr (False, sha_ctx, rdr), w)"
| "load_pairs sha ((sz, sha1sum) # ps) rdr data sha_ctx w =
     (let next = sz - of_nat (length data)
      in do {
        (read, bs, rdr, w) \<leftarrow> (if next > 0 then read_partition rdr next w else Some (0, [], rdr, w));
        if next \<noteq> read then Some (data, Inl (), w)
        else let data = data @ bs; sha_ctx = (if next > 0 then SHA_update sha sha_ctx bs else sha_ctx)
             in do {
               str \<leftarrow> sha1sum;
               (case ParseSha1 str of
                  None \<Rightarrow> Some (data, Inl (), w)
                | Some parsed_sha \<Rightarrow>
                    if SHA_final sha sha_ctx = parsed_sha then Some (data, Inr (True, sha_ctx, rdr), w)
                    else load_pairs sha ps rdr data sha_ctx w)
             }
      })"

text \<open>The partition by name; the table is scanned on the first use.\<close>

definition find_mtd :: "string \<Rightarrow> ap \<Rightarrow> (MtdPartition option \<times> ap) option" where
  "find_mtd part a = do {
     a \<leftarrow> (if \<not> mtd_partitions_scanned a
          then do {
            (_, st, w) \<leftarrow> mtd_scan_partitions (ap_mtd a) (ap_os a);
            Some \<lparr>ap_os = w, ap_mtd = st, mtd_partitions_scanned = True\<rparr>
          }
          else Some a);
     Some (mtd_find_partition_by_name (ap_mtd a) part, a)
   }"

definition open_reader :: "string \<Rightarrow> string \<Rightarrow> ap \<Rightarrow> (reader option \<times> ap) option" where
  "open_reader magic part a =
     (if magic = ''MTD''
      then do {
        (mtd, a) \<leftarrow> find_mtd part a;
        (case mtd of
           None \<Rightarrow> Some (None, a)
         | Some mtd \<Rightarrow>
             let (ctx, w) = mtd_read_partition mtd (ap_os a)
             in Some (map_option MtdReader ctx, a\<lparr>ap_os := w\<rparr>))
      }
      else let (dev, w) = sys_open False False 0 part (ap_os a)
           in Some (map_option EmmcReader dev, a\<lparr>ap_os := w\<rparr>))"

definition close_reader :: "reader \<Rightarrow> os \<Rightarrow> os" where
  "close_reader rdr w = (case rdr of MtdReader ctx \<Rightarrow> mtd_read_close ctx w | EmmcReader dev \<Rightarrow> snd (sys_status w))"

definition sorted_pairs :: "(u32 \<times> string option) list \<Rightarrow> (u32 \<times> string option) list" where
  "sorted_pairs ps = map (nth ps) (qsort (compare_size_indices (map fst ps)) [0..<length ps])"

text \<open>Reading from the open partition until a pair matches.\<close>

definition load_from ::
  "('z, 'd, 'c) libs \<Rightarrow> FileContents \<Rightarrow> (u32 \<times> string option) list \<Rightarrow> reader \<Rightarrow> os \<Rightarrow> (int \<times> FileContents \<times> os) option" where
  "load_from L file ps rdr w =
     (if ps = [] \<or> \<not> l_malloc L (uint (fst (last (sorted_pairs ps)))) then None
      else do {
        (data, r, w) \<leftarrow> load_pairs (l_sha L) (sorted_pairs ps) rdr [] (SHA_init (l_sha L)) w;
        let failed = file\<lparr>fc_data := None, fc_size := Some (int (length data))\<rparr>;
        Some (case r of
            Inl _ \<Rightarrow> (-1, failed, w)
          | Inr (found, sha_ctx, rdr) \<Rightarrow>
              (if \<not> found then -1 else 0,
               if \<not> found then failed
               else \<lparr>fc_sha1 = SHA_final (l_sha L) sha_ctx, fc_data = Some data,
                      fc_size = Some (int (length data)), fc_st = Some (420, 0, 0)\<rparr>,
               close_reader rdr w))
      })"

definition LoadPartitionContents ::
  "('z, 'd, 'c) libs \<Rightarrow> string \<Rightarrow> FileContents \<Rightarrow> ap \<Rightarrow> (int \<times> FileContents \<times> ap) option" where
  "LoadPartitionContents L filename file a = do {
     (magic, rest) \<leftarrow> strtok '':'' filename;
     if magic \<noteq> ''MTD'' \<and> magic \<noteq> ''EMMC'' then Some (-1, file, a)
     else do {
       (part, rest) \<leftarrow> strtok '':'' rest;
       let colons = length (filter (\<lambda>c. c = CHR '':'') filename);
       let pairs = (colons - 1) div 2;
       ps \<leftarrow> parse_pairs pairs rest;
       (case ps of
          Inl _ \<Rightarrow> Some (-1, file, a)
        | Inr ps \<Rightarrow> do {
            (rdr, a) \<leftarrow> open_reader magic part a;
            (case rdr of
               None \<Rightarrow> Some (-1, file, a)
             | Some rdr \<Rightarrow> do {
                 (r, file, w) \<leftarrow> load_from L file ps rdr (ap_os a);
                 Some (r, file, a\<lparr>ap_os := w\<rparr>)
               })
          })
     }
   }"

definition LoadFileContents ::
  "('z, 'd, 'c) libs \<Rightarrow> string \<Rightarrow> FileContents \<Rightarrow> bool \<Rightarrow> ap \<Rightarrow> (int \<times> FileContents \<times> ap) option" where
  "LoadFileContents L filename file retouch_flag a =
     (let file = file\<lparr>fc_data := None\<rparr>
      in if is_partition filename then LoadPartitionContents L filename file a
         else case sys_stat filename (ap_os a) of
             (Inl e, w) \<Rightarrow> Some (if e = - ENOENT then - ENOENT else -1, file, a\<lparr>ap_os := w\<rparr>)
           | (Inr st, w) \<Rightarrow>
               let sz = length (i_data st);
                   file = file\<lparr>fc_st := Some (i_mode st, i_uid st, i_gid st), fc_size := Some (int sz)\<rparr>;
                   (f, w) = sys_open False False 0 filename w
               in (case f of
                     None \<Rightarrow> Some (-1, file, a\<lparr>ap_os := w\<rparr>)
                   | Some f \<Rightarrow>
                       if \<not> l_malloc L (int sz) then None
                       else let (data, f, w) = sys_fread f sz w
                            in if length data \<noteq> sz then Some (-1, file, a\<lparr>ap_os := w\<rparr>)
                               else let (_, w) = sys_status w; a = a\<lparr>ap_os := w\<rparr>
                                    in do {
                                      (ok, data) \<leftarrow>
                                        (if retouch_flag
                                         then do {
                                           (st, data, _) \<leftarrow> retouch_mask_data data (int sz) (Some 0);
                                           Some (st = RETOUCH_DATA_MATCHED, data)
                                         }
                                         else Some (True, data));
                                      if \<not> ok then Some (-1, file, a)
                                      else Some (0, file\<lparr>fc_data := Some data, fc_sha1 := SHA_hash (l_sha L) data\<rparr>, a)
                                    }))"

section \<open>Saving and writing back\<close>

text \<open>
  A \<open>NULL\<close> data pointer makes \<open>write\<close> fail (\<open>EFAULT\<close>), so that \<open>FileSink\<close> returns 0.
\<close>

definition SaveFileContents :: "string \<Rightarrow> FileContents \<Rightarrow> os \<Rightarrow> (int \<times> os) option" where
  "SaveFileContents filename file w =
     (case sys_open True True 384 filename w of
        (None, w) \<Rightarrow> Some (-1, w)
      | (Some f, w) \<Rightarrow> do {
          sz \<leftarrow> fc_size file;
          ((f, w), bytes_written) \<leftarrow>
            (case fc_data file of
               None \<Rightarrow> Some ((f, w), 0)
             | Some data \<Rightarrow> do {
                 bs \<leftarrow> slice data 0 (nat sz);
                 FileSink (f, w) bs
               });
          if bytes_written \<noteq> sz then Some (-1, snd (sys_status w))
          else do {
            (mode, uid, gid) \<leftarrow> fc_st file;
            let (_, w) = sys_status w;
            let (_, w) = sys_status w;
            let (r, w) = sys_chmod filename mode w;
            if r \<noteq> 0 then Some (-1, w)
            else let (r, w) = sys_chown filename uid gid w
                 in Some (if r \<noteq> 0 then -1 else 0, w)
          }
        })"

text \<open>The loops of the block device case; \<open>Inl\<close> is a \<open>return -1\<close>.\<close>

partial_function (option) emmc_write :: "fd \<Rightarrow> byte list \<Rightarrow> os \<Rightarrow> (os + fd \<times> os) option" where
  [code]: "emmc_write f data w =
     (if data = [] then Some (Inr (f, w))
      else let (written, f, w) = sys_write f (take 1048576 data) w
           in if written < 0
              then if written = - EINTR then emmc_write f data w else Some (Inl w)
              else emmc_write f (drop (nat written) data) w)"

partial_function (option) emmc_read :: "fd \<Rightarrow> nat \<Rightarrow> byte list \<Rightarrow> os \<Rightarrow> (os + byte list \<times> fd \<times> os) option" where
  [code]: "emmc_read f to_read buffer w =
     (if length buffer < to_read
      then let ((read_count, bs), f, w) = sys_read f (to_read - length buffer) w
           in if read_count < 0
              then if read_count = - EINTR then emmc_read f to_read buffer w else Some (Inl w)
              else emmc_read f to_read (buffer @ bs) w
      else Some (Inr (buffer, f, w)))"

text \<open>The verification: \<open>None\<close> if all of the data was read back, otherwise the start of the bad piece.\<close>

function emmc_verify :: "byte list \<Rightarrow> nat \<Rightarrow> fd \<Rightarrow> os \<Rightarrow> (os + nat option \<times> fd \<times> os) option" where
  "emmc_verify data p f w =
     (if p < length data
      then let to_read = min (length data - p) 4096
           in do {
             r \<leftarrow> emmc_read f to_read [] w;
             (case r of
                Inl w \<Rightarrow> Some (Inl w)
              | Inr (buffer, f, w) \<Rightarrow>
                  if buffer \<noteq> take to_read (drop p data) then Some (Inr (Some p, f, w))
                  else emmc_verify data (p + 4096) f w)
           }
      else Some (Inr (None, f, w)))"
  by pat_completeness auto
termination
  by (relation "measure (\<lambda>(data, p, f, w). length data - p)") auto

declare emmc_verify.simps [simp del]

definition drop_caches :: "os \<Rightarrow> os" where
  "drop_caches w =
     (case sys_open False False 0 ''/proc/sys/vm/drop_caches'' w of
        (None, w) \<Rightarrow> w
      | (Some dc, w) \<Rightarrow> let (_, dc, w) = sys_write dc (bytes_of (''3'' @ [CHR 0x0A])) w in snd (sys_status w))"

text \<open>The attempts that are left, and where the next one starts; \<open>Inr\<close> is whether one succeeded.\<close>

fun emmc_attempts :: "nat \<Rightarrow> byte list \<Rightarrow> nat \<Rightarrow> fd \<Rightarrow> os \<Rightarrow> (os + bool \<times> fd \<times> os) option" where
  "emmc_attempts 0 data start f w = Some (Inr (False, f, w))"
| "emmc_attempts (Suc n) data start f w = do {
     r \<leftarrow> emmc_write (sys_lseek f start) (drop start data) w;
     (case r of
        Inl w \<Rightarrow> Some (Inl w)
      | Inr (f, w) \<Rightarrow> do {
          let (_, w) = sys_status w;
          let w = drop_caches w;
          r \<leftarrow> emmc_verify data 0 (sys_lseek f 0) w;
          (case r of
             Inl w \<Rightarrow> Some (Inl w)
           | Inr (None, f, w) \<Rightarrow> Some (Inr (True, f, w))
           | Inr (Some p, f, w) \<Rightarrow> emmc_attempts n data p f w)
        })
   }"

definition write_mtd :: "byte list \<Rightarrow> string \<Rightarrow> ap \<Rightarrow> (int \<times> ap) option" where
  "write_mtd data part a = do {
     (mtd, a) \<leftarrow> find_mtd part a;
     (case mtd of
        None \<Rightarrow> Some (-1, a)
      | Some mtd \<Rightarrow>
          (case mtd_write_partition mtd (ap_os a) of
             (None, w) \<Rightarrow> Some (-1, a\<lparr>ap_os := w\<rparr>)
           | (Some ctx, w) \<Rightarrow> do {
               (written, ctx, w) \<leftarrow> mtd_write_data ctx data w;
               if word_of_int written \<noteq> (of_nat (length data) :: u32)
               then do { (_, w) \<leftarrow> mtd_write_close ctx w; Some (-1, a\<lparr>ap_os := w\<rparr>) }
               else do {
                 (e, ctx, w) \<leftarrow> mtd_erase_blocks ctx (-1) w;
                 (r, w) \<leftarrow> mtd_write_close ctx w;
                 Some (if e < 0 then -1 else if r \<noteq> 0 then -1 else 0, a\<lparr>ap_os := w\<rparr>)
               }
             }))
   }"

definition write_emmc :: "byte list \<Rightarrow> string \<Rightarrow> os \<Rightarrow> (int \<times> os) option" where
  "write_emmc data part w =
     (case sys_open False False 0 part w of
        (None, w) \<Rightarrow> Some (-1, w)
      | (Some f, w) \<Rightarrow> do {
          r \<leftarrow> emmc_attempts 2 data 0 f w;
          (case r of
             Inl w \<Rightarrow> Some (-1, w)
           | Inr (success, f, w) \<Rightarrow>
               if \<not> success then Some (-1, w)
               else let (c, w) = sys_status w in Some (if c \<noteq> 0 then -1 else 0, w))
        })"

definition WriteToPartition :: "byte list \<Rightarrow> string \<Rightarrow> ap \<Rightarrow> (int \<times> ap) option" where
  "WriteToPartition data target a = do {
     (magic, rest) \<leftarrow> strtok '':'' target;
     if magic \<noteq> ''MTD'' \<and> magic \<noteq> ''EMMC'' then Some (-1, a)
     else case strtok '':'' rest of
         None \<Rightarrow> Some (-1, a)
       | Some (part, _) \<Rightarrow>
           if magic = ''MTD'' then write_mtd data part a
           else do { (r, w) \<leftarrow> write_emmc data part (ap_os a); Some (r, a\<lparr>ap_os := w\<rparr>) }
   }"

section \<open>Checking\<close>

definition applypatch_check :: "('z, 'd, 'c) libs \<Rightarrow> string \<Rightarrow> string list \<Rightarrow> ap \<Rightarrow> (int \<times> ap) option" where
  "applypatch_check L filename patch_sha1_str a = do {
     (filestate, file, a) \<leftarrow> LoadFileContents L filename fresh_contents True a;
     if filestate = - ENOENT then Some (- ENOENT, a)
     else if filestate \<noteq> 0 \<or> (patch_sha1_str \<noteq> [] \<and> FindMatchingPatch (fc_sha1 file) patch_sha1_str < 0)
     then do {
       (r, file, a) \<leftarrow> LoadFileContents L CACHE_TEMP_SOURCE (file\<lparr>fc_data := None\<rparr>) True a;
       if r \<noteq> 0 then Some (1, a)
       else if FindMatchingPatch (fc_sha1 file) patch_sha1_str < 0 then Some (1, a)
       else Some (0, a)
     }
     else Some (0, a)
   }"

section \<open>Patching\<close>

text \<open>Everything before \<open>GenerateTarget\<close> applies the patch; \<open>None\<close> inside is an unknown format.\<close>

definition run_patch ::
  "('z, 'd, 'c) libs \<Rightarrow> FileContents \<Rightarrow> Value \<Rightarrow> Value option \<Rightarrow> 't sink \<Rightarrow> 't \<Rightarrow> (int \<times> 't \<times> 'c) option option" where
  "run_patch L source patch bonus_data sink token = do {
     data \<leftarrow> fc_data source;
     sz \<leftarrow> fc_size source;
     header \<leftarrow> (if vsize patch \<ge> 8 then slice (vbytes patch) 0 8 else Some []);
     if header = bytes_of ''BSDIFF40''
     then do {
       (r, token, ctx) \<leftarrow> ApplyBSDiffPatch (l_bz L) (l_malloc L) (l_sha L) data sz patch 0 sink token
         (Some (SHA_init (l_sha L)));
       ctx \<leftarrow> ctx;
       Some (Some (r, token, ctx))
     }
     else if header = bytes_of ''IMGDIFF2''
     then do {
       r \<leftarrow> ApplyImagePatch L data sz patch sink token (SHA_init (l_sha L)) bonus_data;
       Some (Some r)
     }
     else Some None
   }"

definition target_fs :: "string \<Rightarrow> string option" where
  "target_fs target_filename =
     (case target_filename of
        [] \<Rightarrow> None
      | c # cs \<Rightarrow> Some (c # takeWhile (\<lambda>c. c \<noteq> CHR ''/'') cs))"

record 'c job =
  j_libs :: "'c"
  j_source :: FileContents
  j_source_patch :: "Value option"
  j_copy :: FileContents
  j_copy_patch :: "Value option"
  j_source_filename :: string
  j_target_filename :: string
  j_target_sha1 :: "byte list"
  j_target_size :: u32
  j_bonus :: "Value option"

text \<open>Copying the source to the cache partition; the result is whether it worked.\<close>

definition back_up :: "FileContents \<Rightarrow> os \<Rightarrow> (bool \<times> os) option" where
  "back_up source_file w = do {
     sz \<leftarrow> fc_size source_file;
     let (r, w) = MakeFreeSpaceOnCache (word_of_int sz) w;
     if r < 0 then Some (False, w)
     else do {
       (r, w) \<leftarrow> SaveFileContents CACHE_TEMP_SOURCE source_file w;
       Some (r \<ge> 0, w)
     }
   }"

text \<open>
  Making room for the target. The result is \<open>None\<close> for a return with 1, otherwise \<open>retry\<close> and
  whether a copy was made now.
\<close>

definition make_room :: "'c job \<Rightarrow> bool \<Rightarrow> string \<Rightarrow> os \<Rightarrow> ((bool \<times> bool) option \<times> os) option" where
  "make_room j retry fs w =
     (if is_partition (j_target_filename j)
      then do {
        (ok, w) \<leftarrow> back_up (j_source j) w;
        Some (if ok then Some (False, True) else None, w)
      }
      else
        let (enough_space, w) =
              (if retry
               then let (free_space, w) = FreeSpaceForFile fs w
                    in (free_space > 262144 \<and> free_space > j_target_size j * 3 div 2, w)
               else (False, w))
        in if \<not> enough_space \<and> j_source_patch j \<noteq> None
           then if is_partition (j_source_filename j) then Some (None, w)
                else do {
                  (ok, w) \<leftarrow> back_up (j_source j) w;
                  if \<not> ok then Some (None, w)
                  else let (_, w) = sys_unlink (j_source_filename j) w; (_, w) = FreeSpaceForFile fs w
                       in Some (Some (False, True), w)
                }
           else Some (Some (retry \<and> enough_space, False), w))"

datatype patch_output = ToMemory MemorySinkInfo | ToFile string

text \<open>Decoding the patch into memory or into the file; \<open>None\<close> inside is a return with 1.\<close>

definition decode ::
  "('z, 'd, 'c) libs job \<Rightarrow> FileContents \<Rightarrow> Value \<Rightarrow> os \<Rightarrow> ((int \<times> patch_output \<times> 'c) option \<times> os) option" where
  "decode j source patch w =
     (let L = j_libs j
      in if vtype patch \<noteq> VAL_BLOB then Some (None, w)
         else if is_partition (j_target_filename j)
         then if \<not> l_malloc L (uint (j_target_size j)) then Some (None, w)
              else do {
                r \<leftarrow> run_patch L source patch (j_bonus j) MemorySink
                  \<lparr>msi_buffer = replicate (unat (j_target_size j)) 0, msi_size = sint (j_target_size j), msi_pos = 0\<rparr>;
                Some (map_option (\<lambda>(r, msi, ctx). (r, ToMemory msi, ctx)) r, w)
              }
         else let outname = j_target_filename j @ ''.patch''
              in case sys_open True True 384 outname w of
                   (None, w) \<Rightarrow> Some (None, w)
                 | (Some f, w) \<Rightarrow> do {
                     r \<leftarrow> run_patch L source patch (j_bonus j) FileSink (f, w);
                     Some (case r of
                         None \<Rightarrow> (None, w)
                       | Some (r, (f, w), ctx) \<Rightarrow>
                           let (_, w) = sys_status w; (_, w) = sys_status w in (Some (r, ToFile outname, ctx), w))
                   })"

text \<open>
  The loop. The result is \<open>Inl\<close> for a return, otherwise the decoded output, its SHA context, the
  source that was used and whether a copy was made.
\<close>

fun generate_loop ::
  "nat \<Rightarrow> ('z, 'd, 'c) libs job \<Rightarrow> bool \<Rightarrow> bool \<Rightarrow> string \<Rightarrow> os \<Rightarrow>
   ((int + patch_output \<times> 'c \<times> FileContents \<times> bool) \<times> os) option" where
  "generate_loop 0 j retry made_copy fs w = None"
| "generate_loop (Suc n) j retry made_copy fs w = do {
     (room, w) \<leftarrow> make_room j retry fs w;
     (case room of
        None \<Rightarrow> Some (Inl 1, w)
      | Some (retry, copied) \<Rightarrow>
          let made_copy = (made_copy \<or> copied) in do {
            (source, patch) \<leftarrow> (case j_source_patch j of
                Some p \<Rightarrow> Some (j_source j, p)
              | None \<Rightarrow> do { p \<leftarrow> j_copy_patch j; Some (j_copy j, p) });
            (d, w) \<leftarrow> decode j source patch w;
            (case d of
               None \<Rightarrow> Some (Inl 1, w)
             | Some (result, output, ctx) \<Rightarrow>
                 if result \<noteq> 0
                 then if \<not> retry then Some (Inl 1, w)
                      else let w = (case output of ToFile outname \<Rightarrow> snd (sys_unlink outname w) | _ \<Rightarrow> w)
                           in generate_loop n j False made_copy fs w
                 else Some (Inr (output, ctx, source, made_copy), w))
          })
   }"

text \<open>Giving the file its owner and mode and moving it into place.\<close>

definition install_file :: "FileContents \<Rightarrow> string \<Rightarrow> string \<Rightarrow> os \<Rightarrow> (int \<times> os) option" where
  "install_file source outname target_filename w = do {
     (mode, uid, gid) \<leftarrow> fc_st source;
     let (r, w) = sys_chmod outname mode w;
     if r \<noteq> 0 then Some (1, w)
     else let (r, w) = sys_chown outname uid gid w
          in if r \<noteq> 0 then Some (1, w)
             else let (r, w) = sys_rename outname target_filename w in Some (if r \<noteq> 0 then 1 else 0, w)
   }"

definition GenerateTarget :: "('z, 'd, 'c) libs job \<Rightarrow> ap \<Rightarrow> (int \<times> ap) option" where
  "GenerateTarget j a = do {
     fs \<leftarrow> target_fs (j_target_filename j);
     (r, w) \<leftarrow> generate_loop 2 j True False fs (ap_os a);
     let a = a\<lparr>ap_os := w\<rparr>;
     (case r of
        Inl r \<Rightarrow> Some (r, a)
      | Inr (output, ctx, source, made_copy) \<Rightarrow>
          if SHA_final (l_sha (j_libs j)) ctx \<noteq> j_target_sha1 j then Some (1, a)
          else do {
            (r, a) \<leftarrow> (case output of
                ToMemory msi \<Rightarrow> WriteToPartition (take (nat (msi_pos msi)) (msi_buffer msi)) (j_target_filename j) a
              | ToFile outname \<Rightarrow> do {
                  (r, w) \<leftarrow> install_file source outname (j_target_filename j) (ap_os a);
                  Some (r, a\<lparr>ap_os := w\<rparr>)
                });
            if r \<noteq> 0 then Some (1, a)
            else Some (0, if made_copy then a\<lparr>ap_os := snd (sys_unlink CACHE_TEMP_SOURCE (ap_os a))\<rparr> else a)
          })
   }"

text \<open>The value of the matching patch, if there is one.\<close>

definition matching_patch :: "FileContents \<Rightarrow> string list \<Rightarrow> Value list \<Rightarrow> Value option option" where
  "matching_patch file patch_sha1_str patch_data =
     (let to_use = FindMatchingPatch (fc_sha1 file) patch_sha1_str
      in if to_use \<ge> 0 then do { v \<leftarrow> rd patch_data (nat to_use); Some (Some v) } else Some None)"

definition applypatch ::
  "('z, 'd, 'c) libs \<Rightarrow> string \<Rightarrow> string \<Rightarrow> string \<Rightarrow> u32 \<Rightarrow> string list \<Rightarrow> Value list \<Rightarrow> Value option \<Rightarrow> ap \<Rightarrow>
   (int \<times> ap) option" where
  "applypatch L source_filename target_filename target_sha1_str tgt_size patch_sha1_str patch_data bonus_data a =
     (let target_filename = (if target_filename = ''-'' then source_filename else target_filename)
      in case ParseSha1 target_sha1_str of
           None \<Rightarrow> Some (1, a)
         | Some target_sha1 \<Rightarrow> do {
             (r, source_file, a) \<leftarrow> LoadFileContents L target_filename fresh_contents True a;
             if r = 0 \<and> fc_sha1 source_file = target_sha1 then Some (0, a)
             else do {
               (source_file, a) \<leftarrow>
                 (if fc_data source_file = None \<or> target_filename \<noteq> source_filename
                  then do {
                    (_, f, a) \<leftarrow> LoadFileContents L source_filename (source_file\<lparr>fc_data := None\<rparr>) True a;
                    Some (f, a)
                  }
                  else Some (source_file, a));
               source_patch_value \<leftarrow> (if fc_data source_file \<noteq> None
                  then matching_patch source_file patch_sha1_str patch_data else Some None);
               let job = \<lparr>j_libs = L, j_source = source_file, j_source_patch = source_patch_value,
                     j_copy = fresh_contents, j_copy_patch = None, j_source_filename = source_filename,
                     j_target_filename = target_filename, j_target_sha1 = target_sha1,
                     j_target_size = tgt_size, j_bonus = bonus_data\<rparr>;
               (case source_patch_value of
                  Some _ \<Rightarrow> GenerateTarget job a
                | None \<Rightarrow> do {
                    (r, copy_file, a) \<leftarrow> LoadFileContents L CACHE_TEMP_SOURCE fresh_contents True a;
                    if r < 0 then Some (1, a)
                    else do {
                      copy_patch_value \<leftarrow> matching_patch copy_file patch_sha1_str patch_data;
                      if copy_patch_value = None then Some (1, a)
                      else GenerateTarget (job\<lparr>j_source := source_file\<lparr>fc_data := None\<rparr>,
                             j_copy := copy_file, j_copy_patch := copy_patch_value\<rparr>) a
                    }
                  })
             }
           })"

section \<open>Digests as text\<close>

definition hex_char :: "nat \<Rightarrow> char" where
  "hex_char n = (if n < 10 then char_of (48 + n) else char_of (87 + n))"

definition sha_text :: "byte list \<Rightarrow> string" where
  "sha_text ds = concat (map (\<lambda>b. [hex_char (unat b div 16), hex_char (unat b mod 16)]) ds)"

lemma sha_digit_hex_char: "n < 16 \<Longrightarrow> sha_digit (hex_char n) = Some n"
proof -
  have "\<forall>n < 16. sha_digit (hex_char n) = Some n" by code_simp
  then show "n < 16 \<Longrightarrow> sha_digit (hex_char n) = Some n" by blast
qed

lemma join_nibbles: "push_bit 4 (of_nat (unat b div 16)) OR of_nat (unat b mod 16) = (b :: byte)"
proof -
  have "(of_nat (unat b div 16) :: byte) = drop_bit 4 b" "(of_nat (unat b mod 16) :: byte) = take_bit 4 b"
    by (simp_all add: drop_bit_eq_div take_bit_eq_mod word_arith_nat_div word_arith_nat_mod)
  moreover have "push_bit 4 (drop_bit 4 b) OR take_bit 4 b = b"
    by (rule bit_word_eqI) (auto simp: bit_simps)
  ultimately show ?thesis by simp
qed

lemma sha_digits_text: "sha_digits (length ds) (sha_text ds @ rest) = Some (ds, rest)"
proof (induction ds)
  case (Cons b ds)
  have "unat b < 2 ^ LENGTH(8)" by (rule unsigned_less)
  then have "unat b div 16 < 16" "unat b mod 16 < 16" by simp_all
  then show ?case
    using Cons by (simp add: sha_text_def sha_digit_hex_char join_nibbles)
qed (simp add: sha_text_def)

lemma sha_digits_length: "sha_digits n s = Some (ds, rest) \<Longrightarrow> length ds = n \<and> length s = 2 * n + length rest"
  by (induction n s arbitrary: ds rest rule: sha_digits.induct) (auto split: bind_splits)

lemma ParseSha1_text: "length d = 20 \<Longrightarrow> ParseSha1 (sha_text d) = Some d"
  using sha_digits_text [of d "[]"] by (simp add: ParseSha1_def SHA_DIGEST_SIZE_def)

lemma ParseSha1_length: "ParseSha1 s = Some d \<Longrightarrow> length d = 20 \<and> length s = 40"
  by (auto simp: ParseSha1_def SHA_DIGEST_SIZE_def dest!: sha_digits_length split: option.splits if_splits)

lemma find_patch_spec:
  "find_patch sha1 ss i = -1 \<and> (\<forall>k < length ss. ParseSha1 (ss ! k) \<noteq> Some sha1) \<or>
   (\<exists>k < length ss. find_patch sha1 ss i = i + int k \<and> ParseSha1 (ss ! k) = Some sha1 \<and>
      (\<forall>l < k. ParseSha1 (ss ! l) \<noteq> Some sha1))"
proof (induction ss arbitrary: i)
  case (Cons s ss)
  show ?case
  proof (cases "ParseSha1 s = Some sha1")
    case False
    from Cons.IH [of "i + 1"] show ?thesis
    proof (elim disjE)
      assume "\<exists>k < length ss. find_patch sha1 ss (i + 1) = i + 1 + int k \<and> ParseSha1 (ss ! k) = Some sha1 \<and>
        (\<forall>l < k. ParseSha1 (ss ! l) \<noteq> Some sha1)"
      then obtain k where "k < length ss" "find_patch sha1 ss (i + 1) = i + 1 + int k" "ParseSha1 (ss ! k) = Some sha1"
          "\<forall>l < k. ParseSha1 (ss ! l) \<noteq> Some sha1"
        by blast
      then show ?thesis using False
        by (intro disjI2 exI [of _ "Suc k"]) (auto simp: less_Suc_eq_0_disj)
    qed (use False in \<open>auto simp: less_Suc_eq_0_disj\<close>)
  qed auto
qed simp

end
