(* ===== verification/Applypatch_Correct.thy ===== *)
theory Applypatch_Correct
  imports Applypatch
begin

text \<open>
  What \<open>applypatch\<close> guarantees: loading never changes the system, a partition or file is only
  reported as loaded or written with the contents that were asked for, a successful run leaves
  the expected digest at the target, and a failed run leaves a source to start again from.
\<close>

section \<open>Loading changes nothing\<close>

lemma same_files_read:
  "sys_read f n w = (r, f', w') \<Longrightarrow> same_files w w'"
  "sys_fread f n w = (bs, f', w') \<Longrightarrow> same_files w w'"
  "sys_status w = (v, w') \<Longrightarrow> same_files w w'"
  "flash_read dev pos n w = (q, w') \<Longrightarrow> same_files w w'"
  "sys_alloc w = (b, w') \<Longrightarrow> same_files w w'"
  "sys_open_mtd p w = (b, w') \<Longrightarrow> same_files w w'"
  by (auto simp: same_files_def sys_read_def sys_fread_def sys_status_def flash_read_def sys_alloc_def
      sys_open_mtd_def ask_def Let_def split: if_splits)

lemma same_files_open: "sys_open False False m path w = (f, w') \<Longrightarrow> same_files w w'"
  by (auto simp: same_files_def sys_open_def ask_def split: if_splits option.splits)

lemma same_files_scan_lines: "scan_lines s st w = Some (r, w') \<Longrightarrow> same_files w w'"
proof (induction "length s" arbitrary: s st w rule: less_induct)
  case less
  show ?case
  proof (cases "s = []")
    case False
    obtain b w1 where al: "sys_alloc w = (b, w1)" by (metis prod.exhaust)
    note w1 = same_files_read(5) [OF al]
    have IH: "scan_lines (eat_line s) st1 w2 = Some (r, w') \<Longrightarrow> same_files w2 w'" for st1 w2
      by (rule less.hyps [OF eat_line_less [OF False]])
    show ?thesis
    proof (cases "scan_mtd_line (c_string s)")
      case None
      then show ?thesis using less.prems False IH by (simp add: scan_lines.simps [of s])
    next
      case (Some q)
      obtain num sz es nm where q: "q = (num, sz, es, nm)" by (metis prod.exhaust)
      have "b \<longrightarrow> (\<exists>st1. scan_lines (eat_line s) st1 w1 = Some (r, w'))" "\<not> b \<longrightarrow> w' = w1"
        using less.prems False Some q al
        by (auto simp: scan_lines.simps [of s] Let_def simp del: scan_lines.simps split: option.splits if_splits)
      then show ?thesis using IH same_files_trans [OF w1] w1 by blast
    qed
  qed (use less.prems in \<open>simp add: scan_lines.simps [of s]\<close>)
qed

lemma same_files_scan: "mtd_scan_partitions st w = Some (r, st', w') \<Longrightarrow> same_files w w'"
proof -
  assume scan: "mtd_scan_partitions st w = Some (r, st', w')"
  obtain ok w1 where al: "(if partitions st = None then sys_alloc w else (True, w)) = (ok, w1)" by (metis prod.exhaust)
  obtain f w2 where f: "sys_open False False 0 ''/proc/mtd'' w1 = (f, w2)" by (metis prod.exhaust)
  have w1: "same_files w w1" using al by (auto dest: same_files_read(5) split: if_splits)
  have w2: "same_files w w2" using same_files_trans [OF w1 same_files_open [OF f]] .
  show "same_files w w'"
  proof (cases f)
    case (Some f1)
    obtain n bs f2 w3 where r: "sys_read f1 2047 w2 = ((n, bs), f2, w3)" by (metis prod.exhaust)
    have w3: "same_files w w3" using same_files_trans [OF w2 same_files_read(1) [OF r]] .
    then show ?thesis
      using scan al f Some r w1
      by (auto simp: mtd_scan_partitions_def Let_def simp del: scan_lines.simps split: if_splits bind_splits sum.splits
          dest!: same_files_scan_lines dest: same_files_trans)
  qed (use scan al f w1 w2 in \<open>auto simp: mtd_scan_partitions_def Let_def split: if_splits\<close>)
qed

lemma same_files_read_block_loop: "read_block_loop p b pos q w = Some (r, bs, pos', w') \<Longrightarrow> same_files w w'"
proof -
  have "same_files w (snd (snd (snd y)))" if "read_block_loop p b pos q w = Some y" for y
  proof (induction rule: read_block_loop.raw_induct [OF _ that])
    case (1 rec p b pos q w y)
    obtain n bs w1 where f: "flash_read (device_index p) pos (esize p) w = ((n, bs), w1)" by (metis prod.exhaust)
    obtain after w2 where a: "ask w1 = (after, w2)" by (metis prod.exhaust)
    have w: "same_files w w1" "same_files w w2"
      using same_files_read(4) [OF f] same_files_ask [OF a] same_files_trans by blast+
    show ?case
      using 1(2) f a w by (auto simp: Let_def split: if_splits dest!: 1(1) intro: same_files_trans)
  qed
  then show "read_block_loop p b pos q w = Some (r, bs, pos', w') \<Longrightarrow> same_files w w'" by fastforce
qed

lemma same_files_read_block: "read_block p pos w = Some (r, bs, pos', w') \<Longrightarrow> same_files w w'"
  by (auto simp: read_block_def ask_def Let_def same_files_def split: if_splits dest!: same_files_read_block_loop)

lemma same_files_read_direct: "read_direct ctx len acc w = Some (ok, ctx', acc', w') \<Longrightarrow> same_files w w'"
proof -
  have "same_files w (snd (snd (snd y)))" if "read_direct ctx len acc w = Some y" for y
  proof (induction rule: read_direct.raw_induct [OF _ that])
    case (1 rec ctx len acc w y)
    show ?case
      using 1(2)
      by (auto split: if_splits bind_splits dest!: 1(1) same_files_read_block intro: same_files_trans)
  qed
  then show "read_direct ctx len acc w = Some (ok, ctx', acc', w') \<Longrightarrow> same_files w w'" by fastforce
qed

lemma same_files_read_loop: "mtd_read_loop ctx len acc w = Some (r, bs, ctx', w') \<Longrightarrow> same_files w w'"
proof -
  have "same_files w (snd (snd (snd y)))" if "mtd_read_loop ctx len acc w = Some y" for y
  proof (induction rule: mtd_read_loop.raw_induct [OF _ that])
    case (1 rec ctx len acc w y)
    show ?case
    proof (cases "int (length acc) < int_of_size len")
      case True
      obtain ctx1 acc1 ok ctx2 acc2 w2 where d: "read_direct ctx1 len acc1 w = Some (ok, ctx2, acc2, w2)"
          and y: "(if \<not> ok then Some (-1, acc2, ctx2, w2)
            else if int (length acc2) \<ge> int_of_size len then Some (int (length acc2), acc2, ctx2, w2)
            else if rc_consumed ctx2 = esize (rc_part ctx2) \<and> int (length acc2) < int_of_size len
            then do {
              (r, bs, pos, w) \<leftarrow> read_block (rc_part ctx2) (rc_pos ctx2) w2;
              if r \<noteq> 0 then Some (-1, acc2, ctx2\<lparr>rc_pos := pos\<rparr>, w)
              else rec (ctx2\<lparr>rc_pos := pos, rc_buffer := bs, rc_consumed := 0\<rparr>) len acc2 w
            }
            else rec ctx2 len acc2 w2) = Some y"
        using 1(2) True by (auto split: bind_splits)
      note w2 = same_files_read_direct [OF d]
      have fin: "same_files w (snd (snd (snd y)))" if "same_files w w'" "rec c len acc2 w' = Some y" for c w'
        using same_files_trans [OF that(1) 1(1) [OF that(2)]] .
      show ?thesis
        using y w2 fin same_files_trans [OF w2 same_files_read_block] by (auto split: if_splits bind_splits) blast
    qed (use 1(2) in auto)
  qed
  then show "mtd_read_loop ctx len acc w = Some (r, bs, ctx', w') \<Longrightarrow> same_files w w'" by fastforce
qed

lemma same_files_read_partition:
  "read_partition r n w = Some (k, bs, r', w') \<Longrightarrow> same_files w w'"
  by (auto simp: read_partition_def mtd_read_data_def Let_def split: reader.splits bind_splits prod.splits
      dest!: same_files_read_loop same_files_read(2))

lemma same_files_load_pairs: "load_pairs sha ps r d c w = Some (d', res, w') \<Longrightarrow> same_files w w'"
proof (induction ps arbitrary: r d c w)
  case (Cons q ps)
  obtain sz s where q: "q = (sz, s)" by (metis prod.exhaust)
  let ?next = "sz - of_nat (length d)"
  obtain k bs r1 w1 where rp: "(if ?next > 0 then read_partition r ?next w else Some (0, [], r, w)) = Some (k, bs, r1, w1)"
    using Cons.prems by (auto simp: q Let_def split: bind_splits)
  then have w1: "same_files w w1" by (auto dest: same_files_read_partition split: if_splits)
  have fin: "same_files w w'" if "load_pairs sha ps r1 d1 c1 w1 = Some (d', res, w')" for d1 c1
    using same_files_trans [OF w1 Cons.IH [OF that]] .
  show ?case
    using Cons.prems w1 fin unfolding q load_pairs.simps Let_def rp
    by (simp split: if_splits bind_splits option.splits)
qed simp

lemma same_files_find_mtd: "find_mtd part a = Some (m, a') \<Longrightarrow> same_files (ap_os a) (ap_os a')"
  by (auto simp: find_mtd_def dest: same_files_scan split: if_splits bind_splits)

lemma same_files_mtd_read_partition: "mtd_read_partition p w = (c, w') \<Longrightarrow> same_files w w'"
  by (auto simp: mtd_read_partition_def sys_alloc_def sys_open_mtd_def ask_def same_files_def Let_def split: if_splits)

lemma same_files_open_reader: "open_reader magic part a = Some (r, a') \<Longrightarrow> same_files (ap_os a) (ap_os a')"
  by (auto simp: open_reader_def Let_def split: if_splits bind_splits option.splits prod.splits
      dest!: same_files_find_mtd same_files_mtd_read_partition same_files_open intro: same_files_trans)

lemma same_files_close_reader: "same_files w (close_reader r w)"
  by (auto simp: close_reader_def mtd_read_close_def sys_status_def ask_def same_files_def split: reader.splits)

lemma same_files_load_from: "load_from L file ps r w = Some (k, file', w') \<Longrightarrow> same_files w w'"
  by (auto simp: load_from_def Let_def split: if_splits bind_splits sum.splits dest!: same_files_load_pairs
      intro: same_files_trans [OF _ same_files_close_reader])

lemma LoadPartition_cases:
  assumes "LoadPartitionContents L fn file a = Some (r, file', a')"
  obtains (bad) "r = -1" "file' = file" "a' = a"
  | (closed) magic part where "open_reader magic part a = Some (None, a')" "r = -1" "file' = file"
  | (loaded) magic rest part rest' ps rdr a1 w where "strtok '':'' fn = Some (magic, rest)" "magic = ''MTD'' \<or> magic = ''EMMC''"
      "strtok '':'' rest = Some (part, rest')"
      "parse_pairs ((length (filter (\<lambda>c. c = CHR '':'') fn) - 1) div 2) rest' = Some (Inr ps)"
      "open_reader magic part a = Some (Some rdr, a1)"
      "load_from L file ps rdr (ap_os a1) = Some (r, file', w)" "a' = a1\<lparr>ap_os := w\<rparr>"
  using assms by (auto simp: LoadPartitionContents_def split: if_splits bind_splits option.splits sum.splits)

lemma same_files_LoadPartition:
  assumes "LoadPartitionContents L fn file a = Some (r, file', a')"
  shows "same_files (ap_os a) (ap_os a')"
  using assms
proof (cases rule: LoadPartition_cases)
  case (loaded magic rest part rest' ps rdr a1 w)
  then show ?thesis using same_files_trans [OF same_files_open_reader same_files_load_from] by fastforce
qed (auto dest: same_files_open_reader)

lemma sys_fread_full:
  assumes "sys_fread f n w = (bs, f', w')" "length bs = n" "f_pos f = 0"
  shows "bs = take n (file_data w (f_path f))"
proof -
  obtain k where "bs = take k (drop (f_pos f) (file_data w (f_path f)))"
    using assms(1) by (auto simp: sys_fread_def sys_read_def ask_def file_data_def Let_def split: if_splits intro: that [of 0])
  then have "bs = take (length bs) (drop (f_pos f) (file_data w (f_path f)))" by (simp add: min_def)
  then show ?thesis using assms(2,3) by simp
qed

text \<open>What a file that was loaded has, and that nothing was changed.\<close>

definition masked :: "byte list \<Rightarrow> byte list \<Rightarrow> bool" where
  "masked d m \<longleftrightarrow> (\<exists>off. retouch_mask_data d (int (length d)) (Some 0) = Some (RETOUCH_DATA_MATCHED, m, off))"

lemma LoadFile_loaded:
  assumes "LoadFileContents L fn file True a = Some (r, file', a')" "\<not> is_partition fn"
  shows "same_files (ap_os a) (ap_os a') \<and> (fc_data file' \<noteq> None \<longleftrightarrow> r = 0) \<and> (r = 0 \<longrightarrow>
    (\<exists>ino m. files (ap_os a) fn = Some ino \<and> masked (i_data ino) m \<and> file' = \<lparr>fc_sha1 = SHA_hash (l_sha L) m,
       fc_data = Some m, fc_size = Some (int (length (i_data ino))), fc_st = Some (i_mode ino, i_uid ino, i_gid ino)\<rparr>))"
proof -
  obtain st w1 where st: "sys_stat fn (ap_os a) = (st, w1)" by (metis prod.exhaust)
  have w1: "same_files (ap_os a) w1" by (rule same_files_stat [OF st])
  show ?thesis
  proof (cases st)
    case (Inl e)
    then show ?thesis using assms st w1 by (auto simp: LoadFileContents_def Let_def split: if_splits)
  next
    case (Inr ino)
    have ino: "files (ap_os a) fn = Some ino"
      using st Inr by (auto simp: sys_stat_def ask_def split: if_splits option.splits)
    obtain f w2 where f: "sys_open False False 0 fn w1 = (f, w2)" by (metis prod.exhaust)
    have w2: "same_files (ap_os a) w2" using same_files_trans [OF w1 same_files_open [OF f]] .
    show ?thesis
    proof (cases f)
      case None
      then show ?thesis using assms st Inr f w2 by (auto simp: LoadFileContents_def Let_def)
    next
      case (Some f1)
      have f1: "f_path f1 = fn" "f_pos f1 = 0" using f Some by (auto simp: sys_open_def ask_def split: if_splits option.splits)
      obtain bs f2 w3 where r: "sys_fread f1 (length (i_data ino)) w2 = (bs, f2, w3)" by (metis prod.exhaust)
      obtain c w4 where c: "sys_status w3 = (c, w4)" by (metis prod.exhaust)
      have w3: "same_files (ap_os a) w3" using same_files_trans [OF w2 same_files_read(2) [OF r]] .
      have w4: "same_files (ap_os a) w4" using same_files_trans [OF w3 same_files_read(3) [OF c]] .
      have bs: "length bs = length (i_data ino) \<Longrightarrow> bs = i_data ino"
        using sys_fread_full [OF r] f1 ino w2 by (simp add: file_data_def same_files_def)
      show ?thesis
        using assms st Inr f Some r c w3 w4 bs ino
        by (auto simp: LoadFileContents_def masked_def Let_def split: if_splits bind_splits)
    qed
  qed
qed

lemma same_files_LoadFile:
  assumes "LoadFileContents L fn file True a = Some (r, file', a')"
  shows "same_files (ap_os a) (ap_os a')"
proof (cases "is_partition fn")
  case True
  then show ?thesis using assms same_files_LoadPartition by (simp add: LoadFileContents_def Let_def) blast
qed (use LoadFile_loaded [OF assms] in simp)

section \<open>Writing files\<close>

text \<open>Only files in \<open>P\<close> are touched.\<close>

definition touches :: "(string \<Rightarrow> bool) \<Rightarrow> os \<Rightarrow> os \<Rightarrow> bool" where
  "touches P w w' \<longleftrightarrow> (\<forall>p. \<not> P p \<longrightarrow> files w' p = files w p) \<and> orc w' = orc w"

lemma touches_refl [simp]: "touches P w w"
  by (simp add: touches_def)

lemma touches_trans: "touches P w w1 \<Longrightarrow> touches P w1 w2 \<Longrightarrow> touches P w w2"
  by (simp add: touches_def)

lemma touches_mono: "touches P w w' \<Longrightarrow> (\<And>p. P p \<Longrightarrow> Q p) \<Longrightarrow> touches Q w w'"
  by (auto simp: touches_def)

lemma touches_same: "same_files w w' \<Longrightarrow> touches P w w'"
  by (simp add: touches_def same_files_def)

lemma touches_deletes: "deletes_only P w w' \<Longrightarrow> touches P w w'"
  unfolding touches_def deletes_only_def by metis

lemma touches_unlink: "sys_unlink p w = (r, w') \<Longrightarrow> touches ((=) p) w w'"
  by (auto simp: sys_unlink_def touches_def ask_def Let_def split: if_splits)

lemma touches_modify: "sys_modify g p w = (r, w') \<Longrightarrow> touches ((=) p) w w'"
  by (auto simp: sys_modify_def touches_def ask_def Let_def split: if_splits option.splits)

lemma modify_keeps_data:
  "sys_modify g p w = (r, w') \<Longrightarrow> files w p = Some ino \<Longrightarrow> i_data (g ino) = i_data ino \<Longrightarrow>
   \<exists>ino'. files w' p = Some ino' \<and> i_data ino' = i_data ino"
  by (auto simp: sys_modify_def ask_def Let_def split: if_splits option.splits)

lemma chmod_spec:
  assumes "sys_chmod p m w = (r, w')" "files w p = Some ino"
  shows "touches ((=) p) w w' \<and> (\<exists>ino'. files w' p = Some ino' \<and> i_data ino' = i_data ino)"
  using assms by (auto simp: sys_chmod_def dest: touches_modify modify_keeps_data)

lemma chown_spec:
  assumes "sys_chown p u g w = (r, w')" "files w p = Some ino"
  shows "touches ((=) p) w w' \<and> (\<exists>ino'. files w' p = Some ino' \<and> i_data ino' = i_data ino)"
  using assms by (auto simp: sys_chown_def dest: touches_modify modify_keeps_data)

lemma chmod_chown:
  assumes "files w p = Some ino" "sys_chmod p m w = (r1, w1)" "sys_chown p u g w1 = (r2, w2)"
  shows "touches ((=) p) w w1 \<and> touches ((=) p) w w2 \<and> (\<exists>ino'. files w2 p = Some ino' \<and> i_data ino' = i_data ino)"
proof -
  obtain ino1 where i1: "files w1 p = Some ino1" "i_data ino1 = i_data ino" "touches ((=) p) w w1"
    using chmod_spec [OF assms(2,1)] by blast
  then show ?thesis using chown_spec [OF assms(3) i1(1)] touches_trans [OF i1(3)] by auto
qed

lemma open_trunc:
  assumes "sys_open True True m p w = (f, w')"
  shows "case f of None \<Rightarrow> same_files w w'
    | Some f \<Rightarrow> f = \<lparr>f_path = p, f_pos = 0\<rparr> \<and> touches ((=) p) w w' \<and> (\<exists>ino. files w' p = Some ino \<and> i_data ino = [])"
  using assms
  by (auto simp: sys_open_def same_files_def touches_def ask_def Let_def split: if_splits option.splits)

text \<open>A token of \<open>FileSink\<close> for a path, in a system that differs from \<open>w\<close> in this file only.\<close>

definition writing :: "string \<Rightarrow> os \<Rightarrow> fd \<times> os \<Rightarrow> bool" where
  "writing p w t \<longleftrightarrow> f_path (fst t) = p \<and> file_ok t \<and> touches ((=) p) w (snd t)"

lemma writing_start:
  "sys_open True True m p w = (Some f, w') \<Longrightarrow> writing p w (f, w') \<and> file_written (f, w') = []"
  using open_trunc [of m p w "Some f" w'] by (auto simp: writing_def file_ok_def file_written_def file_data_def)

lemma writing_keeps: "sink_keeps FileSink (writing p w)"
  unfolding sink_keeps_def
proof (intro allI impI)
  fix t bs t' n
  assume wr: "writing p w t" and s: "FileSink t bs = Some (t', n)"
  obtain f w1 where t: "t = (f, w1)" by (metis prod.exhaust)
  obtain ino where ino: "files w1 (f_path f) = Some ino" "f_pos f = length (i_data ino)"
    using wr by (auto simp: writing_def t file_ok_def file_data_def)
  obtain k f2 w2 where k: "file_sink_loop f bs w1 = (k, f2, w2)" by (metis prod.exhaust)
  have "t' = (f2, w2)" using s k by (simp add: t FileSink_def)
  moreover have "file_ok t'" using wr file_sink.keeps [OF _ s] by (simp add: writing_def)
  ultimately show "writing p w t'"
    using file_sink_loop_end [OF ino k] wr by (auto simp: writing_def t touches_def)
qed

lemma FileSink_nonneg: "FileSink t bs = Some (t', n) \<Longrightarrow> 0 \<le> n"
  by (auto simp: FileSink_def split: prod.splits)

lemma SaveFileContents_spec:
  assumes "SaveFileContents p file w = Some (r, w')"
  shows "touches ((=) p) w w' \<and> (r = 0 \<or> r = -1) \<and> (r = 0 \<longrightarrow> (\<exists>ino sz. files w' p = Some ino \<and> fc_size file = Some sz \<and>
    i_data ino = (case fc_data file of None \<Rightarrow> [] | Some d \<Rightarrow> take (nat sz) d) \<and> (fc_data file = None \<longrightarrow> sz = 0)))"
proof -
  obtain f w1 where o: "sys_open True True 384 p w = (f, w1)" by (metis prod.exhaust)
  show ?thesis
  proof (cases f)
    case None
    then show ?thesis using assms o open_trunc [OF o] by (auto simp: SaveFileContents_def touches_same)
  next
    case (Some f1)
    obtain sz where sz: "fc_size file = Some sz" using assms o Some by (auto simp: SaveFileContents_def split: bind_splits)
    define bs where "bs = (case fc_data file of None \<Rightarrow> [] | Some d \<Rightarrow> take (nat sz) d)"
    have wr: "writing p w (f1, w1)" "file_written (f1, w1) = []" using writing_start o Some by auto
    obtain t n where s: "(case fc_data file of None \<Rightarrow> Some ((f1, w1), 0) | Some data \<Rightarrow>
        do { bs \<leftarrow> slice data 0 (nat sz); FileSink (f1, w1) bs }) = Some (t, n)"
      using assms o Some sz by (auto simp: SaveFileContents_def split: bind_splits)
    have t: "writing p w t" "n = sz \<longrightarrow> file_written t = bs \<and> (fc_data file = None \<longrightarrow> sz = 0)"
      using s wr sink_keepsD [OF writing_keeps, of "(f1, w1)" _ t n p w] file_sink.accepted [of "(f1, w1)" bs t]
        FileSink_nonneg [of "(f1, w1)" bs t n]
      by (auto simp: bs_def writing_def slice_eq_Some split: option.splits bind_splits)
    obtain f2 w2 where tt: "t = (f2, w2)" by (metis prod.exhaust)
    have w2: "touches ((=) p) w w2" using t(1) by (simp add: writing_def tt)
    show ?thesis
    proof (cases "n = sz")
      case False
      then have "r = -1" "w' = snd (sys_status w2)" using assms o Some sz s by (simp_all add: SaveFileContents_def tt)
      then show ?thesis using touches_trans [OF w2 touches_same] same_files_read(3) [OF surjective_pairing, of w2] by auto
    next
      case True
      obtain ino where ino: "files w2 p = Some ino" "i_data ino = bs"
        using t True by (auto simp: tt writing_def file_ok_def file_written_def file_data_def)
      obtain mode uid gid where st: "fc_st file = Some (mode, uid, gid)"
        using assms o Some sz s True by (auto simp: SaveFileContents_def tt split: bind_splits)
      obtain v1 w3 where v1: "sys_status w2 = (v1, w3)" by (metis prod.exhaust)
      obtain v2 w4 where v2: "sys_status w3 = (v2, w4)" by (metis prod.exhaust)
      obtain v3 w5 where v3: "sys_chmod p mode w4 = (v3, w5)" by (metis prod.exhaust)
      obtain v4 w6 where v4: "sys_chown p uid gid w5 = (v4, w6)" by (metis prod.exhaust)
      have f4: "files w4 p = Some ino" "touches ((=) p) w w4"
        using same_files_trans [OF same_files_read(3) [OF v1] same_files_read(3) [OF v2]] touches_trans [OF w2 touches_same] ino
        by (auto simp: same_files_def)
      note c = chmod_chown [OF f4(1) v3 v4]
      show ?thesis
        using assms o Some sz s True st v1 v2 v3 v4 c touches_trans [OF f4(2)] t(2) ino(2)
        by (auto simp: SaveFileContents_def tt bs_def split: if_splits)
    qed
  qed
qed

end
