(* ===== verification/Applypatch_Files.thy ===== *)
theory Applypatch_Files
  imports Applypatch_Correct
begin

text \<open>
  \<open>applypatch\<close> on plain files: what a successful run leaves at the target, and that a failed run
  leaves a source or a copy to start again from.
\<close>

section \<open>Decoding into a file\<close>

definition is_image :: "Value \<Rightarrow> bool" where
  "is_image patch \<longleftrightarrow> slice (vbytes patch) 0 8 = Some (bytes_of ''IMGDIFF2'')"

lemma run_patch_cases:
  assumes "run_patch L src patch bonus snk t = Some (Some (r, t', c))"
  obtains (bsdiff) d sz where "ApplyBSDiffPatch (l_bz L) (l_malloc L) (l_sha L) d sz patch 0 snk t (Some (SHA_init (l_sha L))) = Some (r, t', Some c)"
  | (image) d sz where "is_image patch" "ApplyImagePatch L d sz patch snk t (SHA_init (l_sha L)) bonus = Some (r, t', c)"
proof -
  obtain d sz where d: "fc_data src = Some d" "fc_size src = Some sz"
    using assms by (auto simp: run_patch_def split: bind_splits)
  define hdr where "hdr = (if vsize patch \<ge> 8 then slice (vbytes patch) 0 8 else Some [])"
  obtain h where h: "hdr = Some h" using assms d by (auto simp: run_patch_def hdr_def split: bind_splits if_splits)
  show ?thesis
  proof (cases "h = bytes_of ''BSDIFF40''")
    case True
    then show ?thesis using bsdiff assms d h unfolding hdr_def run_patch_def by (auto split: bind_splits)
  next
    case False
    then have im: "h = bytes_of ''IMGDIFF2''" using assms d h unfolding hdr_def run_patch_def by (auto split: if_splits)
    then have "is_image patch" using h unfolding is_image_def hdr_def by (auto simp: bytes_of_def split: if_splits)
    with im show ?thesis using image False assms d h unfolding hdr_def run_patch_def by (auto split: bind_splits)
  qed
qed

lemma run_patch_keeps:
  assumes "run_patch L src patch bonus snk t = Some (Some (r, t', c))" "sink_keeps snk P" "P t"
  shows "P t'"
  using assms(1)
proof (cases rule: run_patch_cases)
  case (bsdiff d sz)
  then show ?thesis by (rule bsdiff_keeps [OF assms(2) _ assms(3)])
next
  case (image d sz)
  show ?thesis by (rule image_keeps [OF assms(2) image(2) assms(3)])
qed

lemma run_patch_file:
  assumes "run_patch L src patch bonus FileSink t = Some (Some (0, t', c))" "sha_streams (l_sha L)"
    and "file_ok t" "file_written t = []" "whole_transfers (snd t) \<or> \<not> is_image patch"
  shows "hashed (l_sha L) c (file_written t')"
  using assms(1)
proof (cases rule: run_patch_cases)
  case (bsdiff d sz)
  from file_sink.bsdiff_writes [OF assms(3) this] hashed_update [OF assms(2) hashed_init [OF assms(2)]]
  show ?thesis using assms(4) by auto
next
  case (image d sz)
  have "file_whole.in_step (l_sha L) t (SHA_init (l_sha L))"
    using assms image(1) hashed_init by (simp add: file_whole.in_step_def whole_ok_def)
  from file_whole.image_in_step [OF assms(2) image(2) this] show ?thesis by (simp add: file_whole.in_step_def)
qed

lemma run_patch_memory:
  assumes "run_patch L src patch bonus MemorySink m = Some (Some (0, m', c))" "sha_streams (l_sha L)"
    and "memory_ok m" "msi_pos m = 0"
  shows "hashed (l_sha L) c (memory_written m')"
  using assms(1)
proof (cases rule: run_patch_cases)
  case (bsdiff d sz)
  from memory.bsdiff_writes [OF assms(3) this] hashed_update [OF assms(2) hashed_init [OF assms(2)]]
  show ?thesis using assms(4) by (auto simp: memory_written_def)
next
  case (image d sz)
  have "memory.in_step (l_sha L) m (SHA_init (l_sha L))"
    using assms hashed_init by (simp add: memory.in_step_def memory_written_def)
  from memory.image_in_step [OF assms(2) image(2) this] show ?thesis by (simp add: memory.in_step_def)
qed

text \<open>The name of the temporary output.\<close>

abbreviation outname_of :: "'c job \<Rightarrow> string" where
  "outname_of j \<equiv> j_target_filename j @ ''.patch''"

lemma decode_file_cases:
  assumes "decode j src patch w = Some (d, w')" "\<not> is_partition (j_target_filename j)"
  obtains (refused) "d = None" "touches ((=) (outname_of j)) w w'"
  | (ran) f w1 r f2 w2 c where "sys_open True True 384 (outname_of j) w = (Some f, w1)"
      "run_patch (j_libs j) src patch (j_bonus j) FileSink (f, w1) = Some (Some (r, (f2, w2), c))"
      "d = Some (r, ToFile (outname_of j), c)" "same_files w2 w'"
proof (cases "vtype patch = VAL_BLOB")
  case True
  obtain f w1 where o: "sys_open True True 384 (outname_of j) w = (f, w1)" by (metis prod.exhaust)
  show ?thesis
  proof (cases f)
    case None
    then have "d = None" "w' = w1" using assms True o by (simp_all add: decode_def Let_def)
    then show ?thesis using open_trunc [OF o] None by (intro refused) (simp_all add: touches_same)
  next
    case (Some f1)
    note dec = assms(1) [unfolded decode_def Let_def o Some, simplified True assms(2), simplified]
    obtain rr where rr: "run_patch (j_libs j) src patch (j_bonus j) FileSink (f1, w1) = Some rr"
      using dec by (cases "run_patch (j_libs j) src patch (j_bonus j) FileSink (f1, w1)") simp_all
    show ?thesis
    proof (cases rr)
      case None
      then have "d = None" "w' = w1" using dec rr by simp_all
      then show ?thesis using writing_start [of 384 "outname_of j" w f1 w1] o Some
        by (intro refused) (simp_all add: writing_def)
    next
      case rsome: (Some q)
      obtain r f2 w2 c where q: "q = (r, (f2, w2), c)" by (metis prod.exhaust)
      obtain v1 w3 where v1: "sys_status w2 = (v1, w3)" by (metis prod.exhaust)
      obtain v2 w4 where v2: "sys_status w3 = (v2, w4)" by (metis prod.exhaust)
      have "d = Some (r, ToFile (outname_of j), c)" "w' = w4"
        using dec rr rsome q v1 v2 by simp_all
      moreover have "same_files w2 w4" using same_files_trans [OF same_files_read(3) [OF v1] same_files_read(3) [OF v2]] .
      ultimately show ?thesis using ran [of f1 w1 r f2 w2 c] o Some rr rsome q by simp
    qed
  qed
next
  case False
  then show ?thesis using assms by (intro refused) (simp_all add: decode_def Let_def)
qed

lemma decode_file_touches:
  assumes "decode j src patch w = Some (d, w')" "\<not> is_partition (j_target_filename j)"
  shows "touches ((=) (outname_of j)) w w'"
  using assms
proof (cases rule: decode_file_cases)
  case (ran f w1 r f2 w2 c)
  have "writing (outname_of j) w (f2, w2)"
    by (rule run_patch_keeps [OF ran(2) writing_keeps]) (use writing_start [OF ran(1)] in simp)
  then show ?thesis using touches_trans [OF _ touches_same [OF ran(4)]] by (simp add: writing_def)
qed

lemma decode_file_out:
  assumes "decode j src patch w = Some (Some (0, po, c), w')" "\<not> is_partition (j_target_filename j)"
    "sha_streams (l_sha (j_libs j))" "whole_transfers w \<or> \<not> is_image patch"
  shows "po = ToFile (outname_of j) \<and> (\<exists>ino. files w' (outname_of j) = Some ino \<and> hashed (l_sha (j_libs j)) c (i_data ino))"
  using assms(1,2)
proof (cases rule: decode_file_cases)
  case (ran f w1 r f2 w2 c')
  note wr = writing_start [OF ran(1)]
  have r: "r = 0" "c' = c" "po = ToFile (outname_of j)" using ran(3) by simp_all
  have w1: "whole_transfers w1 \<or> \<not> is_image patch"
    using assms(4) wr by (auto simp: writing_def whole_transfers_def touches_def)
  have "hashed (l_sha (j_libs j)) c (file_written (f2, w2))"
    by (rule run_patch_file [OF ran(2) [unfolded r] assms(3)]) (use wr w1 in \<open>simp_all add: writing_def\<close>)
  moreover have "writing (outname_of j) w (f2, w2)"
    by (rule run_patch_keeps [OF ran(2) writing_keeps]) (use wr in simp)
  ultimately show ?thesis using ran(4) r
    by (auto simp: writing_def file_ok_def file_written_def file_data_def same_files_def)
qed simp

lemma back_up_spec:
  assumes "back_up src w = Some (ok, w')"
  shows "touches (\<lambda>p. expendable w p \<or> p = CACHE_TEMP_SOURCE) w w'"
    and "ok \<Longrightarrow> \<exists>ino sz. files w' CACHE_TEMP_SOURCE = Some ino \<and> fc_size src = Some sz \<and>
      i_data ino = (case fc_data src of None \<Rightarrow> [] | Some d \<Rightarrow> take (nat sz) d) \<and> (fc_data src = None \<longrightarrow> sz = 0)"
proof -
  obtain sz where sz: "fc_size src = Some sz" using assms by (auto simp: back_up_def split: bind_splits)
  obtain r w1 where r: "MakeFreeSpaceOnCache (word_of_int sz) w = (r, w1)" by (metis prod.exhaust)
  have w1: "touches (\<lambda>p. expendable w p \<or> p = CACHE_TEMP_SOURCE) w w1"
    by (rule touches_mono [OF touches_deletes [of "expendable w"]]) (use MakeFreeSpaceOnCache_deletes [OF r] in auto)
  have "touches (\<lambda>p. expendable w p \<or> p = CACHE_TEMP_SOURCE) w w' \<and> (ok \<longrightarrow> (\<exists>ino sz. files w' CACHE_TEMP_SOURCE = Some ino \<and> fc_size src = Some sz \<and>
      i_data ino = (case fc_data src of None \<Rightarrow> [] | Some d \<Rightarrow> take (nat sz) d) \<and> (fc_data src = None \<longrightarrow> sz = 0)))"
  proof (cases "r < 0")
    case True
    then show ?thesis using assms sz r w1 by (auto simp: back_up_def)
  next
    case False
    then obtain s where s: "SaveFileContents CACHE_TEMP_SOURCE src w1 = Some (s, w')" "ok = (s \<ge> 0)"
      using assms sz r by (auto simp: back_up_def split: bind_splits)
    have "touches (\<lambda>p. expendable w p \<or> p = CACHE_TEMP_SOURCE) w1 w'"
      by (rule touches_mono [of "(=) CACHE_TEMP_SOURCE"]) (use SaveFileContents_spec [OF s(1)] in auto)
    then show ?thesis using touches_trans [OF w1] SaveFileContents_spec [OF s(1)] s(2) by auto
  qed
  then show "touches (\<lambda>p. expendable w p \<or> p = CACHE_TEMP_SOURCE) w w'"
    and "ok \<Longrightarrow> \<exists>ino sz. files w' CACHE_TEMP_SOURCE = Some ino \<and> fc_size src = Some sz \<and>
      i_data ino = (case fc_data src of None \<Rightarrow> [] | Some d \<Rightarrow> take (nat sz) d) \<and> (fc_data src = None \<longrightarrow> sz = 0)"
    by blast+
qed

lemma make_room_cases:
  assumes "make_room j retry fs w = Some (q, w')" "\<not> is_partition (j_target_filename j)"
  obtains (kept) "same_files w w'"
  | (failed) w1 where "same_files w w1" "back_up (j_source j) w1 = Some (False, w')" "q = None" "j_source_patch j \<noteq> None"
  | (moved) w1 w2 r w3 where "same_files w w1" "back_up (j_source j) w1 = Some (True, w2)"
      "sys_unlink (j_source_filename j) w2 = (r, w3)" "same_files w3 w'" "q = Some (False, True)"
      "j_source_patch j \<noteq> None" "\<not> is_partition (j_source_filename j)"
proof -
  define space where "space = (if retry
     then let (free_space, w) = FreeSpaceForFile fs w
          in (free_space > 262144 \<and> free_space > j_target_size j * 3 div 2, w)
     else (False, w))"
  obtain enough w1 where e: "space = (enough, w1)" by (metis prod.exhaust)
  have w1: "same_files w w1"
    using e by (auto simp: space_def Let_def split: if_splits prod.splits dest: same_files_space)
  note mr = assms(1) [unfolded make_room_def, folded space_def, unfolded e, simplified assms(2), simplified]
  show ?thesis
  proof (cases "\<not> enough \<and> j_source_patch j \<noteq> None \<and> \<not> is_partition (j_source_filename j)")
    case True
    then obtain ok w2 where b: "back_up (j_source j) w1 = Some (ok, w2)"
      using mr by (auto split: bind_splits if_splits)
    obtain r w3 where u: "sys_unlink (j_source_filename j) w2 = (r, w3)" by (metis prod.exhaust)
    obtain n w4 where f: "FreeSpaceForFile fs w3 = (n, w4)" by (metis prod.exhaust)
    show ?thesis
    proof (cases ok)
      case ok: True
      then have "q = Some (False, True)" "w' = w4" using mr True b u f by simp_all
      with ok show ?thesis using True w1 b u same_files_space [OF f] by (intro moved [of w1 w2 r w3]) simp_all
    next
      case False
      then have "q = None" "w' = w2" using mr True b by simp_all
      with False show ?thesis using True w1 b by (intro failed [of w1]) simp_all
    qed
  next
    case False
    then show ?thesis using mr w1 by (intro kept) (auto split: if_splits)
  qed
qed

lemma make_room_orc:
  assumes "make_room j retry fs w = Some (q, w')" "\<not> is_partition (j_target_filename j)"
  shows "orc w' = orc w"
  using assms
proof (cases rule: make_room_cases)
  case (failed w1)
  then show ?thesis using back_up_spec(1) [OF failed(2)] by (simp add: same_files_def touches_def)
next
  case (moved w1 w2 r w3)
  then show ?thesis using back_up_spec(1) [OF moved(2)] touches_unlink [OF moved(3)] by (simp add: same_files_def touches_def)
qed (simp add: same_files_def)

lemma decode_outname:
  "decode j src patch w = Some (Some (r, ToFile p, c), w') \<Longrightarrow> p = outname_of j"
  by (auto simp: decode_def Let_def split: if_splits bind_splits option.splits prod.splits)

text \<open>
  The loop, for a condition \<open>H\<close> at its start and a condition \<open>E\<close> that holds from making room on: a
  second round is only tried when no copy was made.
\<close>

lemma generate_loop_inv:
  assumes "generate_loop n j retry made fs w = Some (r, w')" "H w"
    and room: "\<And>retry w q w1. H w \<Longrightarrow> make_room j retry fs w = Some (q, w1) \<Longrightarrow>
      E w1 \<and> (\<forall>copied. q = Some (True, copied) \<longrightarrow> H w1)"
    and dec: "\<And>src patch w d w1. H w \<Longrightarrow> decode j src patch w = Some (d, w1) \<Longrightarrow> H w1"
      "\<And>src patch w d w1. E w \<Longrightarrow> decode j src patch w = Some (d, w1) \<Longrightarrow> E w1"
    and unlink: "\<And>w. H w \<Longrightarrow> H (snd (sys_unlink (outname_of j) w))"
  shows "E w' \<and> (\<forall>po c src made'. r = Inr (po, c, src, made') \<longrightarrow> (\<exists>patch w1. E w1 \<and>
    (j_source_patch j = Some patch \<or> j_copy_patch j = Some patch) \<and> decode j src patch w1 = Some (Some (0, po, c), w')))"
  using assms(1,2)
proof (induction n arbitrary: retry made w)
  case (Suc n)
  obtain q w1 where q: "make_room j retry fs w = Some (q, w1)" using Suc.prems(1) by (auto split: bind_splits)
  note w1 = room [OF Suc.prems(2) q]
  show ?case
  proof (cases q)
    case None
    then show ?thesis using Suc.prems(1) q w1 by auto
  next
    case (Some p)
    obtain rt cp where p: "p = (rt, cp)" by (metis prod.exhaust)
    obtain src patch d w2 where d: "decode j src patch w1 = Some (d, w2)"
        and sp: "j_source_patch j = Some patch \<or> j_copy_patch j = Some patch"
        and go: "(case d of
               None \<Rightarrow> Some (Inl 1, w2)
             | Some (result, output, ctx) \<Rightarrow>
                 if result \<noteq> 0
                 then if \<not> rt then Some (Inl 1, w2)
                      else let w = (case output of ToFile outname \<Rightarrow> snd (sys_unlink outname w2) | _ \<Rightarrow> w2)
                           in generate_loop n j False (made \<or> cp) fs w
                 else Some (Inr (output, ctx, src, made \<or> cp), w2)) = Some (r, w')"
      using Suc.prems(1) q Some p by (auto simp: Let_def split: bind_splits option.splits)
    have w2: "E w2" using dec(2) [OF _ d] w1 by blast
    show ?thesis
    proof (cases d)
      case None
      then show ?thesis using go w2 by auto
    next
      case dd: (Some e)
      obtain res po ctx where e: "e = (res, po, ctx)" by (metis prod.exhaust)
      show ?thesis
      proof (cases "res \<noteq> 0 \<and> rt")
        case True
        have "H w1" using w1 Some p True by simp
        then have "H w2" using dec(1) d by blast
        then have h: "H (case po of ToFile outname \<Rightarrow> snd (sys_unlink outname w2) | _ \<Rightarrow> w2)"
          using unlink decode_outname [of j src patch w1 res _ ctx w2] d dd e by (cases po) auto
        show ?thesis by (rule Suc.IH [OF _ h]) (use go dd e True in \<open>simp add: Let_def\<close>)
      next
        case False
        then show ?thesis using go w1 w2 dd e d sp by (auto split: if_splits)
      qed
    qed
  qed
qed simp

lemma install_file_spec:
  assumes "install_file src p t w = Some (r, w')" "p \<noteq> t"
  shows "r \<noteq> 0 \<Longrightarrow> touches ((=) p) w w'"
    and "r = 0 \<Longrightarrow> files w p = Some ino \<Longrightarrow> \<exists>ino'. files w' t = Some ino' \<and> i_data ino' = i_data ino"
proof -
  obtain mode uid gid where st: "fc_st src = Some (mode, uid, gid)"
    using assms by (auto simp: install_file_def split: bind_splits)
  obtain r1 w1 where c1: "sys_chmod p mode w = (r1, w1)" by (metis prod.exhaust)
  obtain r2 w2 where c2: "sys_chown p uid gid w1 = (r2, w2)" by (metis prod.exhaust)
  obtain r3 w3 where c3: "sys_rename p t w2 = (r3, w3)" by (metis prod.exhaust)
  have ins: "(if r1 \<noteq> 0 then (1, w1) else if r2 \<noteq> 0 then (1, w2) else (if r3 \<noteq> 0 then 1 else 0, w3)) = (r, w')"
    using assms(1) st c1 c2 c3 by (auto simp: install_file_def split: if_splits)
  have t1: "touches ((=) p) w w1" using touches_modify c1 by (simp add: sys_chmod_def)
  have t2: "touches ((=) p) w w2" using touches_trans [OF t1 touches_modify] c2 by (simp add: sys_chown_def)
  have t3: "r3 \<noteq> 0 \<Longrightarrow> touches ((=) p) w w3"
    using touches_trans [OF t2, of w3] c3 by (auto simp: sys_rename_def touches_def ask_def Let_def split: option.splits if_splits)
  show "r \<noteq> 0 \<Longrightarrow> touches ((=) p) w w'" using ins t1 t2 t3 by (auto split: if_splits)
  show "\<exists>ino'. files w' t = Some ino' \<and> i_data ino' = i_data ino" if r0: "r = 0" and ino: "files w p = Some ino"
  proof -
    obtain ino2 where "files w2 p = Some ino2" "i_data ino2 = i_data ino"
      using chmod_chown [OF ino c1 c2] by blast
    then show ?thesis using r0 ins c3
      by (auto simp: sys_rename_def ask_def Let_def split: if_splits)
  qed
qed

section \<open>Generating a file\<close>

lemma generate_loop_return: "generate_loop n j retry made fs w = Some (Inl r, w') \<Longrightarrow> r = 1"
  by (induction n arbitrary: retry made w) (auto simp: Let_def split: bind_splits option.splits if_splits prod.splits)

lemma GenerateTarget_loop:
  assumes "GenerateTarget j a = Some (r, a')"
  obtains (failed) fs v where "generate_loop 2 j True False fs (ap_os a) = Some (v, ap_os a')" "r = 1"
  | (wrote) fs po c src made w r' a1 where "generate_loop 2 j True False fs (ap_os a) = Some (Inr (po, c, src, made), w)"
      "SHA_final (l_sha (j_libs j)) c = j_target_sha1 j"
      "(case po of
          ToMemory msi \<Rightarrow> WriteToPartition (take (nat (msi_pos msi)) (msi_buffer msi)) (j_target_filename j) (a\<lparr>ap_os := w\<rparr>)
        | ToFile outname \<Rightarrow> do {
            (r, w) \<leftarrow> install_file src outname (j_target_filename j) w;
            Some (r, a\<lparr>ap_os := w\<rparr>)
          }) = Some (r', a1)"
      "r = (if r' \<noteq> 0 then 1 else 0)"
      "a' = (if r' = 0 \<and> made then a1\<lparr>ap_os := snd (sys_unlink CACHE_TEMP_SOURCE (ap_os a1))\<rparr> else a1)"
proof -
  obtain fs v w where fs: "target_fs (j_target_filename j) = Some fs"
      and v: "generate_loop 2 j True False fs (ap_os a) = Some (v, w)"
    using assms by (auto simp: GenerateTarget_def simp del: generate_loop.simps split: bind_splits)
  note gt = assms [unfolded GenerateTarget_def fs, simplified bind.bind_lunit v, simplified Let_def]
  show ?thesis
  proof (cases v)
    case (Inl e)
    then have "r = e" "a' = a\<lparr>ap_os := w\<rparr>" using gt by auto
    then show ?thesis using generate_loop_return [OF v [unfolded Inl]] v by (intro failed [of fs v]) simp_all
  next
    case (Inr q)
    obtain po c src made where q: "q = (po, c, src, made)" by (metis prod.exhaust)
    show ?thesis
    proof (cases "SHA_final (l_sha (j_libs j)) c = j_target_sha1 j")
      case True
      define W where "W = (case po of
          ToMemory msi \<Rightarrow> WriteToPartition (take (nat (msi_pos msi)) (msi_buffer msi)) (j_target_filename j) (a\<lparr>ap_os := w\<rparr>)
        | ToFile outname \<Rightarrow> do {
            (r, w) \<leftarrow> install_file src outname (j_target_filename j) w;
            Some (r, a\<lparr>ap_os := w\<rparr>)
          })"
      have "do { (r, a) \<leftarrow> W; if r \<noteq> 0 then Some (1, a)
            else Some (0, if made then a\<lparr>ap_os := snd (sys_unlink CACHE_TEMP_SOURCE (ap_os a))\<rparr> else a) } = Some (r, a')"
        using gt Inr q True by (simp add: W_def cong: patch_output.case_cong)
      then obtain r' a1 where "W = Some (r', a1)" "r = (if r' \<noteq> 0 then 1 else 0)"
          "a' = (if r' = 0 \<and> made then a1\<lparr>ap_os := snd (sys_unlink CACHE_TEMP_SOURCE (ap_os a1))\<rparr> else a1)"
        by (auto split: bind_splits if_splits)
      then show ?thesis using v Inr q True by (intro wrote [of fs po c src made w r' a1]) (simp_all add: W_def)
    next
      case False
      then show ?thesis using gt v Inr q by (intro failed [of fs v]) auto
    qed
  qed
qed

text \<open>The file that a loaded source was read from.\<close>

definition loaded :: "('z, 'd, 'c) libs \<Rightarrow> string \<Rightarrow> os \<Rightarrow> FileContents \<Rightarrow> bool" where
  "loaded L p w fc \<longleftrightarrow> (\<exists>ino m. files w p = Some ino \<and> masked (i_data ino) m \<and> fc = \<lparr>fc_sha1 = SHA_hash (l_sha L) m,
     fc_data = Some m, fc_size = Some (int (length (i_data ino))), fc_st = Some (i_mode ino, i_uid ino, i_gid ino)\<rparr>)"

lemma LoadFile_result:
  assumes "LoadFileContents L fn fc True a = Some (r, fc', a')" "\<not> is_partition fn" "r = 0 \<or> fc_data fc' \<noteq> None"
  shows "loaded L fn (ap_os a) fc'"
  using LoadFile_loaded [OF assms(1,2)] assms(3) unfolding loaded_def by blast

lemma loaded_same: "same_files w w' \<Longrightarrow> loaded L p w' = loaded L p w"
  by (simp add: loaded_def same_files_def fun_eq_iff)

lemma matching_patch_Some:
  assumes "matching_patch fc ss ps = Some (Some p)"
  shows "p \<in> set ps \<and> FindMatchingPatch (fc_sha1 fc) ss \<ge> 0"
  using assms by (auto simp: matching_patch_def rd_def Let_def split: if_splits bind_splits)

lemma generate_loop_orc:
  assumes "generate_loop n j retry made fs w = Some (Inr (po, c, src, made'), w')" "\<not> is_partition (j_target_filename j)"
  shows "\<exists>patch w1. orc w1 = orc w \<and> (j_source_patch j = Some patch \<or> j_copy_patch j = Some patch) \<and>
    decode j src patch w1 = Some (Some (0, po, c), w')"
proof -
  let ?P = "\<lambda>w1. orc w1 = orc w"
  have dec: "?P w2" if "?P w1" "decode j src patch w1 = Some (d, w2)" for src patch w1 d w2
    using decode_file_touches [OF that(2) assms(2)] that(1) by (simp add: touches_def)
  have "?P w' \<and> (\<forall>po' c' src' made''. Inr (po, c, src, made') = (Inr (po', c', src', made'') :: int + _) \<longrightarrow> (\<exists>patch w1. ?P w1 \<and>
    (j_source_patch j = Some patch \<or> j_copy_patch j = Some patch) \<and> decode j src' patch w1 = Some (Some (0, po', c'), w')))"
  proof (rule generate_loop_inv [OF assms(1)])
    show "?P w2 \<and> (\<forall>copied. q = Some (True, copied) \<longrightarrow> ?P w2)"
      if "?P w1" "make_room j retry fs w1 = Some (q, w2)" for retry w1 q w2
      using make_room_orc [OF that(2) assms(2)] that(1) by simp
    show "?P (snd (sys_unlink (outname_of j) w1))" if "?P w1" for w1
      using touches_unlink [OF surjective_pairing, of "outname_of j" w1] that by (simp add: touches_def)
  qed (use dec in blast)+
  then show ?thesis by blast
qed

lemma GenerateTarget_file:
  assumes gt: "GenerateTarget j a = Some (0, a')"
    and names: "\<not> is_partition (j_target_filename j)" "j_target_filename j \<noteq> CACHE_TEMP_SOURCE"
    and sha: "sha_streams (l_sha (j_libs j))"
    and img: "whole_transfers (ap_os a) \<or> (\<forall>p. j_source_patch j = Some p \<or> j_copy_patch j = Some p \<longrightarrow> \<not> is_image p)"
  shows "\<exists>ino. files (ap_os a') (j_target_filename j) = Some ino \<and> SHA_hash (l_sha (j_libs j)) (i_data ino) = j_target_sha1 j"
  using gt
proof (cases rule: GenerateTarget_loop)
  case (wrote fs po c src made w r' a1)
  obtain patch w1 where w1: "orc w1 = orc (ap_os a)" "j_source_patch j = Some patch \<or> j_copy_patch j = Some patch"
      "decode j src patch w1 = Some (Some (0, po, c), w)"
    using generate_loop_orc [OF wrote(1) names(1)] by blast
  have "whole_transfers w1 \<or> \<not> is_image patch" using img w1(1,2) by (auto simp: whole_transfers_def)
  from decode_file_out [OF w1(3) names(1) sha this] obtain ino where po: "po = ToFile (outname_of j)"
      and ino: "files w (outname_of j) = Some ino" "hashed (l_sha (j_libs j)) c (i_data ino)"
    by blast
  have r': "r' = 0" using wrote(4) by (simp split: if_splits)
  obtain w2 where w2: "install_file src (outname_of j) (j_target_filename j) w = Some (0, w2)" "ap_os a1 = w2"
    using wrote(3) po r' by (auto split: bind_splits)
  obtain ino' where ino': "files w2 (j_target_filename j) = Some ino'" "i_data ino' = i_data ino"
    using install_file_spec(2) [OF w2(1) _ refl ino(1)] by auto
  have "files (ap_os a') (j_target_filename j) = Some ino'"
    using wrote(5) r' w2(2) ino'(1) names(2) touches_unlink [OF surjective_pairing, of CACHE_TEMP_SOURCE w2]
    by (auto simp: touches_def)
  then show ?thesis using hashed_final [OF sha ino(2)] ino'(2) wrote(2) by auto
qed simp

lemma LoadFile_code:
  "LoadFileContents L fn fc True a = Some (r, fc', a') \<Longrightarrow> \<not> is_partition fn \<Longrightarrow> r = 0 \<or> r < 0"
  by (auto simp: LoadFileContents_def Let_def split: if_splits bind_splits option.splits sum.splits prod.splits)

lemma CACHE_no_partition [simp]: "\<not> is_partition CACHE_TEMP_SOURCE"
  by (simp add: is_partition_def CACHE_TEMP_SOURCE_def starts_with_def)

lemma resume_cases:
  assumes "do {
      (r, copy_file, a) \<leftarrow> LoadFileContents L CACHE_TEMP_SOURCE fresh_contents True a;
      if r < 0 then Some (1, a)
      else do {
        copy_patch_value \<leftarrow> matching_patch copy_file ss ps;
        if copy_patch_value = None then Some (1, a)
        else GenerateTarget (j\<lparr>j_source := f, j_copy := copy_file, j_copy_patch := copy_patch_value\<rparr>) a
      }
    } = Some (r, a')"
  obtains (failed) "r = 1" "same_files (ap_os a) (ap_os a')"
  | (copy) f1 a1 p where "same_files (ap_os a) (ap_os a1)" "loaded L CACHE_TEMP_SOURCE (ap_os a) f1" "p \<in> set ps"
      "FindMatchingPatch (fc_sha1 f1) ss \<ge> 0" "GenerateTarget (j\<lparr>j_source := f, j_copy := f1, j_copy_patch := Some p\<rparr>) a1 = Some (r, a')"
proof -
  obtain r1 f1 a1 where l: "LoadFileContents L CACHE_TEMP_SOURCE fresh_contents True a = Some (r1, f1, a1)"
    using assms by (auto split: bind_splits)
  note s = same_files_LoadFile [OF l]
  show ?thesis
  proof (cases "r1 < 0")
    case True
    then show ?thesis using assms l s by (intro failed) auto
  next
    case False
    obtain cp where cp: "matching_patch f1 ss ps = Some cp" using assms l False by (auto split: bind_splits)
    have f1: "loaded L CACHE_TEMP_SOURCE (ap_os a) f1"
      using LoadFile_result [OF l] LoadFile_code [OF l] False by auto
    show ?thesis
    proof (cases cp)
      case None
      then show ?thesis using assms l False cp s by (intro failed) auto
    next
      case (Some p)
      then show ?thesis using s f1 matching_patch_Some [of f1 ss ps p] assms l False cp by (intro copy [of a1 f1 p]) auto
    qed
  qed
qed

lemma applypatch_cases:
  assumes "applypatch L src tgt str sz ss ps bonus a = Some (r, a')" "tgt' = (if tgt = ''-'' then src else tgt)"
  obtains (failed) "r = 1" "same_files (ap_os a) (ap_os a')"
  | (already) d fc where "ParseSha1 str = Some d" "LoadFileContents L tgt' fresh_contents True a = Some (0, fc, a')"
      "fc_sha1 fc = d" "r = 0"
  | (generate) d a1 j where "ParseSha1 str = Some d" "same_files (ap_os a) (ap_os a1)" "GenerateTarget j a1 = Some (r, a')"
      "j_libs j = L" "j_source_filename j = src" "j_target_filename j = tgt'" "j_target_sha1 j = d"
      "\<forall>p. j_source_patch j = Some p \<or> j_copy_patch j = Some p \<longrightarrow> p \<in> set ps"
      "j_source_patch j \<noteq> None \<longrightarrow> FindMatchingPatch (fc_sha1 (j_source j)) ss \<ge> 0 \<and>
         (\<not> is_partition src \<longrightarrow> loaded L src (ap_os a) (j_source j))"
      "j_source_patch j = None \<longrightarrow> FindMatchingPatch (fc_sha1 (j_copy j)) ss \<ge> 0 \<and>
         loaded L CACHE_TEMP_SOURCE (ap_os a) (j_copy j) \<and> fc_data (j_source j) = None"
      "j_target_size j = sz"
proof (cases "ParseSha1 str")
  case None
  then show ?thesis using assms failed by (auto simp: applypatch_def Let_def)
next
  case (Some d)
  note ap = assms(1) [unfolded applypatch_def Let_def Some option.case, folded assms(2)]
  obtain r1 f1 a1 where l1: "LoadFileContents L tgt' fresh_contents True a = Some (r1, f1, a1)"
    using ap by (cases "LoadFileContents L tgt' fresh_contents True a") auto
  note s1 = same_files_LoadFile [OF l1]
  show ?thesis
  proof (cases "r1 = 0 \<and> fc_sha1 f1 = d")
    case True
    then show ?thesis using ap Some l1 already by auto
  next
    case False
    obtain f2 a2 where l2: "(if fc_data f1 = None \<or> tgt' \<noteq> src
        then do { (_, f, a) \<leftarrow> LoadFileContents L src (f1\<lparr>fc_data := None\<rparr>) True a1; Some (f, a) }
        else Some (f1, a1)) = Some (f2, a2)"
      using ap l1 False by (cases "if fc_data f1 = None \<or> tgt' \<noteq> src
        then do { (_, f, a) \<leftarrow> LoadFileContents L src (f1\<lparr>fc_data := None\<rparr>) True a1; Some (f, a) }
        else Some (f1, a1)") auto
    have s2: "same_files (ap_os a) (ap_os a2)"
      using l2 s1 by (auto split: if_splits bind_splits dest: same_files_LoadFile intro: same_files_trans)
    have f2: "loaded L src (ap_os a) f2" if "\<not> is_partition src" "fc_data f2 \<noteq> None"
      using l2 l1 that loaded_same [OF s1, of L src]
      by (auto split: if_splits bind_splits dest: LoadFile_result)
    obtain sp where sp: "(if fc_data f2 \<noteq> None then matching_patch f2 ss ps else Some None) = Some sp"
      using ap l1 False l2 by (cases "if fc_data f2 \<noteq> None then matching_patch f2 ss ps else Some None") auto
    let ?j = "\<lparr>j_libs = L, j_source = f2, j_source_patch = sp, j_copy = fresh_contents, j_copy_patch = None,
      j_source_filename = src, j_target_filename = tgt', j_target_sha1 = d, j_target_size = sz, j_bonus = bonus\<rparr>"
    have rest: "(case sp of
                  Some _ \<Rightarrow> GenerateTarget ?j a2
                | None \<Rightarrow> do {
                    (r, copy_file, a) \<leftarrow> LoadFileContents L CACHE_TEMP_SOURCE fresh_contents True a2;
                    if r < 0 then Some (1, a)
                    else do {
                      copy_patch_value \<leftarrow> matching_patch copy_file ss ps;
                      if copy_patch_value = None then Some (1, a)
                      else GenerateTarget (?j\<lparr>j_source := f2\<lparr>fc_data := None\<rparr>,
                             j_copy := copy_file, j_copy_patch := copy_patch_value\<rparr>) a
                    }
                  }) = Some (r, a')"
      using ap l1 False l2 sp by simp
    show ?thesis
    proof (cases sp)
      case sps: (Some p)
      then have "matching_patch f2 ss ps = Some (Some p)" "fc_data f2 \<noteq> None" using sp by (auto split: if_splits)
      with sps show ?thesis
        using Some s2 f2 rest matching_patch_Some [of f2 ss ps p] by (intro generate [of d a2 ?j]) auto
    next
      case None
      from rest [unfolded None option.case] show ?thesis
      proof (cases rule: resume_cases)
        case rf: failed
        then show ?thesis using same_files_trans [OF s2] by (intro failed) auto
      next
        case (copy f3 a3 p)
        then show ?thesis using Some None same_files_trans [OF s2 copy(1)] loaded_same [OF s2, of L CACHE_TEMP_SOURCE]
          by (intro generate [of d a3 "?j\<lparr>j_source := f2\<lparr>fc_data := None\<rparr>, j_copy := f3, j_copy_patch := Some p\<rparr>"]) auto
      qed
    qed
  qed
qed

section \<open>A failed run can be repeated\<close>

lemma masked_length: "masked d m \<Longrightarrow> length m = length d"
proof -
  assume "masked d m"
  then obtain off where m: "retouch_mask_data d (int (length d)) (Some 0) = Some (RETOUCH_DATA_MATCHED, m, off)"
    by (auto simp: masked_def)
  define i where "i = \<lparr>offset_candidate = 0, offset_set = False, offset_mismatch = False\<rparr>"
  consider "m = d" | b r' where "int (length d) \<ge> 20"
      "mask_loop b (nat (int (length d) - 20)) (Some 0) d b init_compression_state i = Some (m, r')"
    using m unfolding i_def
    by (auto simp: retouch_mask_data_def Let_def split: if_splits bind_splits option.splits)
  then show ?thesis
  proof cases
    case (2 b r')
    then show ?thesis
      using mask_loop_defined [of b b "nat (int (length d) - 20)" d "Some 0" i init_compression_state]
      by (auto simp: agrees_def i_def)
  qed simp
qed

text \<open>What a file or the copy in the cache has to have to be patched.\<close>

definition patchable :: "('z, 'd, 'c) libs \<Rightarrow> string list \<Rightarrow> os \<Rightarrow> string \<Rightarrow> bool" where
  "patchable L ss w p \<longleftrightarrow> (\<exists>ino m. files w p = Some ino \<and> (m = i_data ino \<or> masked (i_data ino) m) \<and>
     FindMatchingPatch (SHA_hash (l_sha L) m) ss \<ge> 0)"

lemma loaded_patchable: "loaded L p w fc \<Longrightarrow> FindMatchingPatch (fc_sha1 fc) ss \<ge> 0 \<Longrightarrow> patchable L ss w p"
  by (auto simp: loaded_def patchable_def)

lemma patchable_cong: "files w' p = files w p \<Longrightarrow> patchable L ss w' p = patchable L ss w p"
  by (simp add: patchable_def)

lemma back_up_patchable:
  assumes "back_up src w = Some (True, w')" "loaded L p w0 src" "FindMatchingPatch (fc_sha1 src) ss \<ge> 0"
  shows "patchable L ss w' CACHE_TEMP_SOURCE"
proof -
  obtain ino :: inode and m where m: "masked (i_data ino) m" and src: "src = \<lparr>fc_sha1 = SHA_hash (l_sha L) m,
      fc_data = Some m, fc_size = Some (int (length (i_data ino))), fc_st = Some (i_mode ino, i_uid ino, i_gid ino)\<rparr>"
    using assms(2) unfolding loaded_def by blast
  obtain ino' where "files w' CACHE_TEMP_SOURCE = Some ino'" "i_data ino' = m"
    using back_up_spec(2) [OF assms(1)] masked_length [OF m] by (auto simp: src)
  then show ?thesis using assms(3) by (auto simp: patchable_def src)
qed

text \<open>The names that must not coincide for a copy to be kept.\<close>

definition separate :: "string \<Rightarrow> string \<Rightarrow> os \<Rightarrow> bool" where
  "separate src tgt w \<longleftrightarrow> \<not> is_partition src \<and> \<not> is_partition tgt \<and> src \<noteq> CACHE_TEMP_SOURCE \<and>
     tgt @ ''.patch'' \<noteq> src \<and> tgt @ ''.patch'' \<noteq> CACHE_TEMP_SOURCE \<and> \<not> expendable w src"

lemma expendable_cong: "files w' p = files w p \<Longrightarrow> expendable w' p = expendable w p"
  by (simp add: expendable_def)

lemma make_room_keeps:
  assumes "make_room j retry fs w = Some (q, w')" "separate (j_source_filename j) (j_target_filename j) w"
    and "j_source_patch j \<noteq> None" "loaded L p w0 (j_source j)" "FindMatchingPatch (fc_sha1 (j_source j)) ss \<ge> 0"
  shows "files w' (j_source_filename j) = files w (j_source_filename j) \<or>
    patchable L ss w' CACHE_TEMP_SOURCE \<and> (\<forall>copied. q \<noteq> Some (True, copied))"
proof -
  have "\<not> is_partition (j_target_filename j)" using assms(2) by (simp add: separate_def)
  with assms(1) show ?thesis
  proof (cases rule: make_room_cases)
    case (failed w1)
    then have "\<not> expendable w1 (j_source_filename j)" using assms(2) by (simp add: separate_def expendable_same)
    then show ?thesis using back_up_spec(1) [OF failed(2)] failed(1) assms(2)
      by (simp add: touches_def separate_def same_files_def)
  next
    case (moved w1 w2 r w3)
    have "patchable L ss w2 CACHE_TEMP_SOURCE" by (rule back_up_patchable [OF moved(2) assms(4,5)])
    moreover have "files w' CACHE_TEMP_SOURCE = files w2 CACHE_TEMP_SOURCE"
      using touches_unlink [OF moved(3)] moved(4) assms(2) by (simp add: touches_def same_files_def separate_def)
    ultimately show ?thesis using moved(5) patchable_cong by blast
  qed (simp add: same_files_def)
qed

lemma make_room_copy:
  assumes "make_room j retry fs w = Some (q, w')" "\<not> is_partition (j_target_filename j)" "j_source_patch j = None"
  shows "same_files w w'"
  using assms(1,2) by (cases rule: make_room_cases) (use assms(3) in simp_all)

lemma generate_loop_resumable:
  assumes "generate_loop n j retry made fs w = Some (v, w')" "separate (j_source_filename j) (j_target_filename j) w"
    and "j_source_patch j \<noteq> None \<longrightarrow> loaded L (j_source_filename j) w (j_source j) \<and>
      FindMatchingPatch (fc_sha1 (j_source j)) ss \<ge> 0"
    and "j_source_patch j = None \<longrightarrow> patchable L ss w CACHE_TEMP_SOURCE"
  shows "patchable L ss w' (j_source_filename j) \<or> patchable L ss w' CACHE_TEMP_SOURCE"
proof -
  let ?src = "j_source_filename j" and ?C = CACHE_TEMP_SOURCE
  define H where "H w1 \<longleftrightarrow> files w1 ?src = files w ?src \<and> (j_source_patch j = None \<longrightarrow> files w1 ?C = files w ?C)" for w1 :: os
  define E where "E w1 \<longleftrightarrow> patchable L ss w1 ?src \<or> patchable L ss w1 ?C" for w1 :: os
  have names: "\<not> is_partition (j_target_filename j)" "outname_of j \<noteq> ?src" "outname_of j \<noteq> ?C"
    using assms(2) by (simp_all add: separate_def)
  have HE: "E w1" if "H w1" for w1
    using that assms(3,4) loaded_patchable patchable_cong unfolding H_def E_def by metis
  have keep: "(H w1 \<longrightarrow> H w2) \<and> (E w1 \<longrightarrow> E w2)" if "touches ((=) (outname_of j)) w1 w2" for w1 w2
    using that names by (simp add: touches_def H_def E_def patchable_def)
  have room: "E w2 \<and> (\<forall>copied. q = Some (True, copied) \<longrightarrow> H w2)"
    if "H w1" "make_room j retry fs w1 = Some (q, w2)" for retry w1 q w2
  proof (cases "j_source_patch j = None")
    case True
    then show ?thesis using make_room_copy [OF that(2) names(1)] that(1) HE by (auto simp: H_def same_files_def)
  next
    case False
    have "separate ?src (j_target_filename j) w1"
      using assms(2) that(1) expendable_cong [of w1 ?src] by (simp add: separate_def H_def)
    from make_room_keeps [OF that(2) this False] assms(3) False that(1) HE show ?thesis
      unfolding H_def E_def by metis
  qed
  have "E w' \<and> (\<forall>po c src made'. v = Inr (po, c, src, made') \<longrightarrow> (\<exists>patch w1. E w1 \<and>
    (j_source_patch j = Some patch \<or> j_copy_patch j = Some patch) \<and> decode j src patch w1 = Some (Some (0, po, c), w')))"
  proof (rule generate_loop_inv [OF assms(1)])
    show "H w" by (simp add: H_def)
    show "H (snd (sys_unlink (outname_of j) w1))" if "H w1" for w1
      using keep [OF touches_unlink [OF surjective_pairing]] that by blast
  qed (use room keep [OF decode_file_touches [OF _ names(1)]] in blast)+
  then show ?thesis by (simp add: E_def)
qed

lemma GenerateTarget_resumable:
  assumes "GenerateTarget j a = Some (r, a')" "r \<noteq> 0" "separate (j_source_filename j) (j_target_filename j) (ap_os a)"
    and "j_source_patch j \<noteq> None \<longrightarrow> loaded L (j_source_filename j) (ap_os a) (j_source j) \<and>
      FindMatchingPatch (fc_sha1 (j_source j)) ss \<ge> 0"
    and "j_source_patch j = None \<longrightarrow> patchable L ss (ap_os a) CACHE_TEMP_SOURCE"
  shows "patchable L ss (ap_os a') (j_source_filename j) \<or> patchable L ss (ap_os a') CACHE_TEMP_SOURCE"
proof -
  note loop = generate_loop_resumable [OF _ assms(3-5)]
  have names: "\<not> is_partition (j_target_filename j)" "outname_of j \<noteq> j_source_filename j" "outname_of j \<noteq> CACHE_TEMP_SOURCE"
    using assms(3) by (simp_all add: separate_def)
  from assms(1) show ?thesis
  proof (cases rule: GenerateTarget_loop)
    case (failed fs v)
    then show ?thesis using loop by blast
  next
    case (wrote fs po c src made w r' a1)
    obtain patch w1 where "decode j src patch w1 = Some (Some (0, po, c), w)"
      using generate_loop_orc [OF wrote(1) names(1)] by blast
    then have po: "po = ToFile (outname_of j)" using names(1) by (cases rule: decode_file_cases) auto
    obtain w2 where w2: "install_file src (outname_of j) (j_target_filename j) w = Some (r', w2)" "ap_os a' = w2"
      using wrote(3-5) po assms(2) by (auto split: bind_splits if_splits)
    have "touches ((=) (outname_of j)) w w2" using install_file_spec(1) [OF w2(1)] wrote(4) assms(2) by (auto split: if_splits)
    then show ?thesis using loop [OF wrote(1)] names(2,3) w2(2) by (simp add: touches_def patchable_def)
  qed
qed

section \<open>An example\<close>

definition demo_tools :: "(byte list, byte list, byte list) libs" where
  "demo_tools = demo_libs\<lparr>l_sha := \<lparr>SHA_init = [], SHA_update = (@), SHA_final = (\<lambda>c. take 20 (c @ replicate 20 0)),
     SHA_hash = (\<lambda>d. take 20 (d @ replicate 20 0))\<rparr>\<rparr>"

definition demo_patch :: Value where
  "demo_patch = blob (image_patch [RawChunk [5, 6]] [])"

text \<open>A system in which every call succeeds.\<close>

definition demo_sys :: "(string \<rightharpoonup> inode) \<Rightarrow> nat \<Rightarrow> os" where
  "demo_sys fs n = \<lparr>files = fs, mtddev = Map.empty, orc = (\<lambda>_. LONG_MAX), noise = (\<lambda>_ bs. bs), names = (\<lambda>_ _. []), clk = n\<rparr>"

definition demo_ap :: "(string \<rightharpoonup> inode) \<Rightarrow> nat \<Rightarrow> ap" where
  "demo_ap fs n = \<lparr>ap_os = demo_sys fs n, ap_mtd = g_mtd_state, mtd_partitions_scanned = False\<rparr>"

definition demo_inode :: "byte list \<Rightarrow> inode" where
  "demo_inode d = \<lparr>i_data = d, i_mode = 33188, i_uid = 0, i_gid = 0\<rparr>"

lemma demo_ask [simp]:
  "ask (demo_sys fs n) = (LONG_MAX, demo_sys fs (Suc n))" "files (demo_sys fs n) = fs"
  "(demo_sys fs n)\<lparr>files := fs'\<rparr> = demo_sys fs' n" "ap_os (demo_ap fs n) = demo_sys fs n"
  "(demo_ap fs n)\<lparr>ap_os := demo_sys fs' n'\<rparr> = demo_ap fs' n'"
  "demo_inode d = demo_inode d' \<longleftrightarrow> d = d'" "i_data (demo_inode d) = d"
  by (simp_all add: demo_sys_def demo_ap_def demo_inode_def ask_def)

lemma demo_patch_bytes: "vbytes demo_patch = bytes_of ''IMGDIFF2'' @ [1, 0, 0, 0, 3, 0, 0, 0, 2, 0, 0, 0, 5, 6]"
  by (simp add: demo_patch_def image_patch_def Write4_def)

lemma demo_patch_fields:
  "field4 (vbytes demo_patch) 8 = Some 1" "field4 (vbytes demo_patch) 12 = Some 3"
  "slice (vbytes demo_patch) 0 8 = Some (bytes_of ''IMGDIFF2'')" "field4 (drop 16 (vbytes demo_patch)) 0 = Some 2"
  "slice (vbytes demo_patch) 20 2 = Some [5, 6]" "vtype demo_patch = VAL_BLOB"
  by (simp_all add: demo_patch_bytes field4_def Read4_def slice_def bytes_of_def) (simp add: demo_patch_def blob_def)

lemma demo_patch_size: "vsize demo_patch = 22"
  by (simp add: demo_patch_def blob_def image_patch_def Write4_def bytes_of_def)

lemma demo_decoder:
  assumes "snk t [5, 6] = Some (t', 2)"
  shows "ApplyImagePatch L old sz demo_patch snk t c bonus = Some (0, t', SHA_update (l_sha L) c [5, 6])"
  using assms
  by (simp add: ApplyImagePatch_def demo_patch_fields demo_patch_size one_chunk_def raw_chunk_def c_int_def LONG_MIN_def LONG_MAX_def)

lemma demo_sink:
  assumes "fs (f_path f) = Some ino" "bs \<noteq> []" "int (length bs) \<le> LONG_MAX"
  shows "FileSink (f, demo_sys fs n) bs = Some ((f\<lparr>f_pos := f_pos f + length bs\<rparr>,
     demo_sys (fs(f_path f \<mapsto> ino\<lparr>i_data := overwrite (i_data ino) (f_pos f) bs\<rparr>)) (Suc n)), int (length bs))"
  using assms by (simp add: FileSink_def file_sink_loop.simps sys_write_def Let_def LONG_MAX_def)

lemma demo_plain: "\<not> is_partition ''/a''"
  by (simp add: is_partition_def starts_with_def)

lemma demo_load:
  "LoadFileContents demo_tools ''/a'' fresh_contents True (demo_ap [''/a'' \<mapsto> demo_inode [1]] 0) =
    Some (0, \<lparr>fc_sha1 = 1 # replicate 19 0, fc_data = Some [1], fc_size = Some 1, fc_st = Some (33188, 0, 0)\<rparr>,
      demo_ap [''/a'' \<mapsto> demo_inode [1]] (Suc (Suc (Suc (Suc 0)))))"
  by (simp add: LoadFileContents_def demo_tools_def demo_libs_def sys_stat_def sys_open_def sys_fread_def sys_read_def
      sys_status_def demo_plain retouch_mask_data_def LONG_MAX_def fresh_contents_def file_data_def demo_inode_def)

definition demo_job :: "byte list \<Rightarrow> (byte list, byte list, byte list) libs job" where
  "demo_job d = \<lparr>j_libs = demo_tools, j_source = \<lparr>fc_sha1 = 1 # replicate 19 0, fc_data = Some [1], fc_size = Some 1,
       fc_st = Some (33188, 0, 0)\<rparr>, j_source_patch = Some demo_patch, j_copy = fresh_contents, j_copy_patch = None,
     j_source_filename = ''/a'', j_target_filename = ''/a'', j_target_sha1 = d, j_target_size = 2, j_bonus = None\<rparr>"

lemma demo_space: "FreeSpaceForFile x (demo_sys fs n) = (1, demo_sys fs (Suc (Suc (Suc n))))"
  by (simp add: FreeSpaceForFile_def sys_statfs_def LONG_MAX_def)

lemma demo_cache_room: "MakeFreeSpaceOnCache 1 (demo_sys fs n) = (0, demo_sys fs (Suc (Suc (Suc n))))"
  by (simp add: MakeFreeSpaceOnCache_def demo_space)

definition demo_moved :: "string \<rightharpoonup> inode" where
  "demo_moved = [CACHE_TEMP_SOURCE \<mapsto> demo_inode [1]]"

lemma demo_room:
  "\<exists>n'. make_room (demo_job d) retry fs (demo_sys [''/a'' \<mapsto> demo_inode [1]] n) =
    Some (Some (False, True), demo_sys demo_moved n')"
  by (simp add: make_room_def demo_job_def demo_plain demo_space back_up_def demo_cache_room SaveFileContents_def
      sys_open_def demo_sink sys_status_def sys_chmod_def sys_chown_def sys_modify_def sys_unlink_def
      CACHE_TEMP_SOURCE_def slice_def overwrite_def Let_def LONG_MAX_def demo_inode_def demo_moved_def fun_upd_twist) blast

lemma demo_decode:
  "\<exists>n'. decode (demo_job d) (j_source (demo_job d)) demo_patch (demo_sys demo_moved n) =
    Some (Some (0, ToFile ''/a.patch'', [5, 6]), demo_sys (demo_moved(
      ''/a.patch'' \<mapsto> \<lparr>i_data = [5, 6], i_mode = 33152, i_uid = 0, i_gid = 0\<rparr>)) n')"
  by (simp add: decode_def demo_job_def run_patch_def demo_patch_fields demo_patch_size demo_plain sys_open_def sys_status_def
      demo_decoder demo_sink demo_tools_def bytes_of_def LONG_MAX_def overwrite_def Let_def demo_moved_def CACHE_TEMP_SOURCE_def) blast

lemma demo_install:
  "\<exists>n'. install_file (j_source (demo_job d)) ''/a.patch'' ''/a'' (demo_sys (demo_moved(
      ''/a.patch'' \<mapsto> \<lparr>i_data = [5, 6], i_mode = 33152, i_uid = 0, i_gid = 0\<rparr>)) n) =
    Some (0, demo_sys (demo_moved(''/a'' \<mapsto> demo_inode [5, 6])) n')"
  by (simp add: install_file_def demo_job_def sys_chmod_def sys_chown_def sys_modify_def sys_rename_def demo_moved_def
      CACHE_TEMP_SOURCE_def LONG_MAX_def Let_def demo_inode_def fun_upd_twist) blast

lemma demo_generate:
  "\<exists>n'. GenerateTarget (demo_job d) (demo_ap [''/a'' \<mapsto> demo_inode [1]] n) =
    Some (if d = 5 # 6 # replicate 18 0 then (0, demo_ap [''/a'' \<mapsto> demo_inode [5, 6]] n')
      else (1, demo_ap (demo_moved(''/a.patch'' \<mapsto> \<lparr>i_data = [5, 6], i_mode = 33152, i_uid = 0, i_gid = 0\<rparr>)) n'))"
proof -
  obtain n1 where r: "make_room (demo_job d) True ''/a'' (demo_sys [''/a'' \<mapsto> demo_inode [1]] n) =
      Some (Some (False, True), demo_sys demo_moved n1)"
    using demo_room by blast
  obtain n2 where d: "decode (demo_job d) (j_source (demo_job d)) demo_patch (demo_sys demo_moved n1) =
      Some (Some (0, ToFile ''/a.patch'', [5, 6]), demo_sys (demo_moved(
        ''/a.patch'' \<mapsto> \<lparr>i_data = [5, 6], i_mode = 33152, i_uid = 0, i_gid = 0\<rparr>)) n2)"
    using demo_decode by blast
  obtain n3 where i: "install_file (j_source (demo_job d)) ''/a.patch'' ''/a'' (demo_sys (demo_moved(
        ''/a.patch'' \<mapsto> \<lparr>i_data = [5, 6], i_mode = 33152, i_uid = 0, i_gid = 0\<rparr>)) n2) =
      Some (0, demo_sys (demo_moved(''/a'' \<mapsto> demo_inode [5, 6])) n3)"
    using demo_install by blast
  have j: "j_source_patch (demo_job d) = Some demo_patch" "j_target_filename (demo_job d) = ''/a''" "j_target_sha1 (demo_job d) = d"
    "j_libs (demo_job d) = demo_tools"
    by (simp_all add: demo_job_def)
  have g: "generate_loop 2 (demo_job d) True False ''/a'' (demo_sys [''/a'' \<mapsto> demo_inode [1]] n) =
      Some (Inr (ToFile ''/a.patch'', [5, 6], j_source (demo_job d), True), demo_sys (demo_moved(
        ''/a.patch'' \<mapsto> \<lparr>i_data = [5, 6], i_mode = 33152, i_uid = 0, i_gid = 0\<rparr>)) n2)"
    by (simp add: numeral_2_eq_2 r d j)
  have h: "SHA_final (l_sha demo_tools) [5, 6] = 5 # 6 # replicate 18 0" by (simp add: demo_tools_def)
  have u: "snd (sys_unlink CACHE_TEMP_SOURCE (demo_sys (demo_moved(''/a'' \<mapsto> demo_inode [5, 6])) n3)) =
      demo_sys [''/a'' \<mapsto> demo_inode [5, 6]] (Suc n3)"
    by (simp add: sys_unlink_def demo_moved_def CACHE_TEMP_SOURCE_def LONG_MAX_def fun_upd_twist)
  have "\<exists>n'. GenerateTarget (demo_job d) (demo_ap [''/a'' \<mapsto> demo_inode [1]] n) =
      Some (if SHA_final (l_sha demo_tools) [5, 6] \<noteq> d
        then (1, demo_ap (demo_moved(''/a.patch'' \<mapsto> \<lparr>i_data = [5, 6], i_mode = 33152, i_uid = 0, i_gid = 0\<rparr>)) n')
        else (0, demo_ap [''/a'' \<mapsto> demo_inode [5, 6]] n'))"
    by (simp add: GenerateTarget_def target_fs_def j g i u del: generate_loop.simps) blast
  then show ?thesis unfolding h by (simp split: if_splits) metis
qed

lemma demo_run:
  assumes "length d = 20" "d \<noteq> 1 # replicate 19 0"
  shows "applypatch demo_tools ''/a'' ''-'' (sha_text d) 2 [sha_text (1 # replicate 19 0)] [demo_patch] None
      (demo_ap [''/a'' \<mapsto> demo_inode [1]] 0) =
    GenerateTarget (demo_job d) (demo_ap [''/a'' \<mapsto> demo_inode [1]] (Suc (Suc (Suc (Suc 0)))))"
  using assms
  by (simp add: applypatch_def ParseSha1_text demo_load matching_patch_def FindMatchingPatch_def rd_def demo_job_def Let_def)

section \<open>Properties\<close>

text \<open>
  C20. When \<open>applypatch\<close> for a file returns 0, the target exists and has the digest that was asked
  for: either it was there before (up to the retouching that is masked when a file is loaded) and
  nothing was changed, or its data has this digest. This holds for every answer of the system
  to the calls, as long as the patch is not an image patch or writes are not split; a file is
  only moved to its place after its digest was compared.
\<close>

theorem applypatch_file_correct:
  assumes "applypatch L src tgt str sz ss ps bonus a = Some (0, a')" "ParseSha1 str = Some d"
    and "tgt' = (if tgt = ''-'' then src else tgt)" "\<not> is_partition tgt'" "tgt' \<noteq> CACHE_TEMP_SOURCE"
    and "sha_streams (l_sha L)" "whole_transfers (ap_os a) \<or> (\<forall>p \<in> set ps. \<not> is_image p)"
  shows "\<exists>ino. files (ap_os a') tgt' = Some ino \<and>
    (SHA_hash (l_sha L) (i_data ino) = d \<or>
     files (ap_os a') = files (ap_os a) \<and> (\<exists>m. masked (i_data ino) m \<and> SHA_hash (l_sha L) m = d))"
  using assms(1,3)
proof (cases rule: applypatch_cases)
  case (already d' fc)
  then show ?thesis using LoadFile_result [OF already(2) assms(4)] same_files_LoadFile [OF already(2)] assms(2)
    by (auto simp: loaded_def same_files_def)
next
  case (generate d' a1 j)
  then show ?thesis
    using GenerateTarget_file [OF generate(3)] assms(2,4-7) by (auto simp: whole_transfers_def same_files_def)
qed simp

theorem applypatch_file_correct_witness:
  "\<exists>a' ino. applypatch demo_tools ''/a'' ''-'' (sha_text (5 # 6 # replicate 18 0)) 2 [sha_text (1 # replicate 19 0)] [demo_patch] None
      (demo_ap [''/a'' \<mapsto> demo_inode [1]] 0) = Some (0, a') \<and> files (ap_os a') ''/a'' = Some ino \<and>
    SHA_hash (l_sha demo_tools) (i_data ino) = 5 # 6 # replicate 18 0"
proof -
  let ?d = "5 # 6 # replicate 18 0 :: byte list"
  obtain n where run: "applypatch demo_tools ''/a'' ''-'' (sha_text ?d) 2 [sha_text (1 # replicate 19 0)] [demo_patch] None
      (demo_ap [''/a'' \<mapsto> demo_inode [1]] 0) = Some (0, demo_ap [''/a'' \<mapsto> demo_inode [5, 6]] n)"
    using demo_run [of ?d] demo_generate [of ?d] by auto
  have "whole_transfers (ap_os (demo_ap [''/a'' \<mapsto> demo_inode [1]] 0))" by (simp add: whole_transfers_def demo_sys_def)
  moreover have "sha_streams (l_sha demo_tools)" by (simp add: demo_tools_def sha_streams_def)
  ultimately have "\<exists>ino. [''/a'' \<mapsto> demo_inode [5, 6]] ''/a'' = Some ino \<and>
      (SHA_hash (l_sha demo_tools) (i_data ino) = ?d \<or> [''/a'' \<mapsto> demo_inode [5, 6]] = [''/a'' \<mapsto> demo_inode [1]] \<and>
         (\<exists>m. masked (i_data ino) m \<and> SHA_hash (l_sha demo_tools) m = ?d))"
    using applypatch_file_correct [OF run, where d = ?d and tgt' = "''/a''"]
    by (simp add: ParseSha1_text demo_plain CACHE_TEMP_SOURCE_def)
  with run show ?thesis by (auto dest!: fun_upd_eqD)
qed

text \<open>
  C21. A patch that fails can be applied again: if the source or the copy in the cache matches one
  of the patches before \<open>applypatch\<close> is run on files, and it fails for whatever reason, then
  afterwards the source or the copy still matches one of them. (The source is only deleted once the
  copy is complete; the hypothesis \<open>separate\<close> says that the names involved are different and
  that the source is not one of the files that may be deleted to make room in the cache.)
\<close>

theorem applypatch_resumable:
  assumes "applypatch L src tgt str sz ss ps bonus a = Some (r, a')" "r \<noteq> 0"
    and "separate src (if tgt = ''-'' then src else tgt) (ap_os a)"
    and "patchable L ss (ap_os a) src \<or> patchable L ss (ap_os a) CACHE_TEMP_SOURCE"
  shows "patchable L ss (ap_os a') src \<or> patchable L ss (ap_os a') CACHE_TEMP_SOURCE"
  using assms(1) refl
proof (cases rule: applypatch_cases)
  case failed
  then show ?thesis using assms(4) by (simp add: patchable_def same_files_def)
next
  case (generate d a1 j)
  have src: "\<not> is_partition src" using assms(3) by (simp add: separate_def)
  have "separate (j_source_filename j) (j_target_filename j) (ap_os a1)"
    using assms(3) generate(2,5,6) by (simp add: separate_def expendable_same)
  from GenerateTarget_resumable [OF generate(3) assms(2) this, of L ss]
  show ?thesis
    using generate src loaded_same [OF generate(2), of L] loaded_patchable [of L CACHE_TEMP_SOURCE "ap_os a1" "j_copy j" ss]
    by simp
qed (use assms(2) in simp)

theorem applypatch_resumable_witness:
  "\<exists>a'. applypatch demo_tools ''/a'' ''-'' (sha_text (7 # replicate 19 0)) 2 [sha_text (1 # replicate 19 0)] [demo_patch] None
      (demo_ap [''/a'' \<mapsto> demo_inode [1]] 0) = Some (1, a') \<and> files (ap_os a') ''/a'' = None \<and>
    patchable demo_tools [sha_text (1 # replicate 19 0)] (ap_os a') CACHE_TEMP_SOURCE"
proof -
  let ?d = "7 # replicate 19 0 :: byte list" and ?ss = "[sha_text (1 # replicate 19 0)]"
  let ?fs = "demo_moved(''/a.patch'' \<mapsto> \<lparr>i_data = [5, 6], i_mode = 33152, i_uid = 0, i_gid = 0\<rparr>)"
  obtain n where run: "applypatch demo_tools ''/a'' ''-'' (sha_text ?d) 2 ?ss [demo_patch] None
      (demo_ap [''/a'' \<mapsto> demo_inode [1]] 0) = Some (1, demo_ap ?fs n)"
    using demo_run [of ?d] demo_generate [of ?d] by auto
  have gone: "?fs ''/a'' = None" by (simp add: demo_moved_def CACHE_TEMP_SOURCE_def)
  have "separate ''/a'' ''/a'' (ap_os (demo_ap [''/a'' \<mapsto> demo_inode [1]] 0))"
    by (simp add: separate_def demo_plain expendable_def file_in_def cache_dirs_def CACHE_TEMP_SOURCE_def)
  moreover have "patchable demo_tools ?ss (ap_os (demo_ap [''/a'' \<mapsto> demo_inode [1]] 0)) ''/a''"
    by (simp add: patchable_def) (rule exI [of _ "[1]"], simp add: FindMatchingPatch_def ParseSha1_text demo_tools_def)
  ultimately have "patchable demo_tools ?ss (ap_os (demo_ap ?fs n)) ''/a'' \<or>
      patchable demo_tools ?ss (ap_os (demo_ap ?fs n)) CACHE_TEMP_SOURCE"
    by (intro applypatch_resumable [OF run]) simp_all
  with gone have "patchable demo_tools ?ss (ap_os (demo_ap ?fs n)) CACHE_TEMP_SOURCE" by (simp add: patchable_def)
  with run gone show ?thesis by (intro exI [of _ "demo_ap ?fs n"]) simp
qed

end
