(* ===== verification/Applypatch_Partitions.thy ===== *)
theory Applypatch_Partitions
  imports Applypatch_Files
begin

text \<open>
  \<open>applypatch\<close> on partitions: a partition is loaded only with verified contents, and what a
  successful run leaves on a block device.
\<close>

section \<open>Block devices\<close>

text \<open>The bytes found at a position.\<close>

definition found_at :: "byte list \<Rightarrow> nat \<Rightarrow> byte list \<Rightarrow> bool" where
  "found_at d p bs \<longleftrightarrow> take (length bs) (drop p d) = bs"

lemma found_at_Nil [simp]: "found_at d p []"
  by (simp add: found_at_def)

lemma found_at_append: "found_at d p (a @ b) \<longleftrightarrow> found_at d p a \<and> found_at d (p + length a) b"
proof -
  have "take (length a + length b) (drop p d) = take (length a) (drop p d) @ take (length b) (drop (p + length a) d)"
    by (simp add: take_add add.commute)
  moreover have "length (take (length a) (drop p d)) = length a" if "found_at d p (a @ b)"
  proof -
    have "length (take (length a + length b) (drop p d)) = length (a @ b)" using that by (simp only: found_at_def length_append)
    then show ?thesis by (simp add: min_def split: if_splits)
  qed
  ultimately show ?thesis by (auto simp: found_at_def)
qed

lemma found_at_take: "found_at d p (take n (drop p d))"
  by (simp add: found_at_def min_def)

lemma sys_read_data:
  assumes "sys_read f n w = ((k, bs), f', w')"
  shows "same_files w w' \<and> f_path f' = f_path f \<and> length bs \<le> n \<and>
    found_at (file_data w (f_path f)) (f_pos f) bs \<and> f_pos f' = f_pos f + length bs"
  using assms found_at_take [of "file_data w (f_path f)" "f_pos f"]
  by (auto simp: sys_read_def same_files_def ask_def file_data_def Let_def split: if_splits)

lemma same_files_data: "same_files w w' \<Longrightarrow> file_data w' p = file_data w p"
  by (simp add: same_files_def file_data_def)

lemma emmc_read_spec:
  assumes "emmc_read f n buf w = Some (Inr (buf', f', w'))" "found_at (file_data w (f_path f)) p buf"
    "f_pos f = p + length buf" "length buf \<le> n"
  shows "same_files w w' \<and> f_path f' = f_path f \<and> found_at (file_data w (f_path f)) p buf' \<and>
    f_pos f' = p + n \<and> length buf' = n"
proof -
  have "\<forall>buf' f' w'. y = Inr (buf', f', w') \<longrightarrow> found_at (file_data w (f_path f)) p buf \<longrightarrow>
      f_pos f = p + length buf \<longrightarrow> length buf \<le> n \<longrightarrow> same_files w w' \<and> f_path f' = f_path f \<and>
      found_at (file_data w (f_path f)) p buf' \<and> f_pos f' = p + n \<and> length buf' = n"
    if "emmc_read f n buf w = Some y" for y
  proof (induction rule: emmc_read.raw_induct [OF _ that])
    case (1 rec f n buf w y)
    show ?case
    proof (cases "length buf < n")
      case True
      obtain k bs f1 w1 where r: "sys_read f (n - length buf) w = ((k, bs), f1, w1)" by (metis prod.exhaust)
      note s = sys_read_data [OF r]
      have d: "file_data w1 (f_path f1) = file_data w (f_path f)" using s same_files_data by simp
      have bs: "k < 0 \<Longrightarrow> bs = []" using r by (auto simp: sys_read_def Let_def split: prod.splits if_splits)
      have step: "rec f1 n (buf @ bs) w1 = Some y \<or> y = Inl w1"
        using 1(2) True r bs by (auto split: if_splits)
      have pre: "found_at (file_data w1 (f_path f1)) p (buf @ bs) \<and> f_pos f1 = p + length (buf @ bs) \<and> length (buf @ bs) \<le> n"
        if "found_at (file_data w (f_path f)) p buf" "f_pos f = p + length buf"
        using s that True unfolding d by (auto simp: found_at_append)
      show ?thesis using step
      proof
        assume "rec f1 n (buf @ bs) w1 = Some y"
        note IH = 1(1) [OF this, unfolded d]
        show ?thesis
        proof (intro allI impI)
          fix buf' f' w'
          assume y: "y = Inr (buf', f', w')" and b: "found_at (file_data w (f_path f)) p buf" "f_pos f = p + length buf"
          have "same_files w1 w' \<and> f_path f' = f_path f1 \<and> found_at (file_data w (f_path f)) p buf' \<and>
              f_pos f' = p + n \<and> length buf' = n"
            using IH [rule_format, OF y] pre [OF b, unfolded d] by blast
          then show "same_files w w' \<and> f_path f' = f_path f \<and> found_at (file_data w (f_path f)) p buf' \<and>
              f_pos f' = p + n \<and> length buf' = n"
            using s same_files_trans [of w w1 w'] by simp
        qed
      qed simp
    qed (use 1(2) in auto)
  qed
  from this [OF assms(1)] assms(2-4) show ?thesis by blast
qed

lemma emmc_verify_spec:
  assumes "emmc_verify data p f w = Some (Inr (q, f', w'))"
  shows "same_files w w' \<and> f_path f' = f_path f \<and>
    (q = None \<longrightarrow> f_pos f = p \<longrightarrow> found_at (file_data w (f_path f)) p (drop p data))"
  using assms
proof (induction data p f w arbitrary: f' w' rule: emmc_verify.induct)
  case (1 data p f w)
  show ?case
  proof (cases "p < length data")
    case True
    define n where "n = min (length data - p) 4096"
    obtain buf f1 w1 where r: "emmc_read f n [] w = Some (Inr (buf, f1, w1))"
        and v: "(if buf \<noteq> take n (drop p data) then Some (Inr (Some p, f1, w1)) else emmc_verify data (p + 4096) f1 w1) =
          Some (Inr (q, f', w'))"
      using "1.prems" True by (subst (asm) emmc_verify.simps) (auto simp: n_def Let_def split: bind_splits sum.splits)
    have e: "same_files w w1" "f_path f1 = f_path f" "found_at (file_data w (f_path f)) (f_pos f) buf" "f_pos f1 = f_pos f + n"
      using emmc_read_spec [OF r, of "f_pos f"] by simp_all
    show ?thesis
    proof (cases "buf = take n (drop p data)")
      case eq: True
      have IH: "same_files w1 w' \<and> f_path f' = f_path f1 \<and>
          (q = None \<longrightarrow> f_pos f1 = p + 4096 \<longrightarrow> found_at (file_data w1 (f_path f1)) (p + 4096) (drop (p + 4096) data))"
        using "1.IH" [OF True n_def r refl refl refl] v eq by simp
      have dp: "drop p data = buf @ drop (p + 4096) data"
        using append_take_drop_id [of n "drop p data"] eq by (auto simp: n_def min_def add.commute)
      have lb: "drop (p + 4096) data \<noteq> [] \<Longrightarrow> n = 4096 \<and> length buf = 4096"
        using eq by (auto simp: n_def)
      show ?thesis
        using IH e same_files_trans [OF e(1)] same_files_data [OF e(1)] lb unfolding dp found_at_append
        by (cases "drop (p + 4096) data = []") auto
    qed (use v e in auto)
  qed (use "1.prems" in \<open>subst (asm) emmc_verify.simps, simp\<close>)
qed

lemma emmc_write_path:
  assumes "emmc_write f data w = Some (Inr (f', w'))"
  shows "f_path f' = f_path f"
proof -
  have "\<forall>f' w'. y = Inr (f', w') \<longrightarrow> f_path f' = f_path f" if "emmc_write f data w = Some y" for y
  proof (induction rule: emmc_write.raw_induct [OF _ that])
    case (1 rec f data w y)
    obtain k f1 w1 where wr: "sys_write f (take 1048576 data) w = (k, f1, w1)" by (metis prod.exhaust)
    have p: "f_path f1 = f_path f" using wr by (auto simp: sys_write_def Let_def split: prod.splits if_splits)
    have "data = [] \<and> y = Inr (f, w) \<or> y = Inl w1 \<or> (\<exists>d. rec f1 d w1 = Some y)"
      using 1(2) [unfolded wr Let_def prod.case] by (auto split: if_splits)
    then show ?case
    proof (elim disjE exE)
      fix d
      assume "rec f1 d w1 = Some y"
      from 1(1) [OF this] show ?thesis unfolding p .
    qed simp_all
  qed
  then show ?thesis using assms by blast
qed

lemma emmc_attempts_spec:
  assumes "emmc_attempts n data start f w = Some (Inr (True, f', w'))"
  shows "found_at (file_data w' (f_path f)) 0 data"
  using assms
proof (induction n arbitrary: start f w)
  case (Suc n)
  obtain f1 w1 where wr: "emmc_write (sys_lseek f start) (drop start data) w = Some (Inr (f1, w1))"
    using Suc.prems by (auto split: bind_splits sum.splits)
  obtain v w2 where s: "sys_status w1 = (v, w2)" by (metis prod.exhaust)
  obtain q f2 w3 where q: "emmc_verify data 0 (sys_lseek f1 0) (drop_caches w2) = Some (Inr (q, f2, w3))"
      and rest: "(case q of None \<Rightarrow> Some (Inr (True, f2, w3)) | Some p \<Rightarrow> emmc_attempts n data p f2 w3) = Some (Inr (True, f', w'))"
    using Suc.prems wr s by (auto split: bind_splits sum.splits option.splits)
  have path: "f_path f1 = f_path f" using emmc_write_path [OF wr] by (simp add: sys_lseek_def)
  note v = emmc_verify_spec [OF q]
  show ?case
  proof (cases q)
    case None
    then show ?thesis using v rest path same_files_data [of "drop_caches w2" w3] by (simp add: sys_lseek_def)
  next
    case (Some p)
    then show ?thesis using Suc.IH [of p f2 w3] rest v path by (simp add: sys_lseek_def)
  qed
qed simp

section \<open>Loading a partition\<close>

lemma set_qsort: "set (qsort cmp xs) = set xs"
proof -
  have "set (qsort_insert cmp x ys) = insert x (set ys)" for x ys
    by (induction ys) auto
  then show ?thesis unfolding qsort_def by (induction xs) auto
qed

lemma set_sorted_pairs: "set (sorted_pairs ps) = set ps"
proof -
  have "(!) ps ` {0..<length ps} = set ps" by (metis list.set_map map_nth set_upt)
  then show ?thesis by (simp add: sorted_pairs_def set_qsort)
qed

text \<open>What a reader of a block device has delivered so far.\<close>

definition delivered_by :: "os \<Rightarrow> reader \<Rightarrow> byte list \<Rightarrow> bool" where
  "delivered_by w r d \<longleftrightarrow> (case r of MtdReader _ \<Rightarrow> True
     | EmmcReader f \<Rightarrow> found_at (file_data w (f_path f)) 0 d \<and> f_pos f = length d)"

definition reader_path :: "reader \<Rightarrow> string option" where
  "reader_path r = (case r of MtdReader _ \<Rightarrow> None | EmmcReader f \<Rightarrow> Some (f_path f))"

lemma read_partition_delivers:
  assumes "read_partition r n w = Some (k, bs, r', w')" "delivered_by w r d"
  shows "delivered_by w' r' (d @ bs) \<and> reader_path r' = reader_path r \<and> (reader_path r \<noteq> None \<longrightarrow> k = of_nat (length bs))"
proof (cases r)
  case (EmmcReader f)
  obtain q f1 w1 where s: "sys_read f (unat n) w = ((q, bs), f1, w')" and r': "r' = EmmcReader f1" "k = of_nat (length bs)"
    using assms(1) EmmcReader by (auto simp: read_partition_def sys_fread_def split: prod.splits)
  note rd = sys_read_data [OF s]
  then show ?thesis
    using assms(2) r' EmmcReader same_files_data [of w w' "f_path f"]
    by (auto simp: delivered_by_def reader_path_def found_at_append)
qed (use assms in \<open>auto simp: read_partition_def delivered_by_def reader_path_def split: bind_splits\<close>)

lemma load_pairs_match:
  assumes "load_pairs sha ps r d c w = Some (d', Inr (True, c', r'), w')" "sha_streams sha" "hashed sha c d" "delivered_by w r d"
  shows "hashed sha c' d' \<and> (\<exists>sz s. (sz, Some s) \<in> set ps \<and> ParseSha1 s = Some (SHA_hash sha d') \<and>
    (reader_path r \<noteq> None \<longrightarrow> sz = of_nat (length d'))) \<and>
    (\<forall>p. reader_path r = Some p \<longrightarrow> found_at (file_data w p) 0 d')"
  using assms(1,3,4)
proof (induction ps arbitrary: r d c w)
  case (Cons q ps)
  obtain sz str where q: "q = (sz, str)" by (metis prod.exhaust)
  define nxt where "nxt = sz - of_nat (length d)"
  obtain k bs r1 w1 where rp: "(if nxt > 0 then read_partition r nxt w else Some (0, [], r, w)) = Some (k, bs, r1, w1)"
    using Cons.prems(1) [unfolded q load_pairs.simps Let_def, folded nxt_def] by (auto split: bind_splits)
  define c1 where "c1 = (if nxt > 0 then SHA_update sha c bs else c)"
  note lp = Cons.prems(1) [unfolded q load_pairs.simps Let_def, folded nxt_def, unfolded rp bind.bind_lunit prod.case, folded c1_def]
  have k: "k = nxt" using lp by (auto split: if_splits)
  obtain s h where s: "str = Some s" "ParseSha1 s = Some h"
    using lp k by (auto split: bind_splits option.splits)
  have rest: "(if SHA_final sha c1 = h then Some (d @ bs, Inr (True, c1, r1), w1) else load_pairs sha ps r1 (d @ bs) c1 w1) =
      Some (d', Inr (True, c', r'), w')"
    using lp k s by simp
  have bs: "nxt = 0 \<Longrightarrow> bs = []" using rp by (auto split: if_splits)
  have w1: "same_files w w1" "delivered_by w1 r1 (d @ bs)" "reader_path r1 = reader_path r" "reader_path r \<noteq> None \<longrightarrow> k = of_nat (length bs)"
    using rp Cons.prems(3) read_partition_delivers [of r nxt w k bs r1 w1 d] same_files_read_partition [of r nxt w k bs r1 w1]
    by (auto split: if_splits)
  have c1: "hashed sha c1 (d @ bs)"
    using bs Cons.prems(2) hashed_update [OF assms(2) Cons.prems(2), of bs] word_gt_0 [of nxt] by (auto simp: c1_def)
  have fd: "file_data w1 p = file_data w p" for p by (rule same_files_data [OF w1(1)])
  show ?case
  proof (cases "SHA_final sha c1 = h")
    case True
    have "found_at (file_data w p) 0 (d @ bs)" if "reader_path r = Some p" for p
      using w1(2,3) that fd by (auto simp: delivered_by_def reader_path_def split: reader.splits)
    moreover have "reader_path r \<noteq> None \<longrightarrow> sz = of_nat (length (d @ bs))"
      using w1(4) k by (auto simp: nxt_def algebra_simps)
    moreover have "d' = d @ bs" "c' = c1" using True rest by simp_all
    moreover have "(sz, Some s) \<in> set (q # ps)" "ParseSha1 s = Some (SHA_hash sha (d @ bs))"
      using s True hashed_final [OF assms(2) c1] by (simp_all add: q)
    ultimately show ?thesis using c1 by blast
  next
    case False
    then have "load_pairs sha ps r1 (d @ bs) c1 w1 = Some (d', Inr (True, c', r'), w')" using rest by simp
    from Cons.IH [OF this c1 w1(2)] show ?thesis unfolding w1(3) fd q by auto
  qed
qed simp

lemma open_reader_path:
  assumes "open_reader magic part a = Some (Some r, a')"
  shows "delivered_by (ap_os a') r [] \<and> (magic \<noteq> ''MTD'' \<longrightarrow> reader_path r = Some part)"
  using assms
  by (auto simp: open_reader_def delivered_by_def reader_path_def sys_open_def ask_def Let_def
      split: if_splits bind_splits option.splits prod.splits)

lemma load_from_match:
  assumes "load_from L fc ps r w = Some (0, fc', w')" "sha_streams (l_sha L)" "delivered_by w r []"
  shows "\<exists>d sz s. fc_data fc' = Some d \<and> fc_size fc' = Some (int (length d)) \<and> fc_sha1 fc' = SHA_hash (l_sha L) d \<and>
    (sz, Some s) \<in> set ps \<and> ParseSha1 s = Some (SHA_hash (l_sha L) d) \<and>
    (\<forall>p. reader_path r = Some p \<longrightarrow> found_at (file_data w p) 0 d \<and> sz = of_nat (length d))"
proof -
  obtain d c r1 w1 where lp: "load_pairs (l_sha L) (sorted_pairs ps) r [] (SHA_init (l_sha L)) w = Some (d, Inr (True, c, r1), w1)"
      and fc': "fc_data fc' = Some d" "fc_size fc' = Some (int (length d))" "fc_sha1 fc' = SHA_final (l_sha L) c"
    using assms(1) by (auto simp: load_from_def Let_def split: if_splits bind_splits sum.splits)
  note m = load_pairs_match [OF lp assms(2) hashed_init [OF assms(2)] assms(3), unfolded set_sorted_pairs]
  then have "SHA_final (l_sha L) c = SHA_hash (l_sha L) d" using hashed_final [OF assms(2)] by blast
  then show ?thesis using m fc' by fastforce
qed

text \<open>The parts of the name of a partition: its kind, its name and the pairs of sizes and digests.\<close>

definition partition_name :: "string \<Rightarrow> string \<Rightarrow> string \<Rightarrow> (u32 \<times> string option) list \<Rightarrow> bool" where
  "partition_name fn magic part ps \<longleftrightarrow> (\<exists>rest rest'. strtok '':'' fn = Some (magic, rest) \<and> strtok '':'' rest = Some (part, rest') \<and>
     parse_pairs ((length (filter (\<lambda>c. c = CHR '':'') fn) - 1) div 2) rest' = Some (Inr ps))"

lemma LoadPartition_match:
  assumes "LoadPartitionContents L fn fc a = Some (0, fc', a')" "sha_streams (l_sha L)"
  shows "\<exists>magic part ps d sz s. partition_name fn magic part ps \<and> fc_data fc' = Some d \<and> fc_size fc' = Some (int (length d)) \<and>
    fc_sha1 fc' = SHA_hash (l_sha L) d \<and> (sz, Some s) \<in> set ps \<and> ParseSha1 s = Some (SHA_hash (l_sha L) d) \<and>
    (magic = ''EMMC'' \<longrightarrow> found_at (file_data (ap_os a) part) 0 d \<and> sz = of_nat (length d))"
  using assms(1)
proof (cases rule: LoadPartition_cases)
  case (loaded magic rest part rest' ps rdr a1 w)
  have n: "partition_name fn magic part ps" using loaded(1,3,4) by (auto simp: partition_name_def)
  note o = open_reader_path [OF loaded(5)]
  have fd: "file_data (ap_os a1) p = file_data (ap_os a) p" for p
    by (rule same_files_data [OF same_files_open_reader [OF loaded(5)]])
  obtain d sz s where "fc_data fc' = Some d" "fc_size fc' = Some (int (length d))" "fc_sha1 fc' = SHA_hash (l_sha L) d"
      "(sz, Some s) \<in> set ps" "ParseSha1 s = Some (SHA_hash (l_sha L) d)"
      "\<forall>p. reader_path rdr = Some p \<longrightarrow> found_at (file_data (ap_os a) p) 0 d \<and> sz = of_nat (length d)"
    using load_from_match [OF loaded(6) assms(2)] o unfolding fd by blast
  moreover have "magic = ''EMMC'' \<longrightarrow> reader_path rdr = Some part" using o by auto
  ultimately show ?thesis using n by blast
qed simp_all

section \<open>Writing a partition\<close>

lemma write_emmc_spec:
  assumes "write_emmc data part w = Some (0, w')"
  shows "found_at (file_data w' part) 0 data"
proof -
  obtain f w1 where o: "sys_open False False 0 part w = (Some f, w1)"
    using assms by (auto simp: write_emmc_def split: prod.splits option.splits)
  then have "f_path f = part" by (auto simp: sys_open_def split: prod.splits if_splits option.splits)
  moreover obtain f1 w2 where "emmc_attempts 2 data 0 f w1 = Some (Inr (True, f1, w2))" "same_files w2 w'"
    using assms o same_files_read(3)
    by (auto simp: write_emmc_def simp del: emmc_attempts.simps split: bind_splits sum.splits if_splits prod.splits)
  ultimately show ?thesis using emmc_attempts_spec same_files_data by metis
qed

lemma decode_memory:
  assumes "decode j src patch w = Some (Some (0, po, c), w')" "is_partition (j_target_filename j)"
    "sha_streams (l_sha (j_libs j))" "unat (j_target_size j) < 2147483648"
  shows "\<exists>m. po = ToMemory m \<and> hashed (l_sha (j_libs j)) c (memory_written m)"
proof -
  let ?m = "\<lparr>msi_buffer = replicate (unat (j_target_size j)) 0, msi_size = sint (j_target_size j), msi_pos = 0\<rparr>"
  obtain m where m: "run_patch (j_libs j) src patch (j_bonus j) MemorySink ?m = Some (Some (0, m, c))" "po = ToMemory m"
    using assms(1,2) by (auto simp: decode_def Let_def split: if_splits bind_splits)
  have "memory_ok ?m" using sint_small [OF assms(4)] by (simp add: memory_ok_def)
  from run_patch_memory [OF m(1) assms(3) this] m(2) show ?thesis by simp
qed

lemma GenerateTarget_emmc:
  assumes gt: "GenerateTarget j a = Some (0, a')" and part: "is_partition (j_target_filename j)"
    "strtok '':'' (j_target_filename j) = Some (''EMMC'', rest)" "strtok '':'' rest = Some (dev, rest')" "dev \<noteq> CACHE_TEMP_SOURCE"
    and sha: "sha_streams (l_sha (j_libs j))" and sz: "unat (j_target_size j) < 2147483648"
  shows "\<exists>d. found_at (file_data (ap_os a') dev) 0 d \<and> SHA_hash (l_sha (j_libs j)) d = j_target_sha1 j"
  using gt
proof (cases rule: GenerateTarget_loop)
  case (wrote fs po c src made w r' a1)
  obtain patch w1 where "decode j src patch w1 = Some (Some (0, po, c), w)"
    using generate_loop_inv [OF wrote(1), of "\<lambda>_. True" "\<lambda>_. True"] by blast
  from decode_memory [OF this part(1) sha sz] obtain m where m: "po = ToMemory m"
      "hashed (l_sha (j_libs j)) c (memory_written m)" by blast
  have r': "r' = 0" using wrote(4) by (simp split: if_splits)
  then obtain w2 where w2: "write_emmc (memory_written m) dev w = Some (0, w2)" "ap_os a1 = w2"
    using wrote(3) m(1) part(2,3) by (auto simp: WriteToPartition_def memory_written_def split: bind_splits)
  have "found_at (file_data w2 dev) 0 (memory_written m)" by (rule write_emmc_spec [OF w2(1)])
  moreover have "file_data (ap_os a') dev = file_data w2 dev"
    using wrote(5) r' w2(2) part(4) touches_unlink [OF surjective_pairing, of CACHE_TEMP_SOURCE w2]
    by (auto simp: touches_def file_data_def)
  ultimately show ?thesis using hashed_final [OF sha m(2)] wrote(2) by auto
qed simp

abbreviation demo_text :: string where
  "demo_text \<equiv> ''0506000000000000000000000000000000000000''"

abbreviation demo_partition :: string where
  "demo_partition \<equiv> ''EMMC:/dev/x:2:0506000000000000000000000000000000000000''"

lemma demo_text: "ParseSha1 demo_text = Some (5 # 6 # replicate 18 0)"
  by code_simp

lemma demo_name:
  "strtok '':'' demo_partition = Some (''EMMC'', ''/dev/x:2:0506000000000000000000000000000000000000'')"
  "strtok '':'' ''/dev/x:2:0506000000000000000000000000000000000000'' = Some (''/dev/x'', ''2:0506000000000000000000000000000000000000'')"
  "length (filter (\<lambda>c. c = CHR '':'') demo_partition) = 3"
  "parse_pairs 1 ''2:0506000000000000000000000000000000000000'' = Some (Inr [(2, Some demo_text)])"
  by code_simp+

definition demo_files :: "byte list \<Rightarrow> (string \<rightharpoonup> inode)" where
  "demo_files d = [''/a'' \<mapsto> demo_inode [1], ''/dev/x'' \<mapsto> demo_inode d]"

lemma demo_partition_name: "partition_name demo_partition ''EMMC'' ''/dev/x'' [(2, Some demo_text)]"
  using demo_name by (simp add: partition_name_def)

lemma demo_load_from:
  "\<exists>n'. load_from demo_tools fc [(2, Some demo_text)] (EmmcReader \<lparr>f_path = ''/dev/x'', f_pos = 0\<rparr>) (demo_sys (demo_files [x, y, z]) n) =
    Some (if x = 5 \<and> y = 6
      then (0, \<lparr>fc_sha1 = 5 # 6 # replicate 18 0, fc_data = Some [5, 6], fc_size = Some 2, fc_st = Some (420, 0, 0)\<rparr>,
        demo_sys (demo_files [x, y, z]) n')
      else (-1, fc\<lparr>fc_data := None, fc_size := Some 2\<rparr>, demo_sys (demo_files [x, y, z]) n'))"
  by (simp add: demo_files_def LONG_MAX_def load_from_def sorted_pairs_def qsort_def read_partition_def sys_fread_def
      sys_read_def file_data_def demo_text demo_tools_def demo_libs_def close_reader_def sys_status_def) blast

lemma demo_load_partition:
  "\<exists>n'. LoadPartitionContents demo_tools demo_partition fc (demo_ap (demo_files [x, y, z]) n) =
    Some (if x = 5 \<and> y = 6
      then (0, \<lparr>fc_sha1 = 5 # 6 # replicate 18 0, fc_data = Some [5, 6], fc_size = Some 2, fc_st = Some (420, 0, 0)\<rparr>,
        demo_ap (demo_files [x, y, z]) n')
      else (-1, fc\<lparr>fc_data := None, fc_size := Some 2\<rparr>, demo_ap (demo_files [x, y, z]) n'))"
proof -
  have "open_reader ''EMMC'' ''/dev/x'' (demo_ap (demo_files [x, y, z]) n) =
      Some (Some (EmmcReader \<lparr>f_path = ''/dev/x'', f_pos = 0\<rparr>), demo_ap (demo_files [x, y, z]) (Suc n))"
    by (simp add: open_reader_def sys_open_def demo_files_def LONG_MAX_def)
  moreover obtain n' where "load_from demo_tools fc [(2, Some demo_text)] (EmmcReader \<lparr>f_path = ''/dev/x'', f_pos = 0\<rparr>)
      (demo_sys (demo_files [x, y, z]) (Suc n)) = Some (if x = 5 \<and> y = 6
        then (0, \<lparr>fc_sha1 = 5 # 6 # replicate 18 0, fc_data = Some [5, 6], fc_size = Some 2, fc_st = Some (420, 0, 0)\<rparr>,
          demo_sys (demo_files [x, y, z]) n')
        else (-1, fc\<lparr>fc_data := None, fc_size := Some 2\<rparr>, demo_sys (demo_files [x, y, z]) n'))"
    using demo_load_from by blast
  moreover have "(3 - 1) div 2 = (1 :: nat)" by simp
  note unf = LoadPartitionContents_def Let_def demo_name this bind.bind_lunit prod.case sum.case
  ultimately show ?thesis unfolding unf by (auto split: if_splits)
qed

definition demo_saved :: "byte list \<Rightarrow> (string \<rightharpoonup> inode)" where
  "demo_saved d = (demo_files d)(CACHE_TEMP_SOURCE \<mapsto> demo_inode [1])"

lemma demo_saved_at:
  "demo_saved d ''/dev/x'' = Some (demo_inode d)" "demo_saved d ''/proc/sys/vm/drop_caches'' = None"
  "(demo_saved d)(''/dev/x'' \<mapsto> (demo_inode d)\<lparr>i_data := d'\<rparr>) = demo_saved d'"
  "(demo_saved d)(CACHE_TEMP_SOURCE := None) = demo_files d"
  by (auto simp: demo_saved_def demo_files_def demo_inode_def CACHE_TEMP_SOURCE_def fun_eq_iff)

lemma demo_emmc_write:
  "emmc_write \<lparr>f_path = ''/dev/x'', f_pos = 0\<rparr> [5, 6] (demo_sys (demo_saved [0, 0, 0]) n) =
    Some (Inr (\<lparr>f_path = ''/dev/x'', f_pos = 2\<rparr>, demo_sys (demo_saved [5, 6, 0]) (Suc n)))"
proof -
  have "sys_write \<lparr>f_path = ''/dev/x'', f_pos = 0\<rparr> (take 1048576 [5, 6]) (demo_sys (demo_saved [0, 0, 0]) n) =
      (2, \<lparr>f_path = ''/dev/x'', f_pos = 2\<rparr>, demo_sys (demo_saved [5, 6, 0]) (Suc n))"
    by (simp add: sys_write_def demo_saved_at LONG_MAX_def overwrite_def)
  then show ?thesis by (simp add: emmc_write.simps [of _ "[5, 6]"] emmc_write.simps [of _ "[]"])
qed

lemma demo_emmc_verify:
  "\<exists>n'. emmc_verify [5, 6] 0 \<lparr>f_path = ''/dev/x'', f_pos = 0\<rparr> (demo_sys (demo_saved [5, 6, 0]) n) =
    Some (Inr (None, \<lparr>f_path = ''/dev/x'', f_pos = 2\<rparr>, demo_sys (demo_saved [5, 6, 0]) n'))"
proof -
  have "sys_read \<lparr>f_path = ''/dev/x'', f_pos = 0\<rparr> 2 (demo_sys (demo_saved [5, 6, 0]) n) =
      ((2, [5, 6]), \<lparr>f_path = ''/dev/x'', f_pos = 2\<rparr>, demo_sys (demo_saved [5, 6, 0]) (Suc n))"
    by (simp add: sys_read_def demo_saved_at LONG_MAX_def file_data_def)
  then have "emmc_read \<lparr>f_path = ''/dev/x'', f_pos = 0\<rparr> 2 [] (demo_sys (demo_saved [5, 6, 0]) n) =
      Some (Inr ([5, 6], \<lparr>f_path = ''/dev/x'', f_pos = 2\<rparr>, demo_sys (demo_saved [5, 6, 0]) (Suc n)))"
    by (simp add: emmc_read.simps [of _ _ "[]"] emmc_read.simps [of _ _ "[5, 6]"])
  then show ?thesis 
    by (intro exI [of _ "Suc n"]) (simp add: emmc_verify.simps [of _ 0] emmc_verify.simps [of _ 4096] flip: numeral_2_eq_2)
qed

lemma demo_write_emmc:
  "\<exists>n'. write_emmc [5, 6] ''/dev/x'' (demo_sys (demo_saved [0, 0, 0]) n) = Some (0, demo_sys (demo_saved [5, 6, 0]) n')"
proof -
  have o: "sys_open False False 0 ''/dev/x'' (demo_sys (demo_saved d) m) = (Some \<lparr>f_path = ''/dev/x'', f_pos = 0\<rparr>, demo_sys (demo_saved d) (Suc m))"
    "drop_caches (demo_sys (demo_saved d) m) = demo_sys (demo_saved d) (Suc m)"
    "sys_status (demo_sys (demo_saved d) m) = (0, demo_sys (demo_saved d) (Suc m))" for d m
    by (simp_all add: sys_open_def drop_caches_def sys_status_def demo_saved_at LONG_MAX_def)
  obtain n' where v: "emmc_verify [5, 6] 0 \<lparr>f_path = ''/dev/x'', f_pos = 0\<rparr> (demo_sys (demo_saved [5, 6, 0]) (Suc (Suc (Suc (Suc n))))) =
      Some (Inr (None, \<lparr>f_path = ''/dev/x'', f_pos = 2\<rparr>, demo_sys (demo_saved [5, 6, 0]) n'))"
    using demo_emmc_verify by blast
  show ?thesis by (simp add: write_emmc_def numeral_2_eq_2 o sys_lseek_def demo_emmc_write v) blast
qed

definition demo_partition_job :: "(byte list, byte list, byte list) libs job" where
  "demo_partition_job = (demo_job (5 # 6 # replicate 18 0))\<lparr>j_target_filename := demo_partition\<rparr>"

lemma demo_is_partition: "is_partition demo_partition"
  by (simp add: is_partition_def starts_with_def)

lemma demo_back_up:
  "\<exists>n'. back_up (j_source demo_partition_job) (demo_sys (demo_files d) n) = Some (True, demo_sys (demo_saved d) n')"
  by (simp add: demo_partition_job_def demo_job_def back_up_def demo_cache_room SaveFileContents_def sys_open_def demo_sink
      sys_status_def sys_chmod_def sys_chown_def sys_modify_def demo_files_def demo_saved_def CACHE_TEMP_SOURCE_def slice_def
      overwrite_def Let_def LONG_MAX_def demo_inode_def) blast

lemma demo_decode_memory:
  "decode demo_partition_job (j_source demo_partition_job) demo_patch w =
    Some (Some (0, ToMemory \<lparr>msi_buffer = [5, 6], msi_size = 2, msi_pos = 2\<rparr>, [5, 6]), w)"
proof -
  have "MemorySink \<lparr>msi_buffer = replicate 2 0, msi_size = 2, msi_pos = 0\<rparr> [5, 6] =
      Some (\<lparr>msi_buffer = [5, 6], msi_size = 2, msi_pos = 2\<rparr>, 2)"
    by (simp add: MemorySink_def blit_def)
  then show ?thesis
    by (simp add: decode_def demo_partition_job_def demo_job_def run_patch_def demo_patch_fields demo_patch_size demo_is_partition
        demo_decoder demo_tools_def demo_libs_def bytes_of_def)
qed

lemma demo_generate_partition:
  "\<exists>n'. GenerateTarget demo_partition_job (demo_ap (demo_files [0, 0, 0]) n) = Some (0, demo_ap (demo_files [5, 6, 0]) n')"
proof -
  obtain n1 where b: "back_up (j_source demo_partition_job) (demo_sys (demo_files [0, 0, 0]) n) =
      Some (True, demo_sys (demo_saved [0, 0, 0]) n1)"
    using demo_back_up by blast
  obtain n2 where wr: "write_emmc [5, 6] ''/dev/x'' (demo_sys (demo_saved [0, 0, 0]) n1) = Some (0, demo_sys (demo_saved [5, 6, 0]) n2)"
    using demo_write_emmc by blast
  have j: "j_source_patch demo_partition_job = Some demo_patch" "j_target_filename demo_partition_job = demo_partition"
    "j_target_sha1 demo_partition_job = 5 # 6 # replicate 18 0" "j_libs demo_partition_job = demo_tools"
    by (simp_all add: demo_partition_job_def demo_job_def)
  have g: "generate_loop 2 demo_partition_job True False fs (demo_sys (demo_files [0, 0, 0]) n) =
      Some (Inr (ToMemory \<lparr>msi_buffer = [5, 6], msi_size = 2, msi_pos = 2\<rparr>, [5, 6], j_source demo_partition_job, True),
        demo_sys (demo_saved [0, 0, 0]) n1)" for fs
    by (simp add: numeral_2_eq_2 make_room_def b j demo_is_partition demo_decode_memory)
  have h: "SHA_final (l_sha demo_tools) [5, 6] = 5 # 6 # replicate 18 0" by (simp add: demo_tools_def)
  have u: "snd (sys_unlink CACHE_TEMP_SOURCE (demo_sys (demo_saved [5, 6, 0]) n2)) = demo_sys (demo_files [5, 6, 0]) (Suc n2)"
    by (simp add: sys_unlink_def demo_saved_at LONG_MAX_def) (simp add: demo_saved_def)
  have "WriteToPartition [5, 6] demo_partition (demo_ap (demo_saved [0, 0, 0]) n1) = Some (0, demo_ap (demo_saved [5, 6, 0]) n2)"
    unfolding WriteToPartition_def demo_name bind.bind_lunit prod.case option.case using wr by simp
  then show ?thesis
    by (intro exI [of _ "Suc n2"]) (simp add: GenerateTarget_def target_fs_def j g h u del: generate_loop.simps)
qed

lemma demo_partition_run:
  "\<exists>n'. applypatch demo_tools ''/a'' demo_partition demo_text 2 [sha_text (1 # replicate 19 0)] [demo_patch] None
      (demo_ap (demo_files [0, 0, 0]) 0) = Some (0, demo_ap (demo_files [5, 6, 0]) n')"
proof -
  obtain n1 where l: "LoadFileContents demo_tools demo_partition fresh_contents True (demo_ap (demo_files [0, 0, 0]) 0) =
      Some (-1, fresh_contents\<lparr>fc_data := None, fc_size := Some 2\<rparr>, demo_ap (demo_files [0, 0, 0]) n1)"
    using demo_load_partition [of "fresh_contents\<lparr>fc_data := None\<rparr>" 0 0 0 0]
    by (auto simp: LoadFileContents_def demo_is_partition)
  have s: "LoadFileContents demo_tools ''/a'' (fresh_contents\<lparr>fc_data := None, fc_size := Some 2\<rparr>) True (demo_ap (demo_files [0, 0, 0]) n1) =
      Some (0, j_source demo_partition_job, demo_ap (demo_files [0, 0, 0]) (Suc (Suc (Suc (Suc n1)))))"
    by (simp add: LoadFileContents_def demo_tools_def demo_libs_def sys_stat_def sys_open_def sys_fread_def sys_read_def
        sys_status_def demo_plain retouch_mask_data_def LONG_MAX_def fresh_contents_def file_data_def demo_inode_def
        demo_files_def demo_partition_job_def demo_job_def)
  obtain n2 where "GenerateTarget demo_partition_job (demo_ap (demo_files [0, 0, 0]) (Suc (Suc (Suc (Suc n1))))) =
      Some (0, demo_ap (demo_files [5, 6, 0]) n2)"
    using demo_generate_partition by blast
  then show ?thesis
    using l s
    by (intro exI [of _ n2]) (simp add: applypatch_def demo_text matching_patch_def FindMatchingPatch_def rd_def demo_partition_job_def demo_job_def
        ParseSha1_text fresh_contents_def Let_def)
qed

section \<open>Properties\<close>

text \<open>
  C22. A partition is only reported as loaded with contents that match one of the digests in its
  name: the data has the recorded size and digest, the digest is one of those given, nothing
  was changed, and for a block device the data is what the device starts with and has exactly
  the size that is paired with the digest.
\<close>

theorem load_partition_verified:
  assumes "LoadPartitionContents L fn fc a = Some (0, fc', a')" "sha_streams (l_sha L)"
  shows "same_files (ap_os a) (ap_os a') \<and> (\<exists>magic part ps d sz s. partition_name fn magic part ps \<and>
    fc_data fc' = Some d \<and> fc_size fc' = Some (int (length d)) \<and> fc_sha1 fc' = SHA_hash (l_sha L) d \<and>
    (sz, Some s) \<in> set ps \<and> ParseSha1 s = Some (SHA_hash (l_sha L) d) \<and>
    (magic = ''EMMC'' \<longrightarrow> found_at (file_data (ap_os a) part) 0 d \<and> sz = of_nat (length d)))"
  using same_files_LoadPartition [OF assms(1)] LoadPartition_match [OF assms] by blast

theorem load_partition_verified_witness:
  "\<exists>fc' a' d sz s. LoadPartitionContents demo_tools demo_partition fresh_contents (demo_ap (demo_files [5, 6, 7]) 0) = Some (0, fc', a') \<and>
    fc_data fc' = Some d \<and> ParseSha1 s = Some (SHA_hash (l_sha demo_tools) d) \<and> fc_sha1 fc' = SHA_hash (l_sha demo_tools) d"
proof -
  obtain fc' a' where run: "LoadPartitionContents demo_tools demo_partition fresh_contents (demo_ap (demo_files [5, 6, 7]) 0) = Some (0, fc', a')"
    using demo_load_partition [of fresh_contents 5 6 7 0] by auto
  from load_partition_verified [OF run] run show ?thesis
    by (auto simp: demo_tools_def sha_streams_def)
qed

text \<open>
  C23. When \<open>applypatch\<close> for a partition on a block device returns 0, the device starts with data
  of the digest that was asked for. The data was read back from the device after it was written,
  so this holds for every behaviour of the system calls.
\<close>

theorem applypatch_emmc_correct:
  assumes "applypatch L src tgt str sz ss ps bonus a = Some (0, a')" "ParseSha1 str = Some d" "tgt \<noteq> ''-''"
    and "is_partition tgt" "strtok '':'' tgt = Some (''EMMC'', rest)" "strtok '':'' rest = Some (dev, rest')"
    and "dev \<noteq> CACHE_TEMP_SOURCE" "sha_streams (l_sha L)" "unat sz < 2147483648"
  shows "\<exists>data. found_at (file_data (ap_os a') dev) 0 data \<and> SHA_hash (l_sha L) data = d"
proof -
  have "tgt = (if tgt = ''-'' then src else tgt)" using assms(3) by simp
  with assms(1) show ?thesis
  proof (cases rule: applypatch_cases)
    case (already d' fc)
    then have lp: "LoadPartitionContents L tgt (fresh_contents\<lparr>fc_data := None\<rparr>) a = Some (0, fc, a')"
      using assms(4) by (simp add: LoadFileContents_def)
    have "file_data (ap_os a') dev = file_data (ap_os a) dev"
      by (rule same_files_data [OF same_files_LoadPartition [OF lp]])
    then show ?thesis using LoadPartition_match [OF lp assms(8)] already assms(2,5,6) by (auto simp: partition_name_def)
  next
    case (generate d' a1 j)
    then show ?thesis using GenerateTarget_emmc [OF generate(3)] assms(2,4-9) by simp
  qed simp
qed

theorem applypatch_emmc_correct_witness:
  "\<exists>a' data. applypatch demo_tools ''/a'' demo_partition demo_text 2 [sha_text (1 # replicate 19 0)] [demo_patch] None
      (demo_ap (demo_files [0, 0, 0]) 0) = Some (0, a') \<and>
    found_at (file_data (ap_os a') ''/dev/x'') 0 data \<and> SHA_hash (l_sha demo_tools) data = 5 # 6 # replicate 18 0"
proof -
  obtain n where run: "applypatch demo_tools ''/a'' demo_partition demo_text 2 [sha_text (1 # replicate 19 0)] [demo_patch] None
      (demo_ap (demo_files [0, 0, 0]) 0) = Some (0, demo_ap (demo_files [5, 6, 0]) n)"
    using demo_partition_run by blast
  have "\<exists>data. found_at (file_data (ap_os (demo_ap (demo_files [5, 6, 0]) n)) ''/dev/x'') 0 data \<and>
      SHA_hash (l_sha demo_tools) data = 5 # 6 # replicate 18 0"
    by (rule applypatch_emmc_correct [OF run demo_text _ demo_is_partition demo_name(1,2)])
       (simp_all add: CACHE_TEMP_SOURCE_def demo_tools_def sha_streams_def)
  with run show ?thesis by blast
qed

lemma back_up_nothing:
  assumes "back_up src w = Some (ok, w')" "fc_data src = None" "fc_size src = Some n" "n \<noteq> 0"
  shows "\<not> ok \<and> (files w' CACHE_TEMP_SOURCE = files w CACHE_TEMP_SOURCE \<or> file_data w' CACHE_TEMP_SOURCE = [])"
proof -
  obtain r w1 where r: "MakeFreeSpaceOnCache (word_of_int n) w = (r, w1)" by (metis prod.exhaust)
  have w1: "files w1 CACHE_TEMP_SOURCE = files w CACHE_TEMP_SOURCE"
    using MakeFreeSpaceOnCache_deletes [OF r] by (auto simp: deletes_only_def expendable_def)
  show ?thesis
  proof (cases "r < 0")
    case True
    then show ?thesis using assms r w1 by (auto simp: back_up_def)
  next
    case False
    obtain f w2 where o: "sys_open True True 384 CACHE_TEMP_SOURCE w1 = (f, w2)" by (metis prod.exhaust)
    obtain v w3 where v: "sys_status w2 = (v, w3)" by (metis prod.exhaust)
    have "ok = False \<and> w' = (if f = None then w2 else w3)"
      using assms r False o v by (auto simp: back_up_def SaveFileContents_def split: option.splits)
    then show ?thesis
      using open_trunc [OF o] w1 same_files_read(3) [OF v] by (auto simp: same_files_def file_data_def split: option.splits)
  qed
qed

text \<open>
  C24. A patch of a partition can not be resumed from the copy in the cache: when the partition
  itself could not be loaded (but some of it was read), \<open>GenerateTarget\<close> tries to save the
  contents it does not have, returns 1, and may have truncated the copy that it was to start from.
\<close>

theorem resume_partition_fails:
  assumes "GenerateTarget j a = Some (r, a')" "is_partition (j_target_filename j)"
    and "fc_data (j_source j) = None" "fc_size (j_source j) = Some n" "n \<noteq> 0"
  shows "r = 1 \<and> (files (ap_os a') CACHE_TEMP_SOURCE = files (ap_os a) CACHE_TEMP_SOURCE \<or>
    file_data (ap_os a') CACHE_TEMP_SOURCE = [])"
proof -
  obtain fs v w where fs: "target_fs (j_target_filename j) = Some fs" and v: "generate_loop 2 j True False fs (ap_os a) = Some (v, w)"
    using assms(1) by (auto simp: GenerateTarget_def simp del: generate_loop.simps split: bind_splits)
  obtain ok w1 where b: "back_up (j_source j) (ap_os a) = Some (ok, w1)"
    using v assms(2) by (auto simp: numeral_2_eq_2 make_room_def split: bind_splits)
  note none_saved = back_up_nothing [OF b assms(3-5)]
  then have "v = Inl 1" "w = w1" using v b assms(2) by (auto simp: numeral_2_eq_2 make_room_def)
  then have "r = 1" "ap_os a' = w1" using assms(1) fs v by (auto simp: GenerateTarget_def simp del: generate_loop.simps)
  then show ?thesis using none_saved by simp
qed

theorem resume_partition_fails_witness:
  "\<exists>a'. GenerateTarget (demo_partition_job\<lparr>j_source := fresh_contents\<lparr>fc_size := Some 1\<rparr>, j_source_patch := None,
      j_copy := j_source demo_partition_job, j_copy_patch := Some demo_patch\<rparr>) (demo_ap (demo_saved [0, 0, 0]) 0) = Some (1, a') \<and>
    file_data (ap_os a') CACHE_TEMP_SOURCE = []"
proof -
  let ?j = "demo_partition_job\<lparr>j_source := fresh_contents\<lparr>fc_size := Some 1\<rparr>, j_source_patch := None,
      j_copy := j_source demo_partition_job, j_copy_patch := Some demo_patch\<rparr>"
  let ?fs = "(demo_saved [0, 0, 0])(CACHE_TEMP_SOURCE \<mapsto> demo_inode [])"
  have "\<exists>n. back_up (fresh_contents\<lparr>fc_size := Some 1\<rparr>) (demo_sys (demo_saved [0, 0, 0]) 0) = Some (False, demo_sys ?fs n)"
    by (simp add: back_up_def demo_cache_room SaveFileContents_def fresh_contents_def sys_open_def LONG_MAX_def sys_status_def
        demo_saved_def demo_inode_def) blast
  then obtain n where b: "back_up (fresh_contents\<lparr>fc_size := Some 1\<rparr>) (demo_sys (demo_saved [0, 0, 0]) 0) = Some (False, demo_sys ?fs n)"
    by blast
  have run: "GenerateTarget ?j (demo_ap (demo_saved [0, 0, 0]) 0) = Some (1, demo_ap ?fs n)"
    by (simp add: GenerateTarget_def target_fs_def numeral_2_eq_2 make_room_def demo_partition_job_def demo_job_def demo_is_partition b)
  from resume_partition_fails [OF run, of 1]
  have "files (demo_sys ?fs n) CACHE_TEMP_SOURCE = files (demo_sys (demo_saved [0, 0, 0]) 0) CACHE_TEMP_SOURCE \<or>
      file_data (demo_sys ?fs n) CACHE_TEMP_SOURCE = []"
    by (simp add: demo_partition_job_def demo_is_partition fresh_contents_def)
  then have "file_data (demo_sys ?fs n) CACHE_TEMP_SOURCE = []" by (simp add: demo_saved_def)
  with run show ?thesis by simp
qed

end
