(* ===== verification/Verifier.thy ===== *)
theory Verifier
  imports Applypatch_Correct
begin

text \<open>
  Verification of update packages, \<open>verifier.c\<close>: the whole-file signature in the comment of a zip
  file and the file with the public keys.

  SHA-1, SHA-256 and \<open>RSA_verify\<close> of \<open>libmincrypt\<close> are parameters, as is the success of \<open>malloc\<close>.
  \<open>fread\<close> delivers what the system delivers; a file that shows fewer bytes than asked for is
  an error. The progress display is left out.
\<close>

section \<open>Model\<close>

record RSAPublicKey =
  k_len :: int
  n0inv :: u32
  k_n :: "u32 list"
  k_rr :: "u32 list"
  exponent :: "int option"

text \<open>\<open>None\<close> is a field that was never set.\<close>

record Certificate =
  hash_len :: "int option"
  public_key :: RSAPublicKey

record ('c, 'e) crypto =
  c_sha1 :: "'c shalib"
  c_sha256 :: "'e shalib"
  RSA_verify :: "RSAPublicKey \<Rightarrow> byte list \<Rightarrow> byte list \<Rightarrow> int \<Rightarrow> bool"
  c_malloc :: "int \<Rightarrow> bool"

abbreviation (input) VERIFY_SUCCESS :: int where "VERIFY_SUCCESS \<equiv> 0"
abbreviation (input) VERIFY_FAILURE :: int where "VERIFY_FAILURE \<equiv> 1"
abbreviation (input) FOOTER_SIZE :: nat where "FOOTER_SIZE \<equiv> 6"
abbreviation (input) EOCD_HEADER_SIZE :: nat where "EOCD_HEADER_SIZE \<equiv> 22"
abbreviation (input) RSANUMBYTES :: nat where "RSANUMBYTES \<equiv> 256"
abbreviation (input) SHA1_SIZE :: int where "SHA1_SIZE \<equiv> 20"
abbreviation (input) SHA256_SIZE :: int where "SHA256_SIZE \<equiv> 32"

text \<open>\<open>fseek(f, -n, SEEK_END)\<close>; a position before the start of the file is an error.\<close>

definition sys_fseek_end :: "fd \<Rightarrow> nat \<Rightarrow> os \<Rightarrow> fd option \<times> os" where
  "sys_fseek_end f n w =
     (let (v, w) = ask w; len = length (file_data w (f_path f))
      in (if v < 0 \<or> len < n then None else Some (f\<lparr>f_pos := len - n\<rparr>), w))"

definition le2 :: "byte list \<Rightarrow> nat \<Rightarrow> nat" where
  "le2 bs i = unat (bs ! i) + unat (bs ! (i + 1)) * 256"

text \<open>The footer: the size of the comment and the start of the signature.\<close>

definition read_footer :: "fd \<Rightarrow> os \<Rightarrow> (nat \<times> nat \<times> fd) option \<times> os" where
  "read_footer f w =
     (case sys_fseek_end f FOOTER_SIZE w of
        (None, w) \<Rightarrow> (None, w)
      | (Some f, w) \<Rightarrow>
          let (footer, f, w) = sys_fread f FOOTER_SIZE w
          in (if length footer \<noteq> FOOTER_SIZE then None
              else if footer ! 2 \<noteq> 0xff \<or> footer ! 3 \<noteq> 0xff then None
              else let comment_size = le2 footer 4; signature_start = le2 footer 0
                   in if int signature_start - int FOOTER_SIZE < int RSANUMBYTES then None
                      else Some (comment_size, signature_start, f), w))"

definition eocd_marker :: "byte list \<Rightarrow> nat \<Rightarrow> bool" where
  "eocd_marker eocd i \<longleftrightarrow>
     eocd ! i = 0x50 \<and> eocd ! (i + 1) = 0x4b \<and> eocd ! (i + 2) = 0x05 \<and> eocd ! (i + 3) = 0x06"

text \<open>The end of central directory record and the length of the signed part.\<close>

definition read_eocd :: "('c, 'e) crypto \<Rightarrow> fd \<Rightarrow> nat \<Rightarrow> os \<Rightarrow> (nat \<times> byte list \<times> fd) option \<times> os" where
  "read_eocd cr f comment_size w =
     (let eocd_size = comment_size + EOCD_HEADER_SIZE
      in case sys_fseek_end f eocd_size w of
           (None, w) \<Rightarrow> (None, w)
         | (Some f, w) \<Rightarrow>
             let signed_len = f_pos f + EOCD_HEADER_SIZE - 2
             in if \<not> c_malloc cr (int eocd_size) then (None, w)
                else let (eocd, f, w) = sys_fread f eocd_size w
                     in (if length eocd \<noteq> eocd_size then None
                         else if \<not> eocd_marker eocd 0 then None
                         else if list_ex (eocd_marker eocd) [4..<eocd_size - 3] then None
                         else Some (signed_len, eocd, f), w))"

text \<open>The hash contexts after the signed part; \<open>None\<close> is a read error.\<close>

function hash_signed ::
  "('c, 'e) crypto \<Rightarrow> bool \<Rightarrow> bool \<Rightarrow> nat \<Rightarrow> nat \<Rightarrow> fd \<Rightarrow> 'c \<Rightarrow> 'e \<Rightarrow> os \<Rightarrow> ('c \<times> 'e) option \<times> os" where
  "hash_signed cr need_sha1 need_sha256 signed_len so_far f sha1_ctx sha256_ctx w =
     (if so_far < signed_len
      then let sz = min 4096 (signed_len - so_far);
               (buffer, f, w) = sys_fread f sz w
           in if length buffer \<noteq> sz then (None, w)
              else hash_signed cr need_sha1 need_sha256 signed_len (so_far + sz) f
                     (if need_sha1 then SHA_update (c_sha1 cr) sha1_ctx buffer else sha1_ctx)
                     (if need_sha256 then SHA_update (c_sha256 cr) sha256_ctx buffer else sha256_ctx) w
      else (Some (sha1_ctx, sha256_ctx), w))"
  by pat_completeness auto
termination
  by (relation "measure (\<lambda>(cr, n1, n256, signed_len, so_far, f, c1, c2, w). signed_len - so_far)") auto

declare hash_signed.simps [simp del]

fun hash_lens :: "Certificate list \<Rightarrow> int list option" where
  "hash_lens [] = Some []"
| "hash_lens (k # ks) = do { h \<leftarrow> hash_len k; hs \<leftarrow> hash_lens ks; Some (h # hs) }"

text \<open>
  Trying the keys. The signature is the \<open>RSANUMBYTES\<close> bytes before the footer of the record; if the
  record is shorter, the pointer is outside of the allocated memory.
\<close>

fun try_keys :: "('c, 'e) crypto \<Rightarrow> byte list \<Rightarrow> byte list \<Rightarrow> byte list \<Rightarrow> Certificate list \<Rightarrow> int option" where
  "try_keys cr eocd sha1 sha256 [] = Some VERIFY_FAILURE"
| "try_keys cr eocd sha1 sha256 (k # ks) = do {
     len \<leftarrow> hash_len k;
     if len \<noteq> SHA1_SIZE \<and> len \<noteq> SHA256_SIZE then try_keys cr eocd sha1 sha256 ks
     else if length eocd < FOOTER_SIZE + RSANUMBYTES then None
     else do {
       let hash = (if len = SHA1_SIZE then sha1 else sha256);
       signature \<leftarrow> slice eocd (length eocd - FOOTER_SIZE - RSANUMBYTES) RSANUMBYTES;
       if RSA_verify cr (public_key k) signature hash len then Some VERIFY_SUCCESS
       else try_keys cr eocd sha1 sha256 ks
     }
   }"

definition verify_file :: "('c, 'e) crypto \<Rightarrow> string \<Rightarrow> Certificate list \<Rightarrow> os \<Rightarrow> (int \<times> os) option" where
  "verify_file cr path pKeys w =
     (case sys_open False False 0 path w of
        (None, w) \<Rightarrow> Some (VERIFY_FAILURE, w)
      | (Some f, w) \<Rightarrow>
          (case read_footer f w of
             (None, w) \<Rightarrow> Some (VERIFY_FAILURE, snd (sys_status w))
           | (Some (comment_size, signature_start, f), w) \<Rightarrow>
               (case read_eocd cr f comment_size w of
                  (None, w) \<Rightarrow> Some (VERIFY_FAILURE, snd (sys_status w))
                | (Some (signed_len, eocd, f), w) \<Rightarrow> do {
                    lens \<leftarrow> hash_lens pKeys;
                    if \<not> c_malloc cr 4096 then Some (VERIFY_FAILURE, snd (sys_status w))
                    else case hash_signed cr (SHA1_SIZE \<in> set lens) (SHA256_SIZE \<in> set lens) signed_len 0
                           (sys_lseek f 0) (SHA_init (c_sha1 cr)) (SHA_init (c_sha256 cr)) w of
                        (None, w) \<Rightarrow> Some (VERIFY_FAILURE, snd (sys_status w))
                      | (Some (c1, c2), w) \<Rightarrow> do {
                          r \<leftarrow> try_keys cr eocd (SHA_final (c_sha1 cr) c1) (SHA_final (c_sha256 cr) c2) pKeys;
                          Some (r, snd (sys_status w))
                        }
                  })))"

subsection \<open>The key file\<close>

text \<open>
  The directives of \<open>fscanf\<close> that are used, on the text that is still to be read: white space, a
  literal character, and numbers, which are stored modulo \<open>2^32\<close> after conversion to \<open>intmax_t\<close>
  or \<open>uintmax_t\<close>.
\<close>

abbreviation skip_ws :: "string \<Rightarrow> string" where "skip_ws \<equiv> dropWhile is_space"

definition match_char :: "char \<Rightarrow> string \<Rightarrow> string option" where
  "match_char c s = (case s of x # xs \<Rightarrow> if x = c then Some xs else None | [] \<Rightarrow> None)"

definition xdigit :: "char \<Rightarrow> nat" where
  "xdigit c =
     (if is_digit c then of_char c - 48
      else if CHR ''a'' \<le> c \<and> c \<le> CHR ''f'' then of_char c - 87
      else if CHR ''A'' \<le> c \<and> c \<le> CHR ''F'' then of_char c - 55
      else 99)"

definition digits_value :: "nat \<Rightarrow> string \<Rightarrow> nat" where
  "digits_value b ds = foldl (\<lambda>a c. a * b + xdigit c) 0 ds"

definition scan_magnitude :: "nat \<Rightarrow> string \<Rightarrow> (nat \<times> string) option" where
  "scan_magnitude b s =
     (let ds = takeWhile (\<lambda>c. xdigit c < b) s
      in if ds = [] then None else Some (digits_value b ds, drop (length ds) s))"

definition scan_sign :: "string \<Rightarrow> bool \<times> string" where
  "scan_sign s = (case s of c # cs \<Rightarrow> if c = CHR ''-'' then (True, cs) else if c = CHR ''+'' then (False, cs) else (False, s)
     | [] \<Rightarrow> (False, s))"

definition prefix_0x :: "string \<Rightarrow> bool" where
  "prefix_0x s \<longleftrightarrow> length s \<ge> 3 \<and> s ! 0 = CHR ''0'' \<and> (s ! 1 = CHR ''x'' \<or> s ! 1 = CHR ''X'') \<and> xdigit (s ! 2) < 16"

definition clamp_imax :: "int \<Rightarrow> int" where
  "clamp_imax v = max (- (2 ^ 63)) (min (2 ^ 63 - 1) v)"

definition signed_value :: "bool \<Rightarrow> nat \<Rightarrow> int" where
  "signed_value neg n = clamp_imax (if neg then - int n else int n)"

text \<open>\<open>%d\<close>, \<open>%i\<close>, \<open>%u\<close> and \<open>%x\<close>.\<close>

definition scan_d :: "string \<Rightarrow> (int \<times> string) option" where
  "scan_d s = do {
     let (neg, s) = scan_sign (skip_ws s);
     (n, s) \<leftarrow> scan_magnitude 10 s;
     Some (sint (word_of_int (signed_value neg n) :: u32), s)
   }"

definition scan_i :: "string \<Rightarrow> (int \<times> string) option" where
  "scan_i s = do {
     let (neg, s) = scan_sign (skip_ws s);
     (n, s) \<leftarrow> (if prefix_0x s then scan_magnitude 16 (drop 2 s)
               else scan_magnitude (if s \<noteq> [] \<and> hd s = CHR ''0'' then 8 else 10) s);
     Some (sint (word_of_int (signed_value neg n) :: u32), s)
   }"

definition scan_unsigned :: "nat \<Rightarrow> string \<Rightarrow> (u32 \<times> string) option" where
  "scan_unsigned b s = do {
     let (neg, s) = scan_sign (skip_ws s);
     (n, s) \<leftarrow> scan_magnitude b (if b = 16 \<and> prefix_0x s then drop 2 s else s);
     let m = int (min n (2 ^ 64 - 1));
     Some (word_of_int (if neg then - m else m), s)
   }"

text \<open>\<open>" , %u"\<close>, \<open>n\<close> times.\<close>

fun scan_words :: "nat \<Rightarrow> string \<Rightarrow> (u32 list \<times> string) option" where
  "scan_words 0 s = Some ([], s)"
| "scan_words (Suc n) s = do {
     s \<leftarrow> match_char (CHR '','') (skip_ws s);
     (v, s) \<leftarrow> scan_unsigned 10 s;
     (vs, s) \<leftarrow> scan_words n s;
     Some (v # vs, s)
   }"

text \<open>The exponent and the length of the hash, by the version.\<close>

definition scan_version :: "string \<Rightarrow> (int option \<times> int option \<times> string) option" where
  "scan_version s =
     (case skip_ws s of
        [] \<Rightarrow> None
      | c # s \<Rightarrow>
          if c = CHR ''{'' then Some (Some 3, Some SHA1_SIZE, s)
          else if c = CHR ''v''
          then do {
            (version, s) \<leftarrow> scan_d s;
            let s = skip_ws s;
            let s = (case match_char (CHR ''{'') s of None \<Rightarrow> s | Some s \<Rightarrow> s);
            (if version = 2 then Some (Some 65537, Some SHA1_SIZE, s)
             else if version = 3 then Some (Some 3, Some SHA256_SIZE, s)
             else if version = 4 then Some (Some 65537, Some SHA256_SIZE, s)
             else None)
          }
          else Some (None, None, s))"

text \<open>\<open>" } } "\<close>, whose result is ignored: the text after what did match.\<close>

definition scan_end :: "string \<Rightarrow> string" where
  "scan_end s =
     (case match_char (CHR ''}'') (skip_ws s) of
        None \<Rightarrow> skip_ws s
      | Some s \<Rightarrow> (case match_char (CHR ''}'') (skip_ws s) of None \<Rightarrow> skip_ws s | Some s \<Rightarrow> skip_ws s))"

definition load_key :: "string \<Rightarrow> (Certificate \<times> string) option" where
  "load_key s = do {
     (e, h, s) \<leftarrow> scan_version s;
     (len, s) \<leftarrow> scan_i s;
     s \<leftarrow> match_char (CHR '','') (skip_ws s);
     s \<leftarrow> match_char (CHR ''0'') (skip_ws s);
     s \<leftarrow> match_char (CHR ''x'') s;
     (inv, s) \<leftarrow> scan_unsigned 16 s;
     s \<leftarrow> match_char (CHR '','') (skip_ws s);
     s \<leftarrow> match_char (CHR ''{'') (skip_ws s);
     (n0, s) \<leftarrow> scan_unsigned 10 s;
     if len \<noteq> 64 then None
     else do {
       (ns, s) \<leftarrow> scan_words 63 s;
       s \<leftarrow> match_char (CHR ''}'') (skip_ws s);
       s \<leftarrow> match_char (CHR '','') (skip_ws s);
       s \<leftarrow> match_char (CHR ''{'') (skip_ws s);
       (r0, s) \<leftarrow> scan_unsigned 10 s;
       (rs, s) \<leftarrow> scan_words 63 s;
       Some (\<lparr>hash_len = h, public_key = \<lparr>k_len = len, n0inv = inv, k_n = n0 # ns, k_rr = r0 # rs, exponent = e\<rparr>\<rparr>,
             scan_end s)
     }
   }"

text \<open>What a scanner leaves is no longer than what it was given.\<close>

lemma skip_ws_shorter: "length (skip_ws s) \<le> length s"
  by (rule length_dropWhile_le)

lemma match_char_shorter: "match_char c s = Some s' \<Longrightarrow> length s' < length s"
  by (auto simp: match_char_def split: list.splits if_splits)

lemma match_char_ws_shorter: "match_char c (skip_ws s) = Some s' \<Longrightarrow> length s' < length s"
  using match_char_shorter [of c "skip_ws s" s'] skip_ws_shorter [of s] by simp

lemma scan_sign_shorter: "scan_sign (skip_ws s) = (neg, t) \<Longrightarrow> length t \<le> length s"
  using skip_ws_shorter [of s] by (auto simp: scan_sign_def split: list.splits if_splits intro: skip_ws_shorter)

lemma scan_magnitude_shorter: "scan_magnitude b s = Some (n, s') \<Longrightarrow> length s' \<le> length s"
  by (auto simp: scan_magnitude_def Let_def split: if_splits)

lemma scan_unsigned_shorter: "scan_unsigned b s = Some (v, s') \<Longrightarrow> length s' \<le> length s"
  by (auto simp: scan_unsigned_def Let_def split: bind_splits prod.splits if_splits
      dest!: scan_magnitude_shorter scan_sign_shorter)

lemma scan_d_shorter: "scan_d s = Some (v, s') \<Longrightarrow> length s' \<le> length s"
  by (auto simp: scan_d_def split: bind_splits prod.splits dest!: scan_magnitude_shorter scan_sign_shorter)

lemma scan_i_shorter: "scan_i s = Some (v, s') \<Longrightarrow> length s' \<le> length s"
  by (auto simp: scan_i_def split: bind_splits prod.splits if_splits dest!: scan_magnitude_shorter scan_sign_shorter)

lemma scan_words_shorter: "scan_words n s = Some (vs, s') \<Longrightarrow> length s' \<le> length s"
proof (induction n arbitrary: s vs)
  case (Suc n)
  then show ?case
    by (auto split: bind_splits dest!: match_char_ws_shorter scan_unsigned_shorter Suc.IH)
qed simp

lemma scan_version_shorter: "scan_version s = Some (e, h, s') \<Longrightarrow> length s' \<le> length s"
proof -
  assume v: "scan_version s = Some (e, h, s')"
  obtain c t where t: "skip_ws s = c # t" using v by (auto simp: scan_version_def split: list.splits)
  have ts: "length t < length s" using skip_ws_shorter [of s] t by simp
  show ?thesis
  proof (cases "c = CHR ''v''")
    case True
    then obtain n u where d: "scan_d t = Some (n, u)" using v t by (auto simp: scan_version_def split: bind_splits)
    have "s' = (case match_char (CHR ''{'') (skip_ws u) of None \<Rightarrow> skip_ws u | Some s \<Rightarrow> s)"
      using v t True d by (auto simp: scan_version_def Let_def split: if_splits)
    then have "length s' \<le> length u" using match_char_ws_shorter [of "CHR ''{''" u] skip_ws_shorter [of u]
      by (auto split: option.splits)
    then show ?thesis using scan_d_shorter [OF d] ts by simp
  qed (use v t ts in \<open>auto simp: scan_version_def split: if_splits\<close>)
qed

lemma scan_end_shorter: "length (scan_end s) \<le> length s"
proof (cases "match_char (CHR ''}'') (skip_ws s)")
  case (Some t)
  note t = match_char_ws_shorter [OF Some]
  show ?thesis
  proof (cases "match_char (CHR ''}'') (skip_ws t)")
    case None
    then show ?thesis using Some t skip_ws_shorter [of t] by (simp add: scan_end_def)
  next
    case (Some u)
    then show ?thesis
      using \<open>match_char (CHR ''}'') (skip_ws s) = Some t\<close> t match_char_ws_shorter [OF Some] skip_ws_shorter [of u]
      by (simp add: scan_end_def)
  qed
qed (use skip_ws_shorter [of s] in \<open>simp add: scan_end_def\<close>)

lemma match_x_shorter: "match_char (CHR ''x'') s = Some s' \<Longrightarrow> length s' < length s"
  by (rule match_char_shorter)

lemma load_key_shorter: "load_key s = Some (c, s') \<Longrightarrow> length s' \<le> length s"
  by (auto simp: load_key_def split: bind_splits if_splits
      dest!: scan_version_shorter scan_i_shorter match_char_ws_shorter match_x_shorter scan_unsigned_shorter scan_words_shorter
      intro!: le_trans [OF scan_end_shorter])

function load_loop :: "(int \<Rightarrow> bool) \<Rightarrow> nat \<Rightarrow> string \<Rightarrow> Certificate list option option" where
  "load_loop malloc n s =
     (if \<not> malloc (8 * int n) \<or> \<not> malloc 524 then None
      else case load_key s of
          None \<Rightarrow> Some None
        | Some (cert, s) \<Rightarrow>
            (case s of
               [] \<Rightarrow> Some (Some [cert])
             | c # s \<Rightarrow>
                 if c = CHR '','' then do { r \<leftarrow> load_loop malloc (n + 1) s; Some (map_option (Cons cert) r) }
                 else Some None))"
  by pat_completeness auto
termination
  by (relation "measure (\<lambda>(malloc, n, s). length s)") (auto dest: load_key_shorter)

declare load_loop.simps [simp del]

text \<open>The stream delivers the contents of the file up to its end or to an error.\<close>

definition load_keys :: "(int \<Rightarrow> bool) \<Rightarrow> string \<Rightarrow> os \<Rightarrow> (Certificate list option \<times> os) option" where
  "load_keys malloc filename w =
     (case sys_open False False 0 filename w of
        (None, w) \<Rightarrow> Some (None, w)
      | (Some f, w) \<Rightarrow>
          let (v, w) = ask w;
              text = map (\<lambda>b. char_of (unat b)) (take (nat v) (file_data w (f_path f)))
          in do {
            r \<leftarrow> load_loop malloc 1 text;
            Some (r, snd (sys_status w))
          })"

section \<open>The signed part\<close>

lemma sys_fread_data:
  assumes "sys_fread f n w = (bs, f', w')"
  shows "same_files w w' \<and> f_path f' = f_path f \<and> (length bs = n \<longrightarrow>
    bs = take n (drop (f_pos f) (file_data w (f_path f))) \<and> f_pos f' = f_pos f + n)"
  using assms
  by (auto simp: sys_fread_def sys_read_def same_files_def ask_def file_data_def Let_def min_def split: if_splits)

lemma sys_fseek_end_spec:
  assumes "sys_fseek_end f n w = (r, w')"
  shows "same_files w w'" "r = Some f' \<Longrightarrow> n \<le> length (file_data w (f_path f)) \<and>
    f' = f\<lparr>f_pos := length (file_data w (f_path f)) - n\<rparr>"
  using assms by (auto simp: sys_fseek_end_def same_files_def ask_def file_data_def Let_def split: if_splits)

lemma same_data: "same_files w w' \<Longrightarrow> file_data w' p = file_data w p"
  by (simp add: same_files_def file_data_def)

text \<open>The footer of a file, the size of the comment that it records and the signed length.\<close>

definition footer_of :: "byte list \<Rightarrow> byte list" where
  "footer_of d = drop (length d - 6) d"

definition comment_of :: "byte list \<Rightarrow> nat" where
  "comment_of d = le2 (footer_of d) 4"

definition eocd_of :: "byte list \<Rightarrow> byte list" where
  "eocd_of d = drop (length d - (comment_of d + 22)) d"

definition signed_part :: "byte list \<Rightarrow> byte list" where
  "signed_part d = take (length d - (comment_of d + 2)) d"

definition well_footed :: "byte list \<Rightarrow> bool" where
  "well_footed d \<longleftrightarrow> 6 \<le> length d \<and> footer_of d ! 2 = 0xff \<and> footer_of d ! 3 = 0xff \<and> 262 \<le> le2 (footer_of d) 0 \<and>
     comment_of d + 22 \<le> length d \<and> eocd_marker (eocd_of d) 0 \<and>
     \<not> list_ex (eocd_marker (eocd_of d)) [4..<comment_of d + 22 - 3]"

lemma read_footer_spec:
  assumes "read_footer f w = (r, w')"
  shows "same_files w w' \<and> (\<forall>cs ss f'. r = Some (cs, ss, f') \<longrightarrow> (let d = file_data w (f_path f) in
    f_path f' = f_path f \<and> 6 \<le> length d \<and> footer_of d ! 2 = 0xff \<and> footer_of d ! 3 = 0xff \<and>
    262 \<le> le2 (footer_of d) 0 \<and> cs = comment_of d))"
proof -
  obtain s w1 where s: "sys_fseek_end f 6 w = (s, w1)" by (metis prod.exhaust)
  show ?thesis
  proof (cases s)
    case None
    then show ?thesis using assms s sys_fseek_end_spec(1) [OF s] by (auto simp: read_footer_def)
  next
    case (Some f1)
    obtain bs f2 w2 where b: "sys_fread f1 6 w1 = (bs, f2, w2)" by (metis prod.exhaust)
    note k = sys_fseek_end_spec [OF s] sys_fread_data [OF b]
    have sf: "same_files w w2" using same_files_trans k(1,3) by blast
    have d: "file_data w1 (f_path f) = file_data w (f_path f)" by (rule same_data [OF k(1)])
    show ?thesis
      using assms s Some b k(2) [OF Some] k(3) sf d
      by (auto simp: read_footer_def Let_def footer_of_def comment_of_def split: if_splits)
  qed
qed

lemma read_eocd_spec:
  assumes "read_eocd cr f cs w = (r, w')"
  shows "same_files w w' \<and> (\<forall>sl e f'. r = Some (sl, e, f') \<longrightarrow> (let d = file_data w (f_path f) in
    f_path f' = f_path f \<and> cs + 22 \<le> length d \<and> e = drop (length d - (cs + 22)) d \<and> sl = length d - (cs + 2) \<and>
    eocd_marker e 0 \<and> \<not> list_ex (eocd_marker e) [4..<cs + 22 - 3]))"
proof -
  obtain s w1 where s: "sys_fseek_end f (cs + 22) w = (s, w1)" by (metis prod.exhaust)
  show ?thesis
  proof (cases s)
    case None
    then show ?thesis using assms s sys_fseek_end_spec(1) [OF s] by (auto simp: read_eocd_def)
  next
    case (Some f1)
    obtain bs f2 w2 where b: "sys_fread f1 (cs + 22) w1 = (bs, f2, w2)" by (metis prod.exhaust)
    note k = sys_fseek_end_spec [OF s] sys_fread_data [OF b]
    have sf: "same_files w w2" using same_files_trans k(1,3) by blast
    have d: "file_data w1 (f_path f) = file_data w (f_path f)" by (rule same_data [OF k(1)])
    show ?thesis
      using assms s Some b k(1) k(2) [OF Some] k(3) sf d
      by (auto simp: read_eocd_def Let_def split: if_splits)
  qed
qed

lemma hash_signed_spec:
  assumes "hash_signed cr n1 n2 sl so f c1 c2 w = (r, w')"
    and "sha_streams (c_sha1 cr)" "sha_streams (c_sha256 cr)"
    and "f_pos f = so" "so \<le> sl" "sl \<le> length (file_data w (f_path f))"
    and "n1 \<longrightarrow> hashed (c_sha1 cr) c1 (take so (file_data w (f_path f)))"
    and "n2 \<longrightarrow> hashed (c_sha256 cr) c2 (take so (file_data w (f_path f)))"
  shows "same_files w w' \<and> (\<forall>d1 d2. r = Some (d1, d2) \<longrightarrow>
    (n1 \<longrightarrow> hashed (c_sha1 cr) d1 (take sl (file_data w (f_path f)))) \<and>
    (n2 \<longrightarrow> hashed (c_sha256 cr) d2 (take sl (file_data w (f_path f)))))"
  using assms
proof (induction cr n1 n2 sl so f c1 c2 w arbitrary: r w' rule: hash_signed.induct)
  case (1 cr n1 n2 sl so f c1 c2 w)
  show ?case
  proof (cases "so < sl")
    case True
    define sz where "sz = min 4096 (sl - so)"
    obtain bs f1 w1 where b: "sys_fread f sz w = (bs, f1, w1)" by (metis prod.exhaust)
    note k = sys_fread_data [OF b]
    have d: "file_data w1 (f_path f1) = file_data w (f_path f)" using same_data k by simp
    show ?thesis
    proof (cases "length bs = sz")
      case full: True
      let ?c1 = "if n1 then SHA_update (c_sha1 cr) c1 bs else c1" and ?c2 = "if n2 then SHA_update (c_sha256 cr) c2 bs else c2"
      have rec: "hash_signed cr n1 n2 sl (so + sz) f1 ?c1 ?c2 w1 = (r, w')"
        using "1.prems"(1) True b full by (subst (asm) hash_signed.simps) (simp add: sz_def Let_def)
      have bs: "take (so + sz) (file_data w (f_path f)) = take so (file_data w (f_path f)) @ bs"
        using k full "1.prems"(4) by (simp add: take_add)
      have h: "n1 \<longrightarrow> hashed (c_sha1 cr) ?c1 (take (so + sz) (file_data w (f_path f)))"
        "n2 \<longrightarrow> hashed (c_sha256 cr) ?c2 (take (so + sz) (file_data w (f_path f)))"
        using "1.prems"(2,3,7,8) by (simp_all add: bs hashed_update)
      have "same_files w1 w' \<and> (\<forall>d1 d2. r = Some (d1, d2) \<longrightarrow>
          (n1 \<longrightarrow> hashed (c_sha1 cr) d1 (take sl (file_data w1 (f_path f1)))) \<and>
          (n2 \<longrightarrow> hashed (c_sha256 cr) d2 (take sl (file_data w1 (f_path f1)))))"
        by (rule "1.IH" [OF True sz_def b [symmetric] refl refl _ rec "1.prems"(2,3)])
           (unfold d, use full k "1.prems"(4,6) h True in \<open>simp_all add: sz_def\<close>)
      then show ?thesis using same_files_trans k d by metis
    next
      case False
      then show ?thesis using "1.prems"(1) True b k by (subst (asm) hash_signed.simps) (simp add: sz_def Let_def)
    qed
  next
    case False
    then show ?thesis using "1.prems" by (subst (asm) hash_signed.simps) auto
  qed
qed

lemma try_keys_success:
  assumes "try_keys cr e h1 h2 ks = Some 0"
  shows "\<exists>k \<in> set ks. \<exists>len. hash_len k = Some len \<and> (len = 20 \<or> len = 32) \<and> 262 \<le> length e \<and>
    RSA_verify cr (public_key k) (take 256 (drop (length e - 262) e)) (if len = 20 then h1 else h2) len"
  using assms
proof (induction ks)
  case (Cons k ks)
  obtain len where len: "hash_len k = Some len" using Cons.prems by (auto split: bind_splits)
  show ?case
  proof (cases "try_keys cr e h1 h2 ks = Some 0")
    case True
    then show ?thesis using Cons.IH by auto
  next
    case False
    then have "(len = 20 \<or> len = 32) \<and> 262 \<le> length e \<and>
        RSA_verify cr (public_key k) (take 256 (drop (length e - 262) e)) (if len = 20 then h1 else h2) len"
      using Cons.prems len by (auto simp: slice_def Let_def split: if_splits)
    then show ?thesis using len by auto
  qed
qed simp

lemma hash_lens_Some: "hash_lens ks = Some ls \<Longrightarrow> k \<in> set ks \<Longrightarrow> hash_len k = Some l \<Longrightarrow> l \<in> set ls"
  by (induction ks arbitrary: ls) (auto split: bind_splits)

text \<open>The signature of the package over its signed part.\<close>

definition signed_with :: "('c, 'e) crypto \<Rightarrow> Certificate \<Rightarrow> byte list \<Rightarrow> bool" where
  "signed_with cr k d \<longleftrightarrow> (\<exists>len. hash_len k = Some len \<and> (len = 20 \<or> len = 32) \<and>
     RSA_verify cr (public_key k) (take 256 (drop (length d - 262) d))
       (if len = 20 then SHA_hash (c_sha1 cr) (signed_part d) else SHA_hash (c_sha256 cr) (signed_part d)) len)"

lemma verify_success_parts:
  assumes "verify_file cr path keys w = Some (VERIFY_SUCCESS, w')" "sha_streams (c_sha1 cr)" "sha_streams (c_sha256 cr)"
  obtains c1 c2 lens where "same_files w w'" "well_footed (file_data w path)" "hash_lens keys = Some lens"
    "20 \<in> set lens \<longrightarrow> hashed (c_sha1 cr) c1 (signed_part (file_data w path))"
    "32 \<in> set lens \<longrightarrow> hashed (c_sha256 cr) c2 (signed_part (file_data w path))"
    "try_keys cr (eocd_of (file_data w path)) (SHA_final (c_sha1 cr) c1) (SHA_final (c_sha256 cr) c2) keys = Some 0"
proof -
  let ?d = "file_data w path"
  obtain f w1 where o: "sys_open False False 0 path w = (Some f, w1)"
    using assms(1) by (auto simp: verify_file_def split: prod.splits option.splits)
  obtain r w2 where r: "read_footer f w1 = (r, w2)" by (metis prod.exhaust)
  obtain cs ss f2 where r': "r = Some (cs, ss, f2)"
    using assms(1) o r by (cases r) (auto simp: verify_file_def)
  obtain q w3 where q: "read_eocd cr f2 cs w2 = (q, w3)" by (metis prod.exhaust)
  obtain sl e f3 where q': "q = Some (sl, e, f3)"
    using assms(1) o r r' q by (cases q) (auto simp: verify_file_def)
  obtain lens where lens: "hash_lens keys = Some lens"
    using assms(1) o r r' q q' by (auto simp: verify_file_def split: bind_splits)
  obtain h w4 where h: "hash_signed cr (20 \<in> set lens) (32 \<in> set lens) sl 0 (sys_lseek f3 0)
      (SHA_init (c_sha1 cr)) (SHA_init (c_sha256 cr)) w3 = (h, w4)"
    by (metis prod.exhaust)
  obtain c1 c2 where h': "h = Some (c1, c2)"
    and t: "try_keys cr e (SHA_final (c_sha1 cr) c1) (SHA_final (c_sha256 cr) c2) keys = Some 0" and w': "w' = snd (sys_status w4)"
    using assms(1) o r r' q q' lens h by (cases h) (auto simp: verify_file_def split: bind_splits if_splits)
  have p: "f_path f = path" using o by (auto simp: sys_open_def split: prod.splits if_splits option.splits)
  have s1: "same_files w w1" by (rule same_files_open [OF o])
  note F = read_footer_spec [OF r] and E = read_eocd_spec [OF q]
  have s2: "same_files w w2" and s3: "same_files w w3" using same_files_trans s1 F E by blast+
  have fd: "file_data w1 path = ?d" "file_data w2 path = ?d" "file_data w3 path = ?d"
    using same_data s1 s2 s3 by blast+
  have foot: "f_path f2 = path" "6 \<le> length ?d" "footer_of ?d ! 2 = 0xff" "footer_of ?d ! 3 = 0xff" "262 \<le> le2 (footer_of ?d) 0"
    "cs = comment_of ?d"
    using F r' p fd by (auto simp: Let_def)
  have eocd: "f_path f3 = path" "cs + 22 \<le> length ?d" "e = eocd_of ?d" "sl = length ?d - (cs + 2)"
    "eocd_marker e 0" "\<not> list_ex (eocd_marker e) [4..<cs + 22 - 3]"
    using E q' foot fd by (auto simp: Let_def eocd_of_def)
  have H: "same_files w3 w4 \<and> (20 \<in> set lens \<longrightarrow> hashed (c_sha1 cr) c1 (take sl ?d)) \<and> (32 \<in> set lens \<longrightarrow> hashed (c_sha256 cr) c2 (take sl ?d))"
    using hash_signed_spec [OF h assms(2,3)] h' eocd fd hashed_init [OF assms(2)] hashed_init [OF assms(3)]
    by (simp add: sys_lseek_def)
  have "same_files w4 w'" unfolding w' using same_files_read(3) [OF surjective_pairing] .
  then have "same_files w w'" using same_files_trans s3 H by blast
  moreover have "well_footed ?d" using foot eocd by (simp add: well_footed_def)
  moreover have "take sl ?d = signed_part ?d" using eocd(4) foot(6) by (simp add: signed_part_def)
  ultimately show ?thesis using that [of lens c1 c2] lens H t eocd(3) by simp
qed

text \<open>
  C25. A package is only accepted with a good signature: when \<open>verify_file\<close> returns success, nothing
  was changed, and the file ends in a well-formed footer whose comment size leads to an end of
  central directory record that is the last one in the file, and one of the given keys accepts the
  signature block before the footer for the hash of everything up to the length of the comment.
\<close>

theorem verify_file_sound:
  assumes "verify_file cr path keys w = Some (VERIFY_SUCCESS, w')" "sha_streams (c_sha1 cr)" "sha_streams (c_sha256 cr)"
  shows "same_files w w' \<and> well_footed (file_data w path) \<and> 262 \<le> comment_of (file_data w path) + 22 \<and>
    (\<exists>k \<in> set keys. signed_with cr k (file_data w path))"
proof -
  let ?d = "file_data w path"
  obtain c1 c2 lens where s: "same_files w w'" "well_footed ?d" "hash_lens keys = Some lens"
      and h: "20 \<in> set lens \<longrightarrow> hashed (c_sha1 cr) c1 (signed_part ?d)" "32 \<in> set lens \<longrightarrow> hashed (c_sha256 cr) c2 (signed_part ?d)"
      and t: "try_keys cr (eocd_of ?d) (SHA_final (c_sha1 cr) c1) (SHA_final (c_sha256 cr) c2) keys = Some 0"
    by (rule verify_success_parts [OF assms])
  obtain k len where k: "k \<in> set keys" "hash_len k = Some len" "len = 20 \<or> len = 32" "262 \<le> length (eocd_of ?d)"
      "RSA_verify cr (public_key k) (take 256 (drop (length (eocd_of ?d) - 262) (eocd_of ?d)))
        (if len = 20 then SHA_final (c_sha1 cr) c1 else SHA_final (c_sha256 cr) c2) len"
    using try_keys_success [OF t] by blast
  have e: "length (eocd_of ?d) = comment_of ?d + 22" using s(2) by (simp add: eocd_of_def well_footed_def)
  moreover have "drop (length (eocd_of ?d) - 262) (eocd_of ?d) = drop (length ?d - 262) ?d"
    using e k(4) s(2) by (simp add: eocd_of_def well_footed_def)
  moreover have "(if len = 20 then SHA_final (c_sha1 cr) c1 else SHA_final (c_sha256 cr) c2) =
      (if len = 20 then SHA_hash (c_sha1 cr) (signed_part ?d) else SHA_hash (c_sha256 cr) (signed_part ?d))"
    using h k(3) hash_lens_Some [OF s(3) k(1,2)] hashed_final [OF assms(2)] hashed_final [OF assms(3)] by auto
  ultimately have "signed_with cr k ?d" using k(2,3,5) unfolding signed_with_def by (intro exI [of _ len]) simp
  then show ?thesis using s(1,2) k(1,4) e by auto
qed

section \<open>When every call succeeds\<close>

lemma calls_succeed_same: "same_files w w' \<Longrightarrow> calls_succeed w' = calls_succeed w"
  by (simp add: calls_succeed_def same_files_def)

lemma calls_succeed_ask:
  assumes "calls_succeed w" "ask w = (v, w')"
  shows "LONG_MAX \<le> v" "0 < v" "calls_succeed w'"
proof -
  show v: "LONG_MAX \<le> v" using assms by (auto simp: calls_succeed_def ask_def)
  then show "0 < v" by (simp add: LONG_MAX_def)
  show "calls_succeed w'" using assms by (auto simp: calls_succeed_def ask_def)
qed

lemma fread_succeeds:
  assumes "calls_succeed w" "f_pos f + n \<le> length (file_data w (f_path f))" "int n \<le> LONG_MAX" "sys_fread f n w = (bs, f', w')"
  shows "length bs = n"
proof -
  obtain v w1 where a: "ask w = (v, w1)" by (metis prod.exhaust)
  note k = calls_succeed_ask [OF assms(1) a]
  have "min (nat v) n = n" using k assms(3) by auto
  moreover have "file_data w1 (f_path f) = file_data w (f_path f)" using a by (auto simp: ask_def file_data_def)
  ultimately show ?thesis using assms(2,4) a k by (auto simp: sys_fread_def sys_read_def)
qed

lemma fseek_succeeds:
  assumes "calls_succeed w" "n \<le> length (file_data w (f_path f))" "sys_fseek_end f n w = (r, w')"
  shows "r = Some (f\<lparr>f_pos := length (file_data w (f_path f)) - n\<rparr>)"
proof -
  obtain v w1 where a: "ask w = (v, w1)" by (metis prod.exhaust)
  have "file_data w1 (f_path f) = file_data w (f_path f)" using a by (auto simp: ask_def file_data_def)
  then show ?thesis using assms(2,3) a calls_succeed_ask [OF assms(1) a] by (auto simp: sys_fseek_end_def)
qed

lemma open_succeeds:
  assumes "calls_succeed w" "files w path = Some ino"
  shows "\<exists>w'. sys_open False False m path w = (Some \<lparr>f_path = path, f_pos = 0\<rparr>, w')"
  using assms calls_succeed_ask [OF assms(1)] by (auto simp: sys_open_def ask_def calls_succeed_def split: if_splits)

lemma read_footer_succeeds:
  assumes "calls_succeed w" "well_footed (file_data w (f_path f))"
  shows "\<exists>ss f' w'. read_footer f w = (Some (comment_of (file_data w (f_path f)), ss, f'), w')"
proof -
  let ?d = "file_data w (f_path f)"
  have len: "6 \<le> length ?d" using assms(2) by (simp add: well_footed_def)
  obtain r w1 where s: "sys_fseek_end f 6 w = (r, w1)" by (metis prod.exhaust)
  let ?f = "f\<lparr>f_pos := length ?d - 6\<rparr>"
  have r: "r = Some ?f" by (rule fseek_succeeds [OF assms(1) len s])
  obtain bs f2 w2 where b: "sys_fread ?f 6 w1 = (bs, f2, w2)" by (metis prod.exhaust)
  have sf: "same_files w w1" by (rule sys_fseek_end_spec(1) [OF s])
  then have d: "file_data w1 (f_path f) = ?d" and c: "calls_succeed w1" using same_data calls_succeed_same assms(1) by auto
  have "length bs = 6" by (rule fread_succeeds [OF c _ _ b]) (use len d in \<open>simp_all add: LONG_MAX_def\<close>)
  then have "bs = footer_of ?d" "length bs = 6" using sys_fread_data [OF b] d len by (auto simp: footer_of_def)
  then show ?thesis using s r b assms(2) by (auto simp: read_footer_def well_footed_def comment_of_def Let_def)
qed

lemma le2_less: "le2 bs i < 65536"
proof -
  have "unat (b :: byte) < 256" for b using unsigned_less [of b] by simp
  then have "unat (bs ! i) < 256" "unat (bs ! (i + 1)) < 256" by blast+
  then show ?thesis by (simp add: le2_def)
qed

lemma read_eocd_succeeds:
  assumes "calls_succeed w" "well_footed (file_data w (f_path f))" "\<And>n. c_malloc cr n"
  shows "\<exists>f' w'. read_eocd cr f (comment_of (file_data w (f_path f))) w =
    (Some (length (file_data w (f_path f)) - (comment_of (file_data w (f_path f)) + 2), eocd_of (file_data w (f_path f)), f'), w')"
proof -
  let ?d = "file_data w (f_path f)"
  let ?cs = "comment_of ?d"
  have len: "?cs + 22 \<le> length ?d" using assms(2) by (simp add: well_footed_def)
  have "?cs < 65536" by (simp add: comment_of_def le2_less)
  obtain r w1 where s: "sys_fseek_end f (?cs + 22) w = (r, w1)" by (metis prod.exhaust)
  let ?f = "f\<lparr>f_pos := length ?d - (?cs + 22)\<rparr>"
  have r: "r = Some ?f" by (rule fseek_succeeds [OF assms(1) len s])
  obtain bs f2 w2 where b: "sys_fread ?f (?cs + 22) w1 = (bs, f2, w2)" by (metis prod.exhaust)
  have sf: "same_files w w1" by (rule sys_fseek_end_spec(1) [OF s])
  then have d: "file_data w1 (f_path f) = ?d" and c: "calls_succeed w1" using same_data calls_succeed_same assms(1) by auto
  have "length bs = ?cs + 22" by (rule fread_succeeds [OF c _ _ b]) (use len d \<open>?cs < 65536\<close> in \<open>simp_all add: LONG_MAX_def\<close>)
  then have "bs = eocd_of ?d" "length bs = ?cs + 22" using sys_fread_data [OF b] d len by (auto simp: eocd_of_def)
  then show ?thesis using s r b assms(2,3) len by (auto simp: read_eocd_def well_footed_def Let_def)
qed

lemma hash_signed_succeeds:
  assumes "calls_succeed w" "f_pos f = so" "sl \<le> length (file_data w (f_path f))"
  shows "\<exists>c1' c2' w'. hash_signed cr n1 n2 sl so f c1 c2 w = (Some (c1', c2'), w')"
  using assms
proof (induction cr n1 n2 sl so f c1 c2 w rule: hash_signed.induct)
  case (1 cr n1 n2 sl so f c1 c2 w)
  show ?case
  proof (cases "so < sl")
    case True
    define sz where "sz = min 4096 (sl - so)"
    obtain bs f1 w1 where b: "sys_fread f sz w = (bs, f1, w1)" by (metis prod.exhaust)
    note k = sys_fread_data [OF b]
    have full: "length bs = sz"
      by (rule fread_succeeds [OF "1.prems"(1) _ _ b]) (use "1.prems"(2,3) True in \<open>simp_all add: sz_def LONG_MAX_def\<close>)
    have d: "file_data w1 (f_path f1) = file_data w (f_path f)" using same_data k by simp
    have c: "calls_succeed w1" using calls_succeed_same k "1.prems"(1) by blast
    have "\<exists>c1' c2' w'. hash_signed cr n1 n2 sl (so + sz) f1 (if n1 then SHA_update (c_sha1 cr) c1 bs else c1)
        (if n2 then SHA_update (c_sha256 cr) c2 bs else c2) w1 = (Some (c1', c2'), w')"
      by (rule "1.IH" [OF True sz_def b [symmetric] refl refl _ c]) (use full k "1.prems"(2,3) d in auto)
    moreover have "hash_signed cr n1 n2 sl so f c1 c2 w = hash_signed cr n1 n2 sl (so + sz) f1
        (if n1 then SHA_update (c_sha1 cr) c1 bs else c1) (if n2 then SHA_update (c_sha256 cr) c2 bs else c2) w1"
      using True b full by (subst hash_signed.simps) (simp add: sz_def [symmetric] Let_def)
    ultimately show ?thesis by simp
  qed (subst hash_signed.simps, simp)
qed

lemma verify_reaches_keys:
  assumes "calls_succeed w" "files w path = Some ino" "well_footed (i_data ino)" "\<And>n. c_malloc cr n"
    and "hash_lens keys = Some lens" "sha_streams (c_sha1 cr)" "sha_streams (c_sha256 cr)"
  obtains c1 c2 w' where "verify_file cr path keys w = do {
      r \<leftarrow> try_keys cr (eocd_of (i_data ino)) (SHA_final (c_sha1 cr) c1) (SHA_final (c_sha256 cr) c2) keys; Some (r, w') }"
    "20 \<in> set lens \<longrightarrow> hashed (c_sha1 cr) c1 (signed_part (i_data ino))"
    "32 \<in> set lens \<longrightarrow> hashed (c_sha256 cr) c2 (signed_part (i_data ino))"
proof -
  let ?d = "i_data ino" and ?f = "\<lparr>f_path = path, f_pos = 0\<rparr>"
  have fd: "file_data w path = ?d" using assms(2) by (simp add: file_data_def)
  obtain w1 where o: "sys_open False False 0 path w = (Some ?f, w1)" using open_succeeds [OF assms(1,2)] by blast
  have s1: "same_files w w1" by (rule same_files_open [OF o])
  have d1: "file_data w1 (f_path ?f) = ?d" using same_data [OF s1] fd by simp
  obtain ss f2 w2 where r: "read_footer ?f w1 = (Some (comment_of ?d, ss, f2), w2)"
    using read_footer_succeeds [of w1 ?f] calls_succeed_same [OF s1] assms(1,3) d1 by auto
  have s2: "same_files w w2" using same_files_trans [OF s1] read_footer_spec [OF r] by blast
  have p2: "f_path f2 = path" using read_footer_spec [OF r] by (auto simp: Let_def)
  have d2: "file_data w2 (f_path f2) = ?d" using same_data [OF s2] fd p2 by simp
  obtain f3 w3 where e: "read_eocd cr f2 (comment_of ?d) w2 = (Some (length ?d - (comment_of ?d + 2), eocd_of ?d, f3), w3)"
    using read_eocd_succeeds [of w2 f2 cr] calls_succeed_same [OF s2] assms(1,3,4) d2 by auto
  have s3: "same_files w w3" using same_files_trans [OF s2] read_eocd_spec [OF e] by blast
  have p3: "f_path f3 = path" using read_eocd_spec [OF e] p2 by (auto simp: Let_def)
  let ?g = "sys_lseek f3 0"
  have d3: "file_data w3 (f_path ?g) = ?d" using same_data [OF s3] fd p3 by (simp add: sys_lseek_def)
  have c3: "calls_succeed w3" and g: "f_pos ?g = 0" "length ?d - (comment_of ?d + 2) \<le> length (file_data w3 (f_path ?g))"
    using calls_succeed_same [OF s3] assms(1) d3 by (simp_all add: sys_lseek_def)
  obtain c1 c2 w4 where h: "hash_signed cr (20 \<in> set lens) (32 \<in> set lens) (length ?d - (comment_of ?d + 2)) 0 ?g
      (SHA_init (c_sha1 cr)) (SHA_init (c_sha256 cr)) w3 = (Some (c1, c2), w4)"
    using hash_signed_succeeds [OF c3 g, of cr "20 \<in> set lens" "32 \<in> set lens" "SHA_init (c_sha1 cr)" "SHA_init (c_sha256 cr)"]
    by blast
  have "(20 \<in> set lens \<longrightarrow> hashed (c_sha1 cr) c1 (signed_part ?d)) \<and> (32 \<in> set lens \<longrightarrow> hashed (c_sha256 cr) c2 (signed_part ?d))"
    using hash_signed_spec [OF h assms(6,7)] d3 hashed_init [OF assms(6)] hashed_init [OF assms(7)]
    by (simp add: sys_lseek_def signed_part_def)
  then show ?thesis using that [of c1 c2 "snd (sys_status w4)"] o r e h assms(4,5) by (simp add: verify_file_def)
qed

lemma try_keys_accepts:
  assumes "hash_lens ks = Some lens" "k \<in> set ks" "262 \<le> length e" "hash_len k = Some len" "len = 20 \<or> len = 32"
    and "RSA_verify cr (public_key k) (take 256 (drop (length e - 262) e)) (if len = 20 then h1 else h2) len"
  shows "try_keys cr e h1 h2 ks = Some 0"
  using assms(1,2)
proof (induction ks arbitrary: lens)
  case (Cons k' ks)
  obtain l ls where l: "hash_len k' = Some l" "hash_lens ks = Some ls" using Cons.prems(1) by (auto split: bind_splits)
  show ?case
  proof (cases "k' = k")
    case True
    then show ?thesis using l assms(3-6) by (auto simp: slice_def Let_def)
  next
    case False
    then have "try_keys cr e h1 h2 ks = Some 0" using Cons.IH [OF l(2)] Cons.prems(2) by simp
    then show ?thesis using l assms(3) by (simp add: slice_def Let_def)
  qed
qed simp

text \<open>
  C26. A correctly signed package is accepted when no call fails: if the footer and the end of
  central directory record are well formed, the comment has room for the signature, and one of
  the keys accepts the signature, then \<open>verify_file\<close> returns success.
\<close>

theorem verify_file_complete:
  assumes "calls_succeed w" "files w path = Some ino" "well_footed (i_data ino)" "262 \<le> comment_of (i_data ino) + 22"
    and "\<And>n. c_malloc cr n" "hash_lens keys = Some lens" "sha_streams (c_sha1 cr)" "sha_streams (c_sha256 cr)"
    and "k \<in> set keys" "signed_with cr k (i_data ino)"
  shows "\<exists>w'. verify_file cr path keys w = Some (VERIFY_SUCCESS, w')"
proof -
  let ?d = "i_data ino"
  obtain c1 c2 w' where v: "verify_file cr path keys w = do {
      r \<leftarrow> try_keys cr (eocd_of ?d) (SHA_final (c_sha1 cr) c1) (SHA_final (c_sha256 cr) c2) keys; Some (r, w') }"
    and h: "20 \<in> set lens \<longrightarrow> hashed (c_sha1 cr) c1 (signed_part ?d)" "32 \<in> set lens \<longrightarrow> hashed (c_sha256 cr) c2 (signed_part ?d)"
    by (rule verify_reaches_keys [OF assms(1-3,5-8)])
  obtain len where len: "hash_len k = Some len" "len = 20 \<or> len = 32" "RSA_verify cr (public_key k) (take 256 (drop (length ?d - 262) ?d))
       (if len = 20 then SHA_hash (c_sha1 cr) (signed_part ?d) else SHA_hash (c_sha256 cr) (signed_part ?d)) len"
    using assms(10) by (auto simp: signed_with_def)
  have e: "length (eocd_of ?d) = comment_of ?d + 22" "drop (length (eocd_of ?d) - 262) (eocd_of ?d) = drop (length ?d - 262) ?d"
    using assms(3,4) by (simp_all add: eocd_of_def well_footed_def)
  have "(if len = 20 then SHA_final (c_sha1 cr) c1 else SHA_final (c_sha256 cr) c2) =
      (if len = 20 then SHA_hash (c_sha1 cr) (signed_part ?d) else SHA_hash (c_sha256 cr) (signed_part ?d))"
    using h len(2) hash_lens_Some [OF assms(6,9) len(1)] hashed_final [OF assms(7)] hashed_final [OF assms(8)] by auto
  then have "try_keys cr (eocd_of ?d) (SHA_final (c_sha1 cr) c1) (SHA_final (c_sha256 cr) c2) keys = Some 0"
    using len e assms(4) by (intro try_keys_accepts [OF assms(6,9) _ len(1,2)]) simp_all
  then show ?thesis using v by simp
qed

text \<open>
  C27. The size of the comment is not compared with the size of the signature: for a well formed
  file whose comment is too short to hold a signature, \<open>verify_file\<close> reads memory in front of the
  record that it allocated.
\<close>

theorem verify_short_comment_undefined:
  assumes "calls_succeed w" "files w path = Some ino" "well_footed (i_data ino)" "comment_of (i_data ino) + 22 < 262"
    and "\<And>n. c_malloc cr n" "hash_lens (k # ks) = Some lens" "sha_streams (c_sha1 cr)" "sha_streams (c_sha256 cr)"
    and "hash_len k = Some 20 \<or> hash_len k = Some 32"
  shows "verify_file cr path (k # ks) w = None"
proof -
  obtain c1 c2 w' where v: "verify_file cr path (k # ks) w = do {
      r \<leftarrow> try_keys cr (eocd_of (i_data ino)) (SHA_final (c_sha1 cr) c1) (SHA_final (c_sha256 cr) c2) (k # ks); Some (r, w') }"
    by (rule verify_reaches_keys [OF assms(1-3,5-8)])
  have "length (eocd_of (i_data ino)) = comment_of (i_data ino) + 22" using assms(3) by (simp add: eocd_of_def well_footed_def)
  then show ?thesis using v assms(4,9) by auto
qed

text \<open>A package and a signature check that accepts exactly the bytes 7.\<close>

definition demo_crypto :: "(byte list, byte list) crypto" where
  "demo_crypto = \<lparr>c_sha1 = \<lparr>SHA_init = [], SHA_update = (@), SHA_final = (\<lambda>c. c), SHA_hash = (\<lambda>d. d)\<rparr>,
     c_sha256 = \<lparr>SHA_init = [], SHA_update = (@), SHA_final = (\<lambda>c. c), SHA_hash = (\<lambda>d. d)\<rparr>,
     RSA_verify = (\<lambda>k sig h n. sig = replicate 256 7 \<and> take 3 h = [1, 2, 3]), c_malloc = (\<lambda>_. True)\<rparr>"

definition demo_cert :: Certificate where
  "demo_cert = \<lparr>hash_len = Some 20, public_key = \<lparr>k_len = 64, n0inv = 0, k_n = [], k_rr = [], exponent = Some 3\<rparr>\<rparr>"

text \<open>A file with the bytes 1, 2, 3 and a record whose comment has \<open>n\<close> bytes before the footer.\<close>

definition demo_package :: "nat \<Rightarrow> byte list" where
  "demo_package n = [1, 2, 3] @ [0x50, 0x4b, 0x05, 0x06] @ replicate 16 0 @ [of_nat (n + 6), of_nat ((n + 6) div 256)] @
     replicate n 7 @ [0, 2, 0xff, 0xff, of_nat (n + 6), of_nat ((n + 6) div 256)]"

definition demo_disk :: "byte list \<Rightarrow> os" where
  "demo_disk d = \<lparr>files = [''/a'' \<mapsto> \<lparr>i_data = d, i_mode = 33188, i_uid = 0, i_gid = 0\<rparr>],
     mtddev = Map.empty, orc = (\<lambda>_. LONG_MAX), noise = (\<lambda>_ bs. bs), names = (\<lambda>_ _. []), clk = 0\<rparr>"

definition demo_file :: "nat \<Rightarrow> inode" where
  "demo_file n = \<lparr>i_data = demo_package n, i_mode = 33188, i_uid = 0, i_gid = 0\<rparr>"

lemma no_later_marker:
  assumes "list_all (\<lambda>x. x \<noteq> 0x50) (drop 4 e)"
  shows "\<not> list_ex (eocd_marker e) [4..<length e - 3]"
proof
  assume "list_ex (eocd_marker e) [4..<length e - 3]"
  then obtain i where i: "4 \<le> i" "i < length e - 3" "eocd_marker e i" by (auto simp: list_ex_iff)
  then have "e ! i \<in> set (drop 4 e)" by (auto simp: set_conv_nth intro!: exI [of _ "i - 4"])
  then show False using assms i(3) by (auto simp: list_all_iff eocd_marker_def)
qed

lemma demo_package_footed:
  "comment_of (demo_package 256) = 262" "comment_of (demo_package 0) = 6"
  "well_footed (demo_package 256)" "well_footed (demo_package 0)"
proof -
  show c: "comment_of (demo_package 256) = 262" "comment_of (demo_package 0) = 6"
    by code_simp+
  have "well_footed (demo_package n)"
    if "list_all (\<lambda>x. x \<noteq> 0x50) (drop 4 (eocd_of (demo_package n)))" "length (eocd_of (demo_package n)) = comment_of (demo_package n) + 22"
      "6 \<le> length (demo_package n)" "footer_of (demo_package n) ! 2 = 0xff" "footer_of (demo_package n) ! 3 = 0xff"
      "262 \<le> le2 (footer_of (demo_package n)) 0" "comment_of (demo_package n) + 22 \<le> length (demo_package n)"
      "eocd_marker (eocd_of (demo_package n)) 0" for n
    using no_later_marker [OF that(1)] that(3-8) unfolding that(2) well_footed_def by blast
  moreover have "list_all (\<lambda>x. x \<noteq> 0x50) (drop 4 (eocd_of (demo_package 256)))" "list_all (\<lambda>x. x \<noteq> 0x50) (drop 4 (eocd_of (demo_package 0)))"
    "length (eocd_of (demo_package 256)) = comment_of (demo_package 256) + 22" "length (eocd_of (demo_package 0)) = comment_of (demo_package 0) + 22"
    "6 \<le> length (demo_package 256)" "footer_of (demo_package 256) ! 2 = 0xff" "footer_of (demo_package 256) ! 3 = 0xff"
    "262 \<le> le2 (footer_of (demo_package 256)) 0" "comment_of (demo_package 256) + 22 \<le> length (demo_package 256)"
    "eocd_marker (eocd_of (demo_package 256)) 0"
    "6 \<le> length (demo_package 0)" "footer_of (demo_package 0) ! 2 = 0xff" "footer_of (demo_package 0) ! 3 = 0xff"
    "262 \<le> le2 (footer_of (demo_package 0)) 0" "comment_of (demo_package 0) + 22 \<le> length (demo_package 0)"
    "eocd_marker (eocd_of (demo_package 0)) 0"
    by code_simp+
  ultimately show "well_footed (demo_package 256)" "well_footed (demo_package 0)" by blast+
qed

lemma demo_package_signed: "signed_with demo_crypto demo_cert (demo_package 256)"
proof -
  have "take 256 (drop (length (demo_package 256) - 262) (demo_package 256)) = replicate 256 7"
    "take 3 (signed_part (demo_package 256)) = [1, 2, 3]"
    by code_simp+
  then show ?thesis by (simp add: signed_with_def demo_cert_def demo_crypto_def)
qed

lemma demo_crypto_laws: "sha_streams (c_sha1 demo_crypto)" "sha_streams (c_sha256 demo_crypto)" "c_malloc demo_crypto n"
  "hash_lens [demo_cert] = Some [20]" "calls_succeed (demo_disk d)"
  by (simp_all add: demo_crypto_def sha_streams_def demo_cert_def calls_succeed_def demo_disk_def)

lemma demo_disk_file: "files (demo_disk (demo_package n)) ''/a'' = Some (demo_file n)" "i_data (demo_file n) = demo_package n"
  by (simp_all add: demo_disk_def demo_file_def)

theorem verify_file_complete_witness:
  "\<exists>w'. verify_file demo_crypto ''/a'' [demo_cert] (demo_disk (demo_package 256)) = Some (VERIFY_SUCCESS, w')"
  by (rule verify_file_complete [where k = demo_cert, OF demo_crypto_laws(5) demo_disk_file(1) _ _ demo_crypto_laws(3,4,1,2)])
     (simp_all add: demo_disk_file demo_package_footed demo_package_signed)

theorem verify_short_comment_undefined_witness:
  "verify_file demo_crypto ''/a'' [demo_cert] (demo_disk (demo_package 0)) = None"
  by (rule verify_short_comment_undefined [OF demo_crypto_laws(5) demo_disk_file(1) _ _ demo_crypto_laws(3,4,1,2)])
     (simp_all add: demo_disk_file demo_package_footed demo_cert_def)

theorem verify_file_sound_witness:
  "well_footed (demo_package 256) \<and> (\<exists>w' k. verify_file demo_crypto ''/a'' [k] (demo_disk (demo_package 256)) = Some (VERIFY_SUCCESS, w') \<and>
     signed_with demo_crypto k (demo_package 256))"
proof -
  let ?d = "demo_package 256"
  have foot: "well_footed (i_data (demo_file 256))" by (simp add: demo_disk_file demo_package_footed)
  obtain c1 c2 w' where v: "verify_file demo_crypto ''/a'' [demo_cert] (demo_disk ?d) = do {
      r \<leftarrow> try_keys demo_crypto (eocd_of (i_data (demo_file 256))) (SHA_final (c_sha1 demo_crypto) c1)
        (SHA_final (c_sha256 demo_crypto) c2) [demo_cert]; Some (r, w') }"
    and h: "20 \<in> set [20 :: int] \<longrightarrow> hashed (c_sha1 demo_crypto) c1 (signed_part (i_data (demo_file 256)))"
    by (rule verify_reaches_keys [OF demo_crypto_laws(5) demo_disk_file(1) foot demo_crypto_laws(3,4,1,2)])
  have sg: "take 256 (drop (length (eocd_of ?d) - 262) (eocd_of ?d)) = replicate 256 7" "262 \<le> length (eocd_of ?d)"
    "take 3 (signed_part ?d) = [1, 2, 3]"
    by code_simp+
  have "try_keys demo_crypto (eocd_of ?d) (SHA_final (c_sha1 demo_crypto) c1) (SHA_final (c_sha256 demo_crypto) c2) [demo_cert] = Some 0"
    by (rule try_keys_accepts [OF demo_crypto_laws(4), of demo_cert _ 20])
       (use sg h in \<open>simp_all add: demo_cert_def demo_crypto_def hashed_def demo_disk_file\<close>)
  then have run: "verify_file demo_crypto ''/a'' [demo_cert] (demo_disk ?d) = Some (VERIFY_SUCCESS, w')"
    using v unfolding demo_disk_file by simp
  from verify_file_sound [OF run demo_crypto_laws(1,2)] run show ?thesis
    by (auto simp: demo_disk_file file_data_def)
qed

section \<open>Printing keys\<close>

text \<open>Numbers in base \<open>b\<close>, and keys in the documented format.\<close>

fun base_text :: "nat \<Rightarrow> nat \<Rightarrow> string" where
  "base_text b n = (if b < 2 \<or> n < b then [hex_char n] else base_text b (n div b) @ [hex_char (n mod b)])"

declare base_text.simps [simp del]

definition show_word :: "u32 \<Rightarrow> string" where
  "show_word v = (if sint v < 0 then CHR ''-'' # base_text 10 (nat (- sint v)) else base_text 10 (nat (sint v)))"

fun show_words :: "u32 list \<Rightarrow> string" where
  "show_words [] = ''''"
| "show_words (v # vs) = CHR '','' # show_word v @ show_words vs"

definition show_version :: "Certificate \<Rightarrow> string" where
  "show_version c =
     (if exponent (public_key c) = Some 3
      then if hash_len c = Some 20 then ''{'' else ''v3 {''
      else if hash_len c = Some 20 then ''v2 {'' else ''v4 {'')"

definition show_cert :: "Certificate \<Rightarrow> string" where
  "show_cert c =
     (let k = public_key c
      in show_version c @ ''64,0x'' @ base_text 16 (unat (n0inv k)) @ '',{'' @
         show_word (hd (k_n k)) @ show_words (tl (k_n k)) @ ''},{'' @
         show_word (hd (k_rr k)) @ show_words (tl (k_rr k)) @ ''}}'')"

fun show_certs :: "Certificate list \<Rightarrow> string" where
  "show_certs [] = ''''"
| "show_certs [c] = show_cert c"
| "show_certs (c # cs) = show_cert c @ CHR '','' # show_certs cs"

definition valid_cert :: "Certificate \<Rightarrow> bool" where
  "valid_cert c \<longleftrightarrow> k_len (public_key c) = 64 \<and> length (k_n (public_key c)) = 64 \<and> length (k_rr (public_key c)) = 64 \<and>
     (exponent (public_key c) = Some 3 \<or> exponent (public_key c) = Some 65537) \<and> (hash_len c = Some 20 \<or> hash_len c = Some 32)"

lemma of_hex_char: "n < 16 \<Longrightarrow> of_char (hex_char n) = (if n < 10 then 48 + n else 87 + n :: nat)"
  by (simp add: hex_char_def)

lemma hex_char_props:
  assumes "n < 16"
  shows "xdigit (hex_char n) = n" "\<not> is_space (hex_char n)" "hex_char n \<noteq> CHR ''-''" "hex_char n \<noteq> CHR ''+''"
proof -
  note o = of_hex_char [OF assms]
  show "xdigit (hex_char n) = n" using assms by (simp add: xdigit_def is_digit_def less_eq_char_def o)
  have ne: "hex_char n \<noteq> c" if "of_char c < (48::nat)" for c using that o by (auto split: if_splits)
  show "hex_char n \<noteq> CHR ''-''" "hex_char n \<noteq> CHR ''+''" by (rule ne, simp)+
  show "\<not> is_space (hex_char n)" using ne [of "CHR '' ''"] by (simp add: is_space_def less_eq_char_def o)
qed

lemma separators [simp]:
  "xdigit (CHR '','') = 99" "xdigit (CHR ''}'') = 99" "xdigit (CHR ''x'') = 99" "xdigit (CHR ''X'') = 99" "\<not> is_space (CHR '','')"
  "\<not> is_space (CHR ''}'')" "\<not> is_space (CHR ''{'')" "\<not> is_space (CHR ''v'')" "\<not> is_space (CHR ''-'')" "\<not> is_space (CHR ''0'')"
  "\<not> is_space (CHR ''2'')" "\<not> is_space (CHR ''3'')" "\<not> is_space (CHR ''4'')" "\<not> is_space (CHR ''6'')" "is_space (CHR '' '')"
  by code_simp+

lemma digits_value_snoc [simp]: "digits_value b (ds @ [c]) = digits_value b ds * b + xdigit c" "digits_value b [] = 0"
  by (simp_all add: digits_value_def)

lemma base_text_props:
  assumes "2 \<le> b" "b \<le> 16"
  shows "digits_value b (base_text b n) = n \<and> base_text b n \<noteq> [] \<and> list_all (\<lambda>c. \<exists>i < b. c = hex_char i) (base_text b n)"
  using assms
proof (induction b n rule: base_text.induct)
  case (1 b n)
  show ?case
  proof (cases "n < b")
    case True
    then show ?thesis using "1.prems" digits_value_snoc(1) [of b "[]"] hex_char_props(1) [of n]
      by (auto simp: base_text.simps [of b n])
  next
    case False
    have m: "n mod b < b" "n mod b < 16" using "1.prems" mod_less_divisor [of b n] by linarith+
    have e: "n div b * b + xdigit (hex_char (n mod b)) = n" by (simp add: hex_char_props(1) [OF m(2)])
    have "\<exists>i < b. hex_char (n mod b) = hex_char i" using m(1) by blast
    then show ?thesis using 1 False e by (simp add: base_text.simps [of b n])
  qed
qed

lemma scan_magnitude_text:
  assumes "2 \<le> b" "b \<le> 16" "xdigit c \<ge> b"
  shows "scan_magnitude b (base_text b n @ c # rest) = Some (n, c # rest)"
proof -
  note p = base_text_props [OF assms(1,2), of n]
  have "takeWhile (\<lambda>c. xdigit c < b) (base_text b n @ c # rest) = base_text b n"
    using p assms hex_char_props(1) by (auto simp: takeWhile_append list_all_iff)
  then show ?thesis using p by (simp add: scan_magnitude_def)
qed

lemma base_text_hd:
  assumes "2 \<le> b" "b \<le> 16"
  obtains i t where "base_text b n = hex_char i # t" "i < 16"
  using base_text_props [OF assms, of n] assms(2) that by (cases "base_text b n") auto

lemma scan_sign_text:
  assumes "2 \<le> b" "b \<le> 16"
  shows "scan_sign (skip_ws (base_text b n @ s)) = (False, base_text b n @ s)"
  by (rule base_text_hd [OF assms, of n]) (auto simp: scan_sign_def hex_char_props)

lemma scan_word:
  assumes "xdigit c = 99"
  shows "scan_unsigned 10 (show_word v @ c # rest) = Some (v, c # rest)"
proof -
  have lo: "- 2147483648 \<le> sint v" "sint v < 2147483648"
    using sint_greater_eq [of v] sint_lt [of v] by simp_all
  have m: "scan_magnitude 10 (base_text 10 k @ c # rest) = Some (k, c # rest)" for k
    using assms by (simp add: scan_magnitude_text)
  show ?thesis
  proof (cases "sint v < 0")
    case True
    have "min (nat (- sint v)) (2 ^ 64 - 1) = nat (- sint v)" using lo by simp
    with True show ?thesis by (simp add: show_word_def scan_unsigned_def scan_sign_def m)
  next
    case False
    have "min (nat (sint v)) (2 ^ 64 - 1) = nat (sint v)" using lo by simp
    with False show ?thesis by (simp add: show_word_def scan_unsigned_def scan_sign_text m)
  qed
qed

lemma scan_words_text: "scan_words (length vs) (show_words vs @ CHR ''}'' # rest) = Some (vs, CHR ''}'' # rest)"
proof (induction vs)
  case (Cons v vs)
  have "\<exists>c t. show_words vs @ CHR ''}'' # rest = c # t \<and> xdigit c = 99" by (cases vs) auto
  then show ?case using Cons by (auto simp: match_char_def scan_word)
qed simp

lemma scan_hex:
  "scan_unsigned 16 (base_text 16 (unat v) @ CHR '','' # rest) = Some (v :: u32, CHR '','' # rest)"
proof -
  have np: "\<not> prefix_0x (base_text 16 (unat v) @ CHR '','' # rest)"
  proof (rule base_text_hd [of 16 "unat v"])
    fix i t assume t: "base_text 16 (unat v) = hex_char i # t"
    then have "list_all (\<lambda>c. \<exists>i < 16. c = hex_char i) t" using base_text_props [of 16 "unat v"] by simp
    then have "xdigit ((t @ CHR '','' # rest) ! 0) < 16 \<or> (t @ CHR '','' # rest) ! 0 = CHR '',''"
      using hex_char_props(1) by (cases t) auto
    then show ?thesis using t by (auto simp: prefix_0x_def)
  qed simp_all
  have "unat v < 4294967296" using unsigned_less [of v] by simp
  then have "min (unat v) (2 ^ 64 - 1) = unat v" by simp
  then show ?thesis using np by (simp add: scan_unsigned_def scan_sign_text scan_magnitude_text)
qed

lemma digit_chars [simp]: "xdigit (CHR ''2'') = 2" "xdigit (CHR ''3'') = 3" "xdigit (CHR ''4'') = 4" "xdigit (CHR ''6'') = 6" "xdigit (CHR '' '') = 99"
  by code_simp+

lemma scan_d_digit:
  assumes "xdigit x < 10" "\<not> is_space x" "x \<noteq> CHR ''-''" "x \<noteq> CHR ''+''"
  shows "scan_d (x # CHR '' '' # t) = Some (int (xdigit x), CHR '' '' # t)"
proof -
  have "signed_value False (xdigit x) = int (xdigit x)" using assms(1) by (simp add: signed_value_def clamp_imax_def)
  moreover have "sint (word_of_int (int n) :: u32) = int n" if "n < 10" for n
    using that by (simp add: signed_of_nat signed_take_bit_int_eq_self)
  ultimately show ?thesis using assms by (simp add: scan_d_def scan_sign_def scan_magnitude_def digits_value_def)
qed

lemma scan_version_text:
  assumes "valid_cert c"
  shows "scan_version (show_version c @ s) = Some (exponent (public_key c), hash_len c, s)"
proof -
  have v: "scan_version (CHR ''v'' # x # CHR '' '' # CHR ''{'' # s) =
      (if xdigit x = 2 then Some (Some 65537, Some 20, s)
       else if xdigit x = 3 then Some (Some 3, Some 32, s)
       else if xdigit x = 4 then Some (Some 65537, Some 32, s) else None)"
    if "xdigit x < 10" "\<not> is_space x" "x \<noteq> CHR ''-''" "x \<noteq> CHR ''+''" for x
    using scan_d_digit [OF that] by (simp add: scan_version_def match_char_def)
  have "scan_version (CHR ''{'' # s) = Some (Some 3, Some 20, s)" by (simp add: scan_version_def)
  then show ?thesis using assms
    by (elim valid_cert_def [THEN iffD1, elim_format] conjE disjE) (simp_all add: show_version_def v)
qed

lemma scan_i_64: "scan_i (''64'' @ CHR '','' # s) = Some (64, CHR '','' # s)"
  by (simp add: scan_i_def scan_sign_def prefix_0x_def scan_magnitude_def digits_value_def signed_value_def clamp_imax_def)

lemma scan_row:
  assumes "length vs = 64"
  shows "\<exists>r. scan_unsigned 10 (show_word (hd vs) @ show_words (tl vs) @ CHR ''}'' # s) = Some (hd vs, r) \<and>
    scan_words 63 r = Some (tl vs, CHR ''}'' # s)"
proof -
  have "\<exists>c t. show_words (tl vs) @ CHR ''}'' # s = c # t \<and> xdigit c = 99" by (cases "tl vs") auto
  then show ?thesis using assms scan_words_text [of "tl vs" s] scan_word [where v = "hd vs"] by fastforce
qed

lemma load_key_text:
  assumes "valid_cert c" "s = [] \<or> hd s = CHR '',''"
  shows "load_key (show_cert c @ s) = Some (c, s)"
proof -
  obtain h l i n r e where c: "c = \<lparr>hash_len = h, public_key = \<lparr>k_len = l, n0inv = i, k_n = n, k_rr = r, exponent = e\<rparr>\<rparr>"
    by (metis Certificate.cases RSAPublicKey.cases)
  have v: "l = 64" "length n = 64" "length r = 64" using assms(1) c by (simp_all add: valid_cert_def)
  then have ne: "hd n # tl n = n" "hd r # tl r = r" by (metis list.collapse list.size(3) zero_neq_numeral)+
  have ws: "skip_ws s = s" using assms(2) by (cases s) auto
  define s2 where "s2 = show_word (hd r) @ show_words (tl r) @ CHR ''}'' # CHR ''}'' # s"
  define s1 where "s1 = show_word (hd n) @ show_words (tl n) @ CHR ''}'' # CHR '','' # CHR ''{'' # s2"
  obtain t1 where t1: "scan_unsigned 10 s1 = Some (hd n, t1)" "scan_words 63 t1 = Some (tl n, CHR ''}'' # CHR '','' # CHR ''{'' # s2)"
    using scan_row [OF v(2)] unfolding s1_def by blast
  obtain t2 where t2: "scan_unsigned 10 s2 = Some (hd r, t2)" "scan_words 63 t2 = Some (tl r, CHR ''}'' # CHR ''}'' # s)"
    using scan_row [OF v(3)] unfolding s2_def by blast
  have "show_cert c @ s = show_version c @ ''64'' @ CHR '','' # CHR ''0'' # CHR ''x'' # base_text 16 (unat i) @ CHR '','' # CHR ''{'' # s1"
    by (simp add: show_cert_def c Let_def s1_def s2_def)
  then show ?thesis
    using v ne ws t1 t2 by (simp add: load_key_def scan_version_text [OF assms(1)] scan_i_64 [simplified] scan_hex match_char_def scan_end_def)
       (simp add: c)
qed

lemma load_loop_text:
  assumes "cs \<noteq> []" "list_all valid_cert cs" "\<And>n. malloc n"
  shows "load_loop malloc n (show_certs cs) = Some (Some cs)"
  using assms(1,2)
proof (induction cs arbitrary: n rule: show_certs.induct)
  case (2 c)
  then show ?case using assms(3) load_key_text [of c "[]"] by (simp add: load_loop.simps)
next
  case (3 c d cs)
  then show ?case
    using assms(3) load_key_text [of c "CHR '','' # show_certs (d # cs)"] by (simp add: load_loop.simps [of _ n])
qed simp

lemma text_of_bytes_of: "map (\<lambda>b. char_of (unat b)) (bytes_of s) = s"
proof -
  have "unat (of_nat (of_char c) :: byte) = of_char c" for c
    by (simp add: unsigned_of_nat take_bit_nat_eq_self)
  then show ?thesis by (simp add: bytes_of_def comp_def map_idI)
qed

text \<open>
  C28. The documented key file format round trips: a file that holds one or more keys, each
  preceded by the version that stands for its exponent and hash, with the words in signed decimal,
  separated by commas, is loaded as exactly these keys, in order, whenever the calls succeed.
\<close>

theorem load_keys_round_trip:
  assumes "calls_succeed w" "\<And>n. malloc n" "files w fn = Some ino" "i_data ino = bytes_of (show_certs cs)"
    and "int (length (show_certs cs)) \<le> LONG_MAX" "cs \<noteq> []" "list_all valid_cert cs"
  shows "\<exists>w'. load_keys malloc fn w = Some (Some cs, w')"
proof -
  have k: "LONG_MAX \<le> orc w n" for n using assms(1) by (simp add: calls_succeed_def)
  obtain f w1 where o: "sys_open False False 0 fn w = (Some f, w1)" "f_path f = fn" "calls_succeed w1" "files w1 fn = Some ino"
    using k [of "clk w"] k assms(3) by (auto simp: sys_open_def ask_def calls_succeed_def LONG_MAX_def Let_def)
  obtain v w2 where a: "ask w1 = (v, w2)" by fastforce
  have v: "LONG_MAX \<le> v" "files w2 fn = Some ino" using a o by (auto simp: ask_def calls_succeed_def)
  have "take (nat v) (bytes_of (show_certs cs)) = bytes_of (show_certs cs)" using v assms(5) by (simp add: bytes_of_def)
  then show ?thesis
    using o a v assms by (simp add: load_keys_def file_data_def text_of_bytes_of load_loop_text)
qed

definition demo_key :: "int \<Rightarrow> int \<Rightarrow> Certificate" where
  "demo_key e h = \<lparr>hash_len = Some h,
     public_key = \<lparr>k_len = 64, n0inv = 0xc9, k_n = replicate 64 (- 1), k_rr = replicate 64 7, exponent = Some e\<rparr>\<rparr>"

abbreviation (input) demo_keys :: "Certificate list" where "demo_keys \<equiv> [demo_key 3 20, demo_key 65537 32]"

lemma length_show_words: "length (show_words (replicate n v)) = n * Suc (length (show_word v))"
  by (induction n) auto

lemma length_demo_keys: "int (length (show_certs demo_keys)) \<le> LONG_MAX"
proof -
  have w: "length (show_word (- 1)) = 2" "length (show_word 7) = 1" "length (base_text 16 201) = 2"
    by (simp_all add: show_word_def base_text.simps)
  have v: "length (show_version c) \<le> 4" for c by (simp add: show_version_def)
  have "length (show_cert (demo_key e h)) = length (show_version (demo_key e h)) + 332" for e h
    by (simp add: show_cert_def Let_def, simp add: demo_key_def length_show_words w)
  then have "length (show_cert (demo_key e h)) \<le> 339" for e h using v [of "demo_key e h"] by simp
  from this [of 3 20] this [of 65537 32] show ?thesis by (simp add: LONG_MAX_def)
qed

theorem load_keys_round_trip_witness:
  "\<exists>w'. load_keys (\<lambda>_. True) ''/a'' (demo_disk (bytes_of (show_certs demo_keys))) =
     Some (Some demo_keys, w')"
proof (rule load_keys_round_trip)
  show "calls_succeed (demo_disk (bytes_of (show_certs demo_keys)))"
    by (simp add: calls_succeed_def demo_disk_def)
  show "list_all valid_cert demo_keys" by (simp add: valid_cert_def demo_key_def)
  show "files (demo_disk (bytes_of (show_certs demo_keys))) ''/a'' =
      Some \<lparr>i_data = bytes_of (show_certs demo_keys), i_mode = 33188, i_uid = 0, i_gid = 0\<rparr>"
    by (simp add: demo_disk_def)
qed (simp_all only: length_demo_keys inode.simps list.simps not_False_eq_True)

end
