(* ===== verification/Mounts.thy ===== *)
theory Mounts
  imports Mtd
begin

text \<open>
  The table of mounted volumes (\<open>src/mounts.c\<close>), which is read from \<open>/proc/mounts\<close>.

  The kernel's own table is the list \<open>mounted\<close> of a \<open>sys\<close>; the file \<open>/proc/mounts\<close> shows it, one
  line for each mount. Mounting appends to it, unmounting takes the last entry of the mount point
  away. Files are identified by their path, whether or not their volume is mounted.
\<close>

section \<open>The kernel\<close>

record mount =
  m_device :: string
  m_dir :: string
  m_type :: string
  m_opts :: string

record sys =
  s_os :: os
  mounted :: "mount list"

definition mount_line :: "mount \<Rightarrow> string" where
  "mount_line m = m_device m @ '' '' @ m_dir m @ '' '' @ m_type m @ '' '' @ m_opts m @ '' 0 0'' @ [CHR 0x0A]"

definition mounts_text :: "mount list \<Rightarrow> string" where
  "mounts_text ms = concat (map mount_line ms)"

definition set_mounted :: "mount list \<Rightarrow> sys \<Rightarrow> sys" where
  "set_mounted ms s =
     s\<lparr>mounted := ms,
       s_os := (s_os s)\<lparr>files := (files (s_os s))(''/proc/mounts'' \<mapsto>
         \<lparr>i_data = bytes_of (mounts_text ms), i_mode = 33060, i_uid = 0, i_gid = 0\<rparr>)\<rparr>\<rparr>"

text \<open>A call of the system on the files only.\<close>

definition on_os :: "(os \<Rightarrow> 'a \<times> os) \<Rightarrow> sys \<Rightarrow> 'a \<times> sys" where
  "on_os f s = (let (r, w) = f (s_os s) in (r, s\<lparr>s_os := w\<rparr>))"

definition sys_mount :: "mount \<Rightarrow> sys \<Rightarrow> int \<times> sys" where
  "sys_mount m s = (let (r, s) = on_os sys_status s in if r \<noteq> 0 then (r, s) else (0, set_mounted (mounted s @ [m]) s))"

fun remove_last :: "string \<Rightarrow> mount list \<Rightarrow> mount list" where
  "remove_last dir [] = []"
| "remove_last dir (m # ms) =
     (if m_dir m = dir \<and> dir \<notin> m_dir ` set ms then ms else m # remove_last dir ms)"

definition sys_umount :: "string option \<Rightarrow> sys \<Rightarrow> int \<times> sys" where
  "sys_umount dir s =
     (let (r, s) = on_os sys_status s
      in case dir of
           None \<Rightarrow> (-1, s)
         | Some dir \<Rightarrow>
             if r \<noteq> 0 then (r, s)
             else if dir \<notin> m_dir ` set (mounted s) then (-1, s)
             else (0, set_mounted (remove_last dir (mounted s)) s))"

section \<open>The table of the program\<close>

text \<open>A field is null when its string could not be allocated, or after unmounting.\<close>

record MountedVolume =
  mv_device :: "string option"
  mv_mount_point :: "string option"
  mv_filesystem :: "string option"
  mv_flags :: "string option"

record MountsState =
  volumes :: "MountedVolume list option"
  volumes_allocd :: nat
  volume_count :: nat

definition g_mounts_state :: MountsState where
  "g_mounts_state = \<lparr>volumes = None, volumes_allocd = 0, volume_count = 0\<rparr>"

definition no_volume :: MountedVolume where
  "no_volume = \<lparr>mv_device = None, mv_mount_point = None, mv_filesystem = None, mv_flags = None\<rparr>"

definition strdup :: "string \<Rightarrow> os \<Rightarrow> string option \<times> os" where
  "strdup s w = (let (ok, w) = sys_alloc w in (if ok then Some s else None, w))"

text \<open>The conversion \<open>%ns\<close>, and the four of them that are used.\<close>

definition scan_s :: "nat \<Rightarrow> string \<Rightarrow> (string \<times> string) option" where
  "scan_s n s =
     (let s = scan_space s; t = take n (takeWhile (\<lambda>c. \<not> is_space c) s)
      in if t = [] then None else Some (t, drop (length t) s))"

definition scan_mount :: "string \<Rightarrow> (string \<times> string \<times> string \<times> string) option" where
  "scan_mount bufp = do {
     (device, s) \<leftarrow> scan_s 63 bufp;
     (mount_point, s) \<leftarrow> scan_s 63 s;
     (filesystem, s) \<leftarrow> scan_s 63 s;
     (flags, s) \<leftarrow> scan_s 127 s;
     Some (device, mount_point, filesystem, flags)
   }"

text \<open>The lines; there is no check that the table has room for a volume.\<close>

function scan_mounts :: "string \<Rightarrow> MountsState \<Rightarrow> os \<Rightarrow> (MountsState \<times> os) option" where
  "scan_mounts s st w =
     (if s = [] then Some (st, w)
      else case scan_mount (c_string s) of
          None \<Rightarrow> scan_mounts (eat_line s) st w
        | Some (device, mount_point, filesystem, flags) \<Rightarrow>
            (case volumes st of
               None \<Rightarrow> None
             | Some vs \<Rightarrow>
                 if volume_count st \<ge> length vs then None
                 else let (d, w) = strdup device w; (m, w) = strdup mount_point w;
                          (f, w) = strdup filesystem w; (g, w) = strdup flags w;
                          v = \<lparr>mv_device = d, mv_mount_point = m, mv_filesystem = f, mv_flags = g\<rparr>
                      in scan_mounts (eat_line s)
                           (st\<lparr>volumes := Some (vs[volume_count st := v]), volume_count := volume_count st + 1\<rparr>) w))"
  by pat_completeness auto
termination
  by (relation "measure (\<lambda>(s, _). length s)") (auto simp: eat_line_less)

declare scan_mounts.simps [simp del]

definition clear_table :: "MountsState \<Rightarrow> MountsState" where
  "clear_table st =
     (case volumes st of
        None \<Rightarrow> st\<lparr>volumes := Some (replicate 32 no_volume), volumes_allocd := 32, volume_count := 0\<rparr>
      | Some vs \<Rightarrow> st\<lparr>volumes := Some (replicate (volume_count st) no_volume @ drop (volume_count st) vs), volume_count := 0\<rparr>)"

definition scan_mounted_volumes :: "MountsState \<Rightarrow> os \<Rightarrow> (int \<times> MountsState \<times> os) option" where
  "scan_mounted_volumes st w =
     (let (ok, w) = (if volumes st = None then sys_alloc w else (True, w))
      in if \<not> ok then Some (-1, st, w)
         else
           let st = clear_table st;
               (f, w) = sys_open False False 0 ''/proc/mounts'' w
           in (case f of
                 None \<Rightarrow> Some (-1, st, w)
               | Some f \<Rightarrow>
                   let ((nbytes, bs), f, w) = sys_read f 2047 w; w = snd (sys_status w)
                   in if nbytes < 0 then Some (-1, st, w)
                      else do { (st, w) \<leftarrow> scan_mounts (text_of bs) st w; Some (0, st, w) }))"

text \<open>A volume is found by its index in the table.\<close>

fun find_index :: "('a \<Rightarrow> bool) \<Rightarrow> 'a list \<Rightarrow> nat option" where
  "find_index P [] = None"
| "find_index P (x # xs) = (if P x then Some 0 else map_option Suc (find_index P xs))"

definition find_volume :: "(MountedVolume \<Rightarrow> string option) \<Rightarrow> string \<Rightarrow> MountsState \<Rightarrow> nat option" where
  "find_volume field s st =
     (case volumes st of
        None \<Rightarrow> None
      | Some vs \<Rightarrow>
          find_index (\<lambda>v. case field v of None \<Rightarrow> False | Some t \<Rightarrow> strcmp t s = 0) (take (volume_count st) vs))"

definition find_mounted_volume_by_device :: "string \<Rightarrow> MountsState \<Rightarrow> nat option" where
  "find_mounted_volume_by_device = find_volume mv_device"

definition find_mounted_volume_by_mount_point :: "string \<Rightarrow> MountsState \<Rightarrow> nat option" where
  "find_mounted_volume_by_mount_point = find_volume mv_mount_point"

definition unmount_mounted_volume :: "nat \<Rightarrow> MountsState \<Rightarrow> sys \<Rightarrow> (int \<times> MountsState \<times> sys) option" where
  "unmount_mounted_volume i st s = do {
     vs \<leftarrow> volumes st;
     volume \<leftarrow> rd vs i;
     let (ret, s) = sys_umount (mv_mount_point volume) s;
     if ret = 0 then Some (0, st\<lparr>volumes := Some (vs[i := no_volume])\<rparr>, s) else Some (ret, st, s)
   }"

text \<open>Mounting again, read-only; the other fields stay.\<close>

fun remount :: "string \<Rightarrow> mount list \<Rightarrow> mount list" where
  "remount dir [] = []"
| "remount dir (m # ms) =
     (if m_dir m = dir \<and> dir \<notin> m_dir ` set ms then m\<lparr>m_opts := ''ro,nodev,noatime,nodiratime''\<rparr> # ms else m # remount dir ms)"

definition remount_read_only :: "nat \<Rightarrow> MountsState \<Rightarrow> sys \<Rightarrow> (int \<times> sys) option" where
  "remount_read_only i st s = do {
     vs \<leftarrow> volumes st;
     volume \<leftarrow> rd vs i;
     let (r, s) = on_os sys_status s;
     case mv_mount_point volume of
       None \<Rightarrow> Some (-1, s)
     | Some dir \<Rightarrow>
         if r \<noteq> 0 then Some (r, s)
         else if dir \<notin> m_dir ` set (mounted s) then Some (-1, s)
         else Some (0, set_mounted (remount dir (mounted s)) s)
   }"

text \<open>
  A volume by the target of its device. If the link can not be read, the buffer is compared
  without having been written.
\<close>

fun find_real_node :: "string \<Rightarrow> nat \<Rightarrow> MountedVolume list \<Rightarrow> os \<Rightarrow> (nat option \<times> os) option" where
  "find_real_node node i [] w = Some (None, w)"
| "find_real_node node i (v # vs) w =
     (case mv_device v of
        None \<Rightarrow> find_real_node node (i + 1) vs w
      | Some d \<Rightarrow>
          (case sys_readlink d w of
             (None, w) \<Rightarrow> None
           | (Some t, w) \<Rightarrow>
               if strcmp (c_string (take 4095 t)) node = 0 then Some (Some i, w)
               else find_real_node node (i + 1) vs w))"

definition find_mounted_volume_by_real_node :: "string \<Rightarrow> MountsState \<Rightarrow> os \<Rightarrow> (nat option \<times> os) option" where
  "find_mounted_volume_by_real_node node st w =
     (case volumes st of None \<Rightarrow> Some (None, w) | Some vs \<Rightarrow> find_real_node node 0 (take (volume_count st) vs) w)"

section \<open>Reading the table\<close>

text \<open>
  Fields as the kernel writes them: not empty, without white space (which is escaped), and short
  enough for the buffers.
\<close>

definition field :: "string \<Rightarrow> bool" where
  "field f \<longleftrightarrow> f \<noteq> [] \<and> list_all (\<lambda>c. \<not> is_space c \<and> c \<noteq> CHR 0x00) f"

definition good_mount :: "mount \<Rightarrow> bool" where
  "good_mount m \<longleftrightarrow> field (m_device m) \<and> field (m_dir m) \<and> field (m_type m) \<and> field (m_opts m) \<and>
     length (m_device m) \<le> 63 \<and> length (m_dir m) \<le> 63 \<and> length (m_type m) \<le> 63"

text \<open>A conversion that stops inside of the field, and one that reads it completely.\<close>

lemma scan_s_nil [simp]: "scan_s n [] = None"
  by (simp add: scan_s_def scan_space_def)

lemma scan_s_blank [simp]: "scan_s n (CHR '' '' # s) = scan_s n s"
  by (simp add: scan_s_def scan_space_def is_space_def)

lemma scan_s_cut:
  assumes "field f" "length f \<le> n" "k \<le> length f"
  shows "scan_s n (take k f) = (if k = 0 then None else Some (take k f, []))"
proof -
  have t: "takeWhile (\<lambda>c. \<not> is_space c) (take k f) = take k f" using assms(1)
    by (auto simp: field_def list_all_iff dest: in_set_takeD)
  obtain c cs where "f = c # cs" "\<not> is_space c" using assms(1) by (cases f) (auto simp: field_def)
  then have "scan_space (take k f) = take k f" by (cases k) (simp_all add: scan_space_def)
  then have "scan_s n (take k f) = (if take n (take k f) = [] then None else Some (take n (take k f), drop n (take k f)))"
    unfolding scan_s_def Let_def by (simp only: t length_take) (auto simp: min_def)
  then show ?thesis using assms by (auto simp: field_def min_def)
qed

lemma scan_s_full:
  assumes "field f" "is_space c"
  shows "scan_s n (f @ c # r) = (if n = 0 then None else Some (take n f, drop n f @ c # r))"
proof -
  have t: "takeWhile (\<lambda>c. \<not> is_space c) (f @ c # r) = f" using assms
    by (auto simp: field_def list_all_iff takeWhile_append)
  obtain d cs where "f = d # cs" "\<not> is_space d" using assms(1) by (cases f) (auto simp: field_def)
  then have "scan_space (f @ c # r) = f @ c # r" by (simp add: scan_space_def)
  then show ?thesis using t assms by (auto simp: scan_s_def field_def min_def)
qed

lemma scan_s_take:
  assumes "field f" "is_space c" "length f \<le> n" "scan_s n (take k (f @ c # r)) = Some (t, s)" "s \<noteq> []"
  shows "t = f \<and> (\<exists>j. s = c # take j r)"
proof (cases "k \<le> length f")
  case True
  then show ?thesis using scan_s_cut [OF assms(1,3) True] assms(4,5) by (auto split: if_splits)
next
  case False
  then obtain j where j: "k = length f + Suc j" by (metis add_Suc_right less_imp_Suc_add not_le)
  then have "take k (f @ c # r) = f @ c # take j r" by simp
  then show ?thesis using scan_s_full [OF assms(1,2), of n "take j r"] assms(3,4) by (auto split: if_splits)
qed

lemma is_space_blank [simp]: "is_space (CHR '' '')" "is_space (CHR 0x0A)"
  by (simp_all add: is_space_def less_eq_char_def)

lemma scan_mount_take:
  assumes "good_mount m" "scan_mount (take k (mount_line m @ r)) = Some (d, p, f, g)"
  shows "d = m_device m \<and> p = m_dir m \<and> f = m_type m"
proof -
  note g = assms(1) [unfolded good_mount_def]
  have l: "mount_line m @ r = m_device m @ CHR '' '' # m_dir m @ CHR '' '' # m_type m @ CHR '' '' # m_opts m @ '' 0 0'' @ CHR 0x0A # r"
    by (simp add: mount_line_def)
  obtain s1 s2 s3 s4 where s: "scan_s 63 (take k (mount_line m @ r)) = Some (d, s1)" "scan_s 63 s1 = Some (p, s2)"
    "scan_s 63 s2 = Some (f, s3)" "scan_s 127 s3 = Some (g, s4)"
    using assms(2) by (auto simp: scan_mount_def split: bind_splits)
  have ne: "s1 \<noteq> []" "s2 \<noteq> []" "s3 \<noteq> []" using s(2-4) by auto
  obtain j1 where s1: "d = m_device m" "s1 = CHR '' '' # take j1 (m_dir m @ CHR '' '' # m_type m @ CHR '' '' # m_opts m @ '' 0 0'' @ CHR 0x0A # r)"
    using scan_s_take [OF _ _ _ s(1) [unfolded l] ne(1)] g by auto
  obtain j2 where s2: "p = m_dir m" "s2 = CHR '' '' # take j2 (m_type m @ CHR '' '' # m_opts m @ '' 0 0'' @ CHR 0x0A # r)"
    using scan_s_take [OF _ _ _ s(2) [unfolded s1 scan_s_blank] ne(2)] g by auto
  have "f = m_type m" using scan_s_take [OF _ _ _ s(3) [unfolded s2 scan_s_blank] ne(3)] g by auto
  then show ?thesis using s1 s2 by simp
qed

lemma scan_mount_line:
  assumes "good_mount m"
  shows "scan_mount (mount_line m @ r) = Some (m_device m, m_dir m, m_type m, take 127 (m_opts m))"
proof -
  note g = assms [unfolded good_mount_def]
  have l: "mount_line m @ r = m_device m @ CHR '' '' # m_dir m @ CHR '' '' # m_type m @ CHR '' '' # m_opts m @ CHR '' '' # ''0 0'' @ CHR 0x0A # r"
    by (simp add: mount_line_def)
  show ?thesis using g unfolding l by (simp add: scan_mount_def scan_s_full)
qed

lemma field_chars: "field f \<Longrightarrow> c \<in> set f \<Longrightarrow> c \<noteq> CHR 0x0A \<and> c \<noteq> CHR 0x00"
  using is_space_blank(2) unfolding field_def list_all_iff by blast

lemma mount_line_chars:
  assumes "good_mount m"
  obtains l where "mount_line m = l @ [CHR 0x0A]" "CHR 0x0A \<notin> set l" "CHR 0x00 \<notin> set l" "l \<noteq> []"
proof -
  define l where "l = m_device m @ '' '' @ m_dir m @ '' '' @ m_type m @ '' '' @ m_opts m @ '' 0 0''"
  have "field (m_device m)" "field (m_dir m)" "field (m_type m)" "field (m_opts m)" using assms by (simp_all add: good_mount_def)
  note f = this [THEN field_chars]
  have "CHR 0x0A \<notin> set l" "CHR 0x00 \<notin> set l" using f by (auto simp: l_def)
  then show ?thesis using that [of l] by (simp add: mount_line_def l_def)
qed

text \<open>The mount points in the table of the program.\<close>

definition known :: "MountsState \<Rightarrow> string set" where
  "known st = (case volumes st of None \<Rightarrow> {} | Some vs \<Rightarrow> {d. \<exists>v \<in> set (take (volume_count st) vs). mv_mount_point v = Some d})"

definition table_ok :: "MountsState \<Rightarrow> bool" where
  "table_ok st \<longleftrightarrow> (case volumes st of None \<Rightarrow> volume_count st = 0 | Some vs \<Rightarrow> length vs = 32 \<and> volume_count st \<le> 32)"

definition shows_mounts :: "sys \<Rightarrow> bool" where
  "shows_mounts s \<longleftrightarrow> file_data (s_os s) ''/proc/mounts'' = bytes_of (mounts_text (mounted s)) \<and>
     files (s_os s) ''/proc/mounts'' \<noteq> None"

lemma mounts_text_simps [simp]: "mounts_text [] = []" "mounts_text (m # ms) = mount_line m @ mounts_text ms"
  by (simp_all add: mounts_text_def)

lemma eat_line_line: "CHR 0x0A \<notin> set l \<Longrightarrow> eat_line (l @ CHR 0x0A # t) = t" "CHR 0x0A \<notin> set l \<Longrightarrow> eat_line l = []"
  by (induction l) (auto simp: eat_line_def)

lemma c_string_line: "CHR 0x00 \<notin> set l \<Longrightarrow> c_string (l @ t) = l @ c_string t" "CHR 0x00 \<notin> set l \<Longrightarrow> c_string l = l"
  by (induction l) (auto simp: c_string_def)

lemma mount_line_full:
  assumes "good_mount m"
  shows "scan_mount (c_string (mount_line m @ t)) = Some (m_device m, m_dir m, m_type m, take 127 (m_opts m))"
    "eat_line (mount_line m @ t) = t" "mount_line m \<noteq> []"
proof -
  obtain l where l: "mount_line m = l @ [CHR 0x0A]" "CHR 0x0A \<notin> set l" "CHR 0x00 \<notin> set l" by (rule mount_line_chars [OF assms])
  have "CHR 0x00 \<notin> set (mount_line m)" using l by simp
  then show "scan_mount (c_string (mount_line m @ t)) = Some (m_device m, m_dir m, m_type m, take 127 (m_opts m))"
    using scan_mount_line [OF assms] by (simp add: c_string_line)
  show "eat_line (mount_line m @ t) = t" using l eat_line_line(1) [of l t] by simp
  show "mount_line m \<noteq> []" using l by simp
qed

lemma mount_line_prefix:
  assumes "good_mount m" "s = take k (mount_line m @ t)"
  shows "(\<forall>d p f g. scan_mount (c_string s) = Some (d, p, f, g) \<longrightarrow> p = m_dir m) \<and> (\<exists>j. eat_line s = take j t)"
proof (cases "k < length (mount_line m)")
  case True
  obtain l where l: "mount_line m = l @ [CHR 0x0A]" "CHR 0x0A \<notin> set l" "CHR 0x00 \<notin> set l" by (rule mount_line_chars [OF assms(1)])
  then have s: "s = take k l" using assms(2) True by simp
  then have "CHR 0x00 \<notin> set s" "CHR 0x0A \<notin> set s" using l by (auto dest: in_set_takeD)
  then have "c_string s = s" "eat_line s = []" by (simp_all add: c_string_line eat_line_line)
  moreover have "s = take k (mount_line m @ [])" using s l True by simp
  ultimately show ?thesis using scan_mount_take [OF assms(1), of k "[]"] by (auto intro: exI [of _ 0])
next
  case False
  then have "s = mount_line m @ take (k - length (mount_line m)) t" using assms(2) by simp
  then show ?thesis using mount_line_full [OF assms(1)] by auto
qed

lemma known_add:
  assumes "volumes st = Some vs" "volume_count st < length vs"
  shows "known (st\<lparr>volumes := Some (vs[volume_count st := v]), volume_count := volume_count st + 1\<rparr>) =
    known st \<union> set_option (mv_mount_point v)"
  using assms by (auto simp: known_def take_Suc_conv_app_nth)

lemma strdup_keeps:
  assumes "strdup s w = (r, w')"
  shows "files w' = files w" "orc w' = orc w" "r = None \<or> r = Some s" "(\<And>n. orc w n \<ge> 0) \<Longrightarrow> r = Some s"
  using assms by (auto simp: strdup_def sys_alloc_def ask_def Let_def split: if_splits)

lemma scan_mounts_sound:
  assumes "list_all good_mount ms" "scan_mounts (take k (mounts_text ms)) st w = Some (st', w')"
  shows "known st' \<subseteq> known st \<union> m_dir ` set ms \<and> files w' = files w \<and> (table_ok st \<longrightarrow> table_ok st')"
  using assms
proof (induction ms arbitrary: k st w)
  case (Cons m ms)
  define s where "s = take k (mount_line m @ mounts_text ms)"
  note p = mount_line_prefix [of m, OF _ s_def]
  obtain j where j: "eat_line s = take j (mounts_text ms)" using p Cons.prems(1) by auto
  have r: "scan_mounts s st w = Some (st', w')" using Cons.prems(2) by (simp add: s_def)
  show ?case
  proof (cases "s = []")
    case False
    show ?thesis
    proof (cases "scan_mount (c_string s)")
      case None
      then have "scan_mounts (take j (mounts_text ms)) st w = Some (st', w')"
        using r False j by (simp add: scan_mounts.simps [of s])
      then show ?thesis using Cons.IH [of j st w] Cons.prems(1) by auto
    next
      case (Some q)
      then obtain d f g where q: "scan_mount (c_string s) = Some (d, m_dir m, f, g)" using p Cons.prems(1) by (cases q) auto
      obtain vs where vs: "volumes st = Some vs" "volume_count st < length vs"
        using r False q by (auto simp: scan_mounts.simps [of s] Let_def split: option.splits if_splits)
      obtain d' w1 where d': "strdup d w = (d', w1)" by fastforce
      obtain p' w2 where p': "strdup (m_dir m) w1 = (p', w2)" by fastforce
      obtain f' w3 where f': "strdup f w2 = (f', w3)" by fastforce
      obtain g' w4 where g': "strdup g w3 = (g', w4)" by fastforce
      define st1 where "st1 = st\<lparr>volumes := Some (vs[volume_count st := \<lparr>mv_device = d', mv_mount_point = p', mv_filesystem = f', mv_flags = g'\<rparr>]),
         volume_count := volume_count st + 1\<rparr>"
      have n: "scan_mounts (take j (mounts_text ms)) st1 w4 = Some (st', w')"
        using r False q vs j by (simp add: scan_mounts.simps [of s] d' p' f' g' st1_def Let_def)
      have "known st1 = known st \<union> set_option p'" unfolding st1_def by (subst known_add [OF vs]) simp
      moreover have "set_option p' \<subseteq> {m_dir m}" using strdup_keeps(3) [OF p'] by auto
      moreover have "table_ok st \<Longrightarrow> table_ok st1" using vs by (simp add: table_ok_def st1_def)
      moreover have "files w4 = files w" using strdup_keeps(1) d' p' f' g' by metis
      ultimately show ?thesis using Cons.IH [OF _ n] Cons.prems(1) by auto
    qed
  qed (use r in \<open>auto simp: scan_mounts.simps\<close>)
qed (simp add: scan_mounts.simps)

lemma scan_mounts_complete:
  assumes "list_all good_mount ms" "volumes st = Some vs" "volume_count st + length ms \<le> length vs" "\<And>n. orc w n \<ge> 0"
  shows "\<exists>st' w'. scan_mounts (mounts_text ms) st w = Some (st', w') \<and> known st' = known st \<union> m_dir ` set ms"
  using assms
proof (induction ms arbitrary: st vs w)
  case (Cons m ms)
  define s where "s = mount_line m @ mounts_text ms"
  have q: "scan_mount (c_string s) = Some (m_device m, m_dir m, m_type m, take 127 (m_opts m))" "eat_line s = mounts_text ms" "s \<noteq> []"
    using mount_line_full(1,2) [of m "mounts_text ms"] mount_line_full(3) [of m] Cons.prems(1) by (simp_all add: s_def)
  obtain d' w1 where d': "strdup (m_device m) w = (d', w1)" by fastforce
  obtain p' w2 where p': "strdup (m_dir m) w1 = (p', w2)" by fastforce
  obtain f' w3 where f': "strdup (m_type m) w2 = (f', w3)" by fastforce
  obtain g' w4 where g': "strdup (take 127 (m_opts m)) w3 = (g', w4)" by fastforce
  have o: "orc w1 = orc w" "orc w4 = orc w" using strdup_keeps(2) d' p' f' g' by metis+
  define st1 where "st1 = st\<lparr>volumes := Some (vs[volume_count st := \<lparr>mv_device = d', mv_mount_point = p', mv_filesystem = f', mv_flags = g'\<rparr>]),
     volume_count := volume_count st + 1\<rparr>"
  have n: "scan_mounts s st w = scan_mounts (mounts_text ms) st1 w4"
    using q Cons.prems by (simp add: scan_mounts.simps [of s] d' p' f' g' st1_def Let_def)
  have c: "volume_count st < length vs" using Cons.prems(3) by simp
  have "known st1 = known st \<union> set_option p'" unfolding st1_def by (subst known_add [OF Cons.prems(2) c]) simp
  moreover have "p' = Some (m_dir m)" using strdup_keeps(4) [OF p'] Cons.prems(4) o by simp
  moreover have "\<exists>st' w'. scan_mounts (mounts_text ms) st1 w4 = Some (st', w') \<and> known st' = known st1 \<union> m_dir ` set ms"
    by (rule Cons.IH [where vs = "the (volumes st1)"]) (use Cons.prems o in \<open>auto simp: st1_def\<close>)
  ultimately show ?case using n by (auto simp: s_def)
qed (simp add: scan_mounts.simps)

lemma find_index_None: "find_index P xs = None \<longleftrightarrow> (\<forall>x \<in> set xs. \<not> P x)"
  by (induction xs) auto

lemma find_index_Some: "find_index P xs = Some i \<Longrightarrow> i < length xs \<and> P (xs ! i)"
  by (induction xs arbitrary: i) (auto split: if_splits)

lemma find_volume_None: "find_mounted_volume_by_mount_point d st = None \<longleftrightarrow> d \<notin> known st"
  by (auto simp: find_mounted_volume_by_mount_point_def find_volume_def known_def find_index_None split: option.splits)

lemma find_volume_Some:
  assumes "find_mounted_volume_by_mount_point d st = Some i"
  obtains vs where "volumes st = Some vs" "i < length vs" "i < volume_count st" "mv_mount_point (vs ! i) = Some d"
  using assms
  by (auto simp: find_mounted_volume_by_mount_point_def find_volume_def split: option.splits dest!: find_index_Some)

lemma text_of_bytes [simp]: "text_of (bytes_of s) = s"
proof -
  have "unat (of_nat (of_char c) :: byte) = of_char c" for c
    by (simp add: unsigned_of_nat take_bit_nat_eq_self)
  then show ?thesis by (simp add: text_of_def bytes_of_def comp_def map_idI)
qed

lemma text_of_take: "text_of (take n bs) = take n (text_of bs)"
  by (simp add: text_of_def take_map)

lemma clear_table:
  assumes "table_ok st"
  shows "table_ok (clear_table st)" "known (clear_table st) = {}" "\<exists>vs. volumes (clear_table st) = Some vs \<and> length vs = 32"
    "volume_count (clear_table st) = 0"
  using assms by (auto simp: table_ok_def known_def clear_table_def split: option.splits)

lemma scan_mounted_volumes_sound:
  assumes "scan_mounted_volumes st w = Some (r, st', w')" "table_ok st" "list_all good_mount ms"
    and "file_data w ''/proc/mounts'' = bytes_of (mounts_text ms)"
  shows "files w' = files w" "table_ok st'" "known st' \<subseteq> m_dir ` set ms \<or> r = -1" "r = 0 \<or> r = -1"
proof -
  obtain ok w1 where a: "(if volumes st = None then sys_alloc w else (True, w)) = (ok, w1)" by fastforce
  have w1: "files w1 = files w" using a by (auto simp: sys_alloc_def ask_def split: if_splits)
  obtain f w2 where o: "sys_open False False 0 ''/proc/mounts'' w1 = (f, w2)" by fastforce
  have w2: "files w2 = files w1" "f = Some f' \<Longrightarrow> f' = \<lparr>f_path = ''/proc/mounts'', f_pos = 0\<rparr>" for f'
    using o by (auto simp: sys_open_def ask_def Let_def split: if_splits option.splits)
  note c = clear_table [OF assms(2)]
  have "files w' = files w \<and> table_ok st' \<and> (known st' \<subseteq> m_dir ` set ms \<or> r = -1) \<and> (r = 0 \<or> r = -1)"
  proof (cases "ok \<and> f \<noteq> None")
    case False
    then show ?thesis using assms(1,2) a o w1 w2(1) c by (auto simp: scan_mounted_volumes_def Let_def split: if_splits)
  next
    case True
    then obtain f' where f: "f = Some f'" by auto
    obtain n bs f2 w3 where rd: "sys_read f' 2047 w2 = ((n, bs), f2, w3)" by (metis prod.exhaust)
    define w4 where "w4 = snd (sys_status w3)"
    have w4: "files w4 = files w3" "files w3 = files w2" using rd
      by (auto simp: w4_def sys_status_def ask_def sys_read_def Let_def split: if_splits)
    have r: "(if n < 0 then Some (-1, clear_table st, w4)
        else do { (st, w) \<leftarrow> scan_mounts (text_of bs) (clear_table st) w4; Some (0, st, w) }) = Some (r, st', w')"
      using assms(1) True f rd by (cases "n < 0") (simp_all add: scan_mounted_volumes_def a o w4_def Let_def)
    show ?thesis
    proof (cases "n < 0")
      case True
      then show ?thesis using r w1 w2(1) w4 c by auto
    next
      case False
      then obtain k where "bs = take k (file_data w2 ''/proc/mounts'')"
        using rd w2(2) [OF f] by (auto simp: sys_read_def ask_def Let_def file_data_def split: if_splits)
      then have "text_of bs = take k (mounts_text ms)" using assms(4) w1 w2(1) by (simp add: text_of_take file_data_def)
      then show ?thesis using r False scan_mounts_sound [OF assms(3), of k "clear_table st" w4] w1 w2(1) w4 c
        by (auto split: bind_splits)
    qed
  qed
  then show "files w' = files w" "table_ok st'" "known st' \<subseteq> m_dir ` set ms \<or> r = -1" "r = 0 \<or> r = -1" by auto
qed

lemma scan_mounted_volumes_complete:
  assumes "table_ok st" "list_all good_mount ms" "length ms \<le> 32" "length (mounts_text ms) \<le> 2047"
    and "file_data w ''/proc/mounts'' = bytes_of (mounts_text ms)" "files w ''/proc/mounts'' \<noteq> None"
    and "\<And>n. orc w n \<ge> 2047"
  shows "\<exists>st' w'. scan_mounted_volumes st w = Some (0, st', w') \<and> known st' = m_dir ` set ms"
proof -
  note c = clear_table [OF assms(1)]
  have v: "\<not> orc w n < 0" "0 \<le> orc w n" for n using assms(7) [of n] by auto
  obtain ok w1 where a1: "(if volumes st = None then sys_alloc w else (True, w)) = (ok, w1)" by fastforce
  then have a2: "files w1 = files w" "orc w1 = orc w" "ok" using v by (auto simp: sys_alloc_def ask_def split: if_splits)
  have a: "(if volumes st = None then sys_alloc w else (True, w)) = (True, w1)" using a1 a2(3) by simp
  obtain f w2 where o1: "sys_open False False 0 ''/proc/mounts'' w1 = (f, w2)" by fastforce
  have o2: "f = Some \<lparr>f_path = ''/proc/mounts'', f_pos = 0\<rparr>" "files w2 = files w" "orc w2 = orc w"
    using o1 v assms(6) a2 by (auto simp: sys_open_def ask_def Let_def split: if_splits option.splits)
  note o = o1 [unfolded o2(1)] o2(2,3)
  have fd: "file_data (w2\<lparr>clk := k\<rparr>) ''/proc/mounts'' = bytes_of (mounts_text ms)" for k
    using assms(5) o(2) by (simp add: file_data_def)
  have "length (bytes_of (mounts_text ms)) \<le> min (nat (orc w n)) 2047" for n
    using assms(4) assms(7) [of n] by (simp add: bytes_of_def)
  then have b: "fst (sys_read \<lparr>f_path = ''/proc/mounts'', f_pos = 0\<rparr> 2047 w2) = (int (length (bytes_of (mounts_text ms))), bytes_of (mounts_text ms))"
    using v o(3) by (simp add: sys_read_def ask_def Let_def fd)
  obtain f2 w3 where rd1: "snd (sys_read \<lparr>f_path = ''/proc/mounts'', f_pos = 0\<rparr> 2047 w2) = (f2, w3)" by fastforce
  have rd: "sys_read \<lparr>f_path = ''/proc/mounts'', f_pos = 0\<rparr> 2047 w2 = ((int (length (bytes_of (mounts_text ms))), bytes_of (mounts_text ms)), f2, w3)"
    using b rd1 by (metis prod.collapse)
  then have "orc w3 = orc w" using o(3) by (auto simp: sys_read_def ask_def Let_def split: if_splits)
  moreover define w4 where "w4 = snd (sys_status w3)"
  ultimately have "orc w4 = orc w" by (simp add: w4_def sys_status_def ask_def)
  then obtain st' w' where "scan_mounts (mounts_text ms) (clear_table st) w4 = Some (st', w')" "known st' = m_dir ` set ms"
    using scan_mounts_complete [OF assms(2), of "clear_table st" _ w4] c assms(3) v by auto
  then show ?thesis using a o(1) rd by (simp add: scan_mounted_volumes_def w4_def Let_def)
qed

lemma sys_read_orc: "orc (snd (snd (sys_read f n w))) = orc w"
  by (simp add: sys_read_def ask_def Let_def)

lemma scan_mounts_orc: "scan_mounts s st w = Some (st', w') \<Longrightarrow> orc w' = orc w"
proof (induction s st w rule: scan_mounts.induct)
  case (1 s st w)
  then show ?case
    by (auto simp: scan_mounts.simps [of s] strdup_def sys_alloc_def ask_def Let_def split: if_splits option.splits)
qed

lemma scan_mounted_volumes_orc:
  assumes "scan_mounted_volumes st w = Some (r, st', w')"
  shows "orc w' = orc w"
proof -
  define w1 where "w1 = snd (if volumes st = None then sys_alloc w else (True, w))"
  define w2 where "w2 = snd (sys_open False False 0 ''/proc/mounts'' w1)"
  have o: "orc w1 = orc w" "orc w2 = orc w1"
    by (auto simp: w1_def w2_def sys_alloc_def sys_open_def ask_def Let_def split: option.splits)
  have "orc (snd (sys_status w)) = orc w" for w by (simp add: sys_status_def ask_def)
  then show ?thesis using assms o sys_read_orc [of _ _ w2]
    by (auto simp: scan_mounted_volumes_def Let_def case_prod_beta w1_def [symmetric] w2_def [symmetric] split: if_splits option.splits bind_splits
        dest!: scan_mounts_orc)
qed

end
