(* ===== verification/Vold.thy ===== *)
theory Vold
  imports Os
begin

text \<open>
  The client of the volume daemon (\<open>src/voldclient\<close>): the table of volumes that the event thread
  keeps from the messages of the daemon (\<open>dispatcher.c\<close>), the splitting of a message
  (\<open>event_loop.c\<close>), the text of a command, and the commands (\<open>commands.c\<close>).

  The numbers of the response codes and of the volume states are those of the daemon's headers
  \<open>ResponseCode.h\<close> and \<open>Volume.h\<close>, which are not part of the sources: they are the fields of
  \<open>vold_api\<close>. The result of a command that was sent is the parameter \<open>answer\<close>, a function of the
  number of commands sent before. The callbacks are recorded in the order in which they are called.
  The waiting for a response, with its two threads, is modelled in the theory \<open>Vold_Wait\<close>.
  Directories are not modelled: \<open>vold_mount_volume\<close> creates a mount point that can not be read.
\<close>

section \<open>State\<close>

record vold_api =
  VolumeListResult :: int
  CommandOkay :: int
  VolumeStateChange :: int
  VolumeDiskInserted :: int
  VolumeDiskRemoved :: int
  VolumeBadRemoval :: int
  State_NoMedia :: int
  State_Idle :: int
  State_Mounted :: int
  State_Shared :: int

record volume_node =
  v_label :: string
  v_path :: string
  v_state :: int

datatype callback =
  State_changed string string int
| Disk_added string string
| Disk_removed string string

text \<open>Which functions of \<open>struct vold_callbacks\<close> are set.\<close>

record vold_callbacks =
  has_state_changed :: bool
  has_disk_added :: bool
  has_disk_removed :: bool

record vold =
  volume_list :: "volume_node list"
  num_volumes :: int
  is_listing_volumes :: bool
  should_automount :: bool
  callbacks :: "vold_callbacks option"
  called :: "callback list"
  sent :: "(string \<times> bool) list"

definition vold_init :: vold where
  "vold_init = \<lparr>volume_list = [], num_volumes = 0, is_listing_volumes = False, should_automount = False,
     callbacks = None, called = [], sent = []\<rparr>"

definition vold_set_callbacks :: "vold_callbacks \<Rightarrow> vold \<Rightarrow> vold" where
  "vold_set_callbacks ev_callbacks st = st\<lparr>callbacks := Some ev_callbacks\<rparr>"

definition vold_set_automount :: "bool \<Rightarrow> vold \<Rightarrow> vold" where
  "vold_set_automount automount st = st\<lparr>should_automount := automount\<rparr>"

definition vold_get_volume_state :: "string \<Rightarrow> vold \<Rightarrow> int" where
  "vold_get_volume_state path st =
     (case find (\<lambda>node. strcmp path (v_path node) = 0) (volume_list st) of None \<Rightarrow> 0 | Some node \<Rightarrow> v_state node)"

definition vold_get_num_volumes :: "vold \<Rightarrow> int" where
  "vold_get_num_volumes st = num_volumes st"

definition vold_is_volume_available :: "string \<Rightarrow> vold \<Rightarrow> bool" where
  "vold_is_volume_available path st \<longleftrightarrow> vold_get_volume_state path st > 0"

section \<open>Commands\<close>

text \<open>The text of a command in the buffer of 255 bytes; \<open>None\<close> if it does not fit.\<close>

definition quoted :: "string \<Rightarrow> string" where
  "quoted arg = (if CHR '' '' \<notin> set arg then arg else CHR 0x22 # arg @ [CHR 0x22])"

fun append_args :: "string \<Rightarrow> string list \<Rightarrow> string option" where
  "append_args final_cmd [] = Some final_cmd"
| "append_args final_cmd (arg # args) =
     (let cmp = quoted arg @ (if args = [] then '''' else '' '')
      in if length final_cmd + length cmp \<ge> 255 then None else append_args (final_cmd @ cmp) args)"

text \<open>
  With waiting the result is the code of the response; without, it is 0, or -1 when the command
  could not be written, which a negative answer stands for.
\<close>

definition vold_command :: "(nat \<Rightarrow> int) \<Rightarrow> string list \<Rightarrow> bool \<Rightarrow> vold \<Rightarrow> int \<times> vold" where
  "vold_command answer command wait st =
     (case append_args ''0 '' command of
        None \<Rightarrow> (-1, st)
      | Some final_cmd \<Rightarrow>
          let ret = answer (length (sent st))
          in (if wait then ret else if ret < 0 then -1 else 0, st\<lparr>sent := sent st @ [(final_cmd, wait)]\<rparr>))"

definition vold_update_volumes :: "(nat \<Rightarrow> int) \<Rightarrow> vold \<Rightarrow> int \<times> vold" where
  "vold_update_volumes answer st = vold_command answer [''volume'', ''list''] True st"

definition vold_mount_volume :: "vold_api \<Rightarrow> (nat \<Rightarrow> int) \<Rightarrow> string \<Rightarrow> bool \<Rightarrow> vold \<Rightarrow> int \<times> vold" where
  "vold_mount_volume api answer path wait st =
     (let state = vold_get_volume_state path st
      in if state = State_Mounted api then (0, st)
         else if state \<noteq> State_Idle api then (-1, st)
         else vold_command answer [''volume'', ''mount'', path] wait st)"

definition vold_unmount_volume :: "vold_api \<Rightarrow> (nat \<Rightarrow> int) \<Rightarrow> string \<Rightarrow> bool \<Rightarrow> bool \<Rightarrow> vold \<Rightarrow> int \<times> vold" where
  "vold_unmount_volume api answer path force wait st =
     (let state = vold_get_volume_state path st
      in if state \<le> State_Idle api then (0, st)
         else if state \<noteq> State_Mounted api then (-1, st)
         else vold_command answer ([''volume'', ''unmount'', path] @ (if force then [''force''] else [])) wait st)"

definition vold_share_volume :: "vold_api \<Rightarrow> (nat \<Rightarrow> int) \<Rightarrow> string \<Rightarrow> vold \<Rightarrow> int \<times> vold" where
  "vold_share_volume api answer path st =
     (let st = (if vold_get_volume_state path st = State_Mounted api
                then snd (vold_unmount_volume api answer path False True st) else st)
      in vold_command answer [''volume'', ''share'', path, ''ums''] True st)"

definition vold_unshare_volume :: "vold_api \<Rightarrow> (nat \<Rightarrow> int) \<Rightarrow> string \<Rightarrow> bool \<Rightarrow> vold \<Rightarrow> int \<times> vold" where
  "vold_unshare_volume api answer path mount st =
     (if vold_get_volume_state path st \<noteq> State_Shared api then (0, st)
      else let (ret, st) = vold_command answer [''volume'', ''unshare'', path, ''ums''] True st;
               st = (if mount then snd (vold_mount_volume api answer path True st) else st)
           in (ret, st))"

definition vold_format_volume :: "(nat \<Rightarrow> int) \<Rightarrow> string \<Rightarrow> bool \<Rightarrow> vold \<Rightarrow> int \<times> vold" where
  "vold_format_volume answer path wait st = vold_command answer [''volume'', ''format'', path] wait st"

definition vold_custom_format_volume :: "(nat \<Rightarrow> int) \<Rightarrow> string \<Rightarrow> string \<Rightarrow> bool \<Rightarrow> vold \<Rightarrow> int \<times> vold" where
  "vold_custom_format_volume answer path fstype wait st =
     vold_command answer [''volume'', ''format'', path, fstype] wait st"

text \<open>The loops over all volumes.\<close>

definition vold_mount_all :: "vold_api \<Rightarrow> (nat \<Rightarrow> int) \<Rightarrow> vold \<Rightarrow> vold" where
  "vold_mount_all api answer st =
     fold (\<lambda>node st. if v_state node = State_Idle api then snd (vold_mount_volume api answer (v_path node) False st) else st)
       (volume_list st) st"

definition vold_unmount_all :: "vold_api \<Rightarrow> (nat \<Rightarrow> int) \<Rightarrow> vold \<Rightarrow> vold" where
  "vold_unmount_all api answer st =
     fold (\<lambda>node st.
         let st = (if v_state node \<ge> State_Shared api then snd (vold_unshare_volume api answer (v_path node) False st) else st)
         in if v_state node = State_Mounted api then snd (vold_unmount_volume api answer (v_path node) True True st) else st)
       (volume_list st) st"

section \<open>Events\<close>

text \<open>A failed allocation is dereferenced.\<close>

definition vold_handle_volume_list :: "bool \<Rightarrow> string \<Rightarrow> string \<Rightarrow> int \<Rightarrow> vold \<Rightarrow> vold option" where
  "vold_handle_volume_list ok label path state st =
     (let st = (if \<not> is_listing_volumes st
                then st\<lparr>volume_list := [], num_volumes := 0, is_listing_volumes := True\<rparr> else st)
      in if \<not> ok then None
         else Some (st\<lparr>volume_list := volume_list st @ [\<lparr>v_label = label, v_path = path, v_state = state\<rparr>],
                       num_volumes := num_volumes st + 1\<rparr>))"

definition vold_handle_volume_list_done :: "vold \<Rightarrow> vold" where
  "vold_handle_volume_list_done st = st\<lparr>is_listing_volumes := False\<rparr>"

fun set_state :: "string \<Rightarrow> int \<Rightarrow> volume_node list \<Rightarrow> volume_node list" where
  "set_state path state [] = []"
| "set_state path state (node # nodes) =
     (if strcmp (v_path node) path = 0 then node\<lparr>v_state := state\<rparr> # nodes else node # set_state path state nodes)"

definition set_volume_state :: "string \<Rightarrow> int \<Rightarrow> vold \<Rightarrow> vold" where
  "set_volume_state path state st = st\<lparr>volume_list := set_state path state (volume_list st)\<rparr>"

definition notify :: "(vold_callbacks \<Rightarrow> bool) \<Rightarrow> callback \<Rightarrow> vold \<Rightarrow> vold" where
  "notify is_set cb st =
     (case callbacks st of
        None \<Rightarrow> st
      | Some cbs \<Rightarrow> if is_set cbs then st\<lparr>called := called st @ [cb]\<rparr> else st)"

definition vold_handle_volume_state_change :: "string \<Rightarrow> string \<Rightarrow> int \<Rightarrow> vold \<Rightarrow> vold" where
  "vold_handle_volume_state_change label path state st =
     notify has_state_changed (State_changed label path state) (set_volume_state path state st)"

definition vold_handle_volume_inserted :: "vold_api \<Rightarrow> (nat \<Rightarrow> int) \<Rightarrow> string \<Rightarrow> string \<Rightarrow> vold \<Rightarrow> vold" where
  "vold_handle_volume_inserted api answer label path st =
     (let st = set_volume_state path (State_Idle api) st;
          st = notify has_disk_added (Disk_added label path) st
      in if should_automount st then snd (vold_mount_volume api answer path False st) else st)"

definition vold_handle_volume_removed :: "vold_api \<Rightarrow> string \<Rightarrow> string \<Rightarrow> vold \<Rightarrow> vold" where
  "vold_handle_volume_removed api label path st =
     notify has_disk_removed (Disk_removed label path) (set_volume_state path (State_NoMedia api) st)"

definition atoi :: "string \<Rightarrow> int" where
  "atoi s = fst (strtol s)"

text \<open>A token that the message does not have, or that could not be copied, is a null pointer.\<close>

definition token :: "string option list \<Rightarrow> nat \<Rightarrow> string option" where
  "token tokens i = do { t \<leftarrow> rd tokens i; t }"

definition vold_dispatch ::
  "vold_api \<Rightarrow> (nat \<Rightarrow> int) \<Rightarrow> bool \<Rightarrow> int \<Rightarrow> string option list \<Rightarrow> vold \<Rightarrow> vold option" where
  "vold_dispatch api answer ok code tokens st =
     (if code = VolumeListResult api
      then do { l \<leftarrow> token tokens 2; p \<leftarrow> token tokens 3; s \<leftarrow> token tokens 4; vold_handle_volume_list ok l p (atoi s) st }
      else if code = VolumeStateChange api
      then do { l \<leftarrow> token tokens 2; p \<leftarrow> token tokens 3; s \<leftarrow> token tokens 10; Some (vold_handle_volume_state_change l p (atoi s) st) }
      else if code = VolumeDiskInserted api
      then do { l \<leftarrow> token tokens 2; p \<leftarrow> token tokens 3; Some (vold_handle_volume_inserted api answer l p st) }
      else if code = VolumeDiskRemoved api \<or> code = VolumeBadRemoval api
      then do { l \<leftarrow> token tokens 2; p \<leftarrow> token tokens 3; Some (vold_handle_volume_removed api l p st) }
      else if code = CommandOkay api \<and> is_listing_volumes st then Some (vold_handle_volume_list_done st)
      else Some st)"

text \<open>The tokens of a message; there is room for 32. \<open>mem\<close> tells which of the allocations succeed.\<close>

function split_tokens :: "string \<Rightarrow> string list" where
  "split_tokens str = (case strtok '' '' str of None \<Rightarrow> [] | Some (p, str) \<Rightarrow> p # split_tokens str)"
  by pat_completeness auto
termination
proof (relation "measure length")
  fix str x a b assume "strtok '' '' str = Some x" "(a, b) = x"
  then have "length b < length (dropWhile (\<lambda>c. c \<in> set '' '') str)"
    using length_dropWhile_le [of "\<lambda>c. c \<notin> set '' ''" "dropWhile (\<lambda>c. c \<in> set '' '') str"]
    by (cases "dropWhile (\<lambda>c. c \<in> set '' '') str") (auto simp: strtok_def Let_def split: if_splits)
  also have "\<dots> \<le> length str" by (rule length_dropWhile_le)
  finally show "(b, str) \<in> measure length" by simp
qed simp

declare split_tokens.simps [simp del]

definition split :: "(nat \<Rightarrow> bool) \<Rightarrow> string \<Rightarrow> string option list option" where
  "split mem str =
     (let ts = split_tokens str
      in if length ts > 32 then None else Some (map (\<lambda>(i, t). if mem i then Some t else None) (enumerate 0 ts)))"

definition handle_response ::
  "vold_api \<Rightarrow> (nat \<Rightarrow> int) \<Rightarrow> (nat \<Rightarrow> bool) \<Rightarrow> bool \<Rightarrow> string \<Rightarrow> vold \<Rightarrow> (int \<times> vold) option" where
  "handle_response api answer mem ok response st = do {
     tokens \<leftarrow> split mem response;
     t \<leftarrow> token tokens 0;
     let code = atoi t;
     st \<leftarrow> vold_dispatch api answer ok code tokens st;
     Some (code, st)
   }"

section \<open>The table follows the messages\<close>

text \<open>The messages of the daemon, as the comments in \<open>vold_dispatch\<close> document them.\<close>

datatype event =
  Listed string string int
| Completed
| Changed string string int string int string
| Inserted string string string
| Removed string string string
| BadlyRemoved string string string

definition event_tokens :: "vold_api \<Rightarrow> event \<Rightarrow> string list" where
  "event_tokens api e =
     (case e of
        Listed l p s \<Rightarrow> [show_int (VolumeListResult api), ''0'', l, p, show_int s]
      | Completed \<Rightarrow> [show_int (CommandOkay api), ''0'', ''Volumes'', ''listed.'']
      | Changed l p old old_text new new_text \<Rightarrow>
          [show_int (VolumeStateChange api), ''Volume'', l, p, ''state'', ''changed'', ''from'', show_int old, old_text,
           ''to'', show_int new, new_text]
      | Inserted l p blk \<Rightarrow> [show_int (VolumeDiskInserted api), ''Volume'', l, p, ''disk'', ''inserted'', blk]
      | Removed l p blk \<Rightarrow> [show_int (VolumeDiskRemoved api), ''Volume'', l, p, ''disk'', ''removed'', blk]
      | BadlyRemoved l p blk \<Rightarrow> [show_int (VolumeBadRemoval api), ''Volume'', l, p, ''disk'', ''removed'', blk])"

fun unwords :: "string list \<Rightarrow> string" where
  "unwords [] = ''''"
| "unwords [t] = t"
| "unwords (t # ts) = t @ CHR '' '' # unwords ts"

definition word :: "string \<Rightarrow> bool" where
  "word t \<longleftrightarrow> t \<noteq> [] \<and> CHR '' '' \<notin> set t"

definition is_int :: "int \<Rightarrow> bool" where
  "is_int i \<longleftrightarrow> LONG_MIN \<le> i \<and> i \<le> LONG_MAX"

fun proper_event :: "event \<Rightarrow> bool" where
  "proper_event (Listed l p s) \<longleftrightarrow> word l \<and> word p \<and> is_int s"
| "proper_event Completed \<longleftrightarrow> True"
| "proper_event (Changed l p old old_text new new_text) \<longleftrightarrow>
     word l \<and> word p \<and> word old_text \<and> word new_text \<and> is_int old \<and> is_int new"
| "proper_event (Inserted l p blk) \<longleftrightarrow> word l \<and> word p \<and> word blk"
| "proper_event (Removed l p blk) \<longleftrightarrow> word l \<and> word p \<and> word blk"
| "proper_event (BadlyRemoved l p blk) \<longleftrightarrow> word l \<and> word p \<and> word blk"

definition api_ok :: "vold_api \<Rightarrow> bool" where
  "api_ok api \<longleftrightarrow>
     distinct [VolumeListResult api, CommandOkay api, VolumeStateChange api, VolumeDiskInserted api, VolumeDiskRemoved api,
       VolumeBadRemoval api] \<and>
     list_all is_int [VolumeListResult api, CommandOkay api, VolumeStateChange api, VolumeDiskInserted api, VolumeDiskRemoved api,
       VolumeBadRemoval api]"

text \<open>The state of a path, as a map, and whether a listing is going on.\<close>

fun follow :: "vold_api \<Rightarrow> event \<Rightarrow> (string \<rightharpoonup> int) \<times> bool \<Rightarrow> (string \<rightharpoonup> int) \<times> bool" where
  "follow api (Listed l p s) (m, listing) =
     (let m = (if listing then m else Map.empty) in (if m p = None then m(p \<mapsto> s) else m, True))"
| "follow api Completed (m, listing) = (m, False)"
| "follow api (Changed l p old old_text new new_text) (m, listing) = (if m p = None then m else m(p \<mapsto> new), listing)"
| "follow api (Inserted l p blk) (m, listing) = (if m p = None then m else m(p \<mapsto> State_Idle api), listing)"
| "follow api (Removed l p blk) (m, listing) = (if m p = None then m else m(p \<mapsto> State_NoMedia api), listing)"
| "follow api (BadlyRemoved l p blk) (m, listing) = (if m p = None then m else m(p \<mapsto> State_NoMedia api), listing)"

definition table_of :: "volume_node list \<Rightarrow> string \<rightharpoonup> int" where
  "table_of nodes = map_of (map (\<lambda>n. (v_path n, v_state n)) nodes)"

definition abs_vold :: "vold \<Rightarrow> (string \<rightharpoonup> int) \<times> bool" where
  "abs_vold st = (table_of (volume_list st), is_listing_volumes st)"

fun handle_all :: "vold_api \<Rightarrow> (nat \<Rightarrow> int) \<Rightarrow> string list \<Rightarrow> vold \<Rightarrow> vold option" where
  "handle_all api answer [] st = Some st"
| "handle_all api answer (r # rs) st = do { (_, st) \<leftarrow> handle_response api answer (\<lambda>_. True) True r st; handle_all api answer rs st }"

lemma split_tokens_unwords: "list_all word ts \<Longrightarrow> split_tokens (unwords ts) = ts"
proof (induction ts rule: unwords.induct)
  case (2 t)
  then obtain c cs where t: "t = c # cs" "c \<noteq> CHR '' ''" "CHR '' '' \<notin> set cs" by (cases t) (auto simp: word_def)
  have "takeWhile (\<lambda>c. c \<noteq> CHR '' '') t = t" "dropWhile (\<lambda>c. c \<noteq> CHR '' '') t = []" using t by auto
  moreover have "dropWhile (\<lambda>c. c = CHR '' '') t = t" "t \<noteq> []" using t by simp_all
  ultimately have "strtok '' '' t = Some (t, [])" by (simp add: strtok_def Let_def dropWhile_eq_Nil_conv [THEN iffD2])
  then show ?case by (simp add: split_tokens.simps [of t] split_tokens.simps [of "[]"] strtok_def)
next
  case (3 t u us)
  then obtain c cs where t: "t = c # cs" "c \<noteq> CHR '' ''" "CHR '' '' \<notin> set cs" by (cases t) (auto simp: word_def)
  define r where "r = unwords (u # us)"
  have "takeWhile (\<lambda>c. c \<noteq> CHR '' '') (t @ CHR '' '' # r) = t"
    "dropWhile (\<lambda>c. c \<noteq> CHR '' '') (t @ CHR '' '' # r) = CHR '' '' # r"
    using t by (auto simp: takeWhile_append dropWhile_append)
  then have "strtok '' '' (t @ CHR '' '' # r) = Some (t, r)" using t by (simp add: strtok_def Let_def)
  then have "split_tokens (t @ CHR '' '' # r) = t # split_tokens r" by (simp add: split_tokens.simps [of "t @ CHR '' '' # r"])
  then show ?case using 3 by (simp add: r_def)
qed (simp add: split_tokens.simps strtok_def)

lemma word_show_int: "word (show_int i)"
proof -
  have d: "c \<noteq> CHR '' ''" if "is_digit c" for c using digit_not_space [OF that] by (auto simp: is_space_def)
  have "CHR '' '' \<notin> set (nat_digits n)" for n using nat_digits_digits [of n] d by (fastforce simp: list_all_iff)
  then show ?thesis using show_int_nonempty [of i] by (simp add: word_def show_int_def)
qed

lemma word_texts [simp]:
  "word ''0''" "word ''Volumes''" "word ''listed.''" "word ''Volume''" "word ''state''" "word ''changed''" "word ''from''"
  "word ''to''" "word ''disk''" "word ''inserted''" "word ''removed''"
  by (simp_all add: word_def)

lemma split_event:
  assumes "proper_event e"
  shows "split (\<lambda>_. True) (unwords (event_tokens api e)) = Some (map Some (event_tokens api e))"
proof -
  have "list_all word (event_tokens api e)" "length (event_tokens api e) \<le> 32"
    using assms by (cases e; simp add: event_tokens_def word_show_int)+
  moreover have "map (\<lambda>(i, t). Some t) (enumerate n ts) = map Some ts" for n and ts :: "string list"
    by (induction ts arbitrary: n) simp_all
  ultimately show ?thesis by (simp add: split_def split_tokens_unwords)
qed

lemma atoi_show_int: "is_int i \<Longrightarrow> atoi (show_int i) = i"
  by (simp add: atoi_def is_int_def strtol_show_int)

lemma table_of_append: "table_of (ns @ [n]) = (if table_of ns (v_path n) = None then (table_of ns)(v_path n \<mapsto> v_state n) else table_of ns)"
  by (auto simp: table_of_def map_add_def fun_eq_iff split: option.splits)

lemma table_of_set_state: "table_of (set_state p s ns) = (if table_of ns p = None then table_of ns else (table_of ns)(p \<mapsto> s))"
  by (induction ns) (auto simp: table_of_def fun_eq_iff)

lemma find_table_of: "find (\<lambda>node. path = v_path node) ns = None \<longleftrightarrow> table_of ns path = None"
  "find (\<lambda>node. path = v_path node) ns = Some n \<Longrightarrow> table_of ns path = Some (v_state n)"
  by (induction ns) (auto simp: table_of_def split: if_splits)

lemma volume_state_table: "vold_get_volume_state path st = (case table_of (volume_list st) path of None \<Rightarrow> 0 | Some s \<Rightarrow> s)"
  using find_table_of [of path "volume_list st"] by (auto simp: vold_get_volume_state_def split: option.splits)

lemma notify_keeps [simp]:
  "volume_list (notify g cb st) = volume_list st" "is_listing_volumes (notify g cb st) = is_listing_volumes st"
  by (auto simp: notify_def split: option.splits)

lemma command_keeps [simp]:
  "volume_list (snd (vold_command answer c wait st)) = volume_list st"
  "is_listing_volumes (snd (vold_command answer c wait st)) = is_listing_volumes st"
  by (auto simp: vold_command_def Let_def split: option.splits)

lemma mount_keeps [simp]:
  "volume_list (snd (vold_mount_volume api answer path wait st)) = volume_list st"
  "is_listing_volumes (snd (vold_mount_volume api answer path wait st)) = is_listing_volumes st"
  by (auto simp: vold_mount_volume_def Let_def)

lemma handle_response_event:
  assumes "proper_event e" "is_int c" "hd (event_tokens api e) = show_int c" "event_tokens api e \<noteq> []"
  shows "handle_response api answer (\<lambda>_. True) True (unwords (event_tokens api e)) st =
    map_option (Pair c) (vold_dispatch api answer True c (map Some (event_tokens api e)) st)"
  using assms by (cases "vold_dispatch api answer True c (map Some (event_tokens api e)) st")
    (auto simp: handle_response_def split_event token_def rd_def hd_conv_nth atoi_show_int)

lemma set_volume_state_abs:
  "abs_vold (set_volume_state p s st) =
    (if fst (abs_vold st) p = None then fst (abs_vold st) else (fst (abs_vold st))(p \<mapsto> s), snd (abs_vold st))"
  by (simp add: abs_vold_def set_volume_state_def table_of_set_state)

lemma abs_vold_keeps [simp]: "abs_vold (notify g cb st) = abs_vold st" "abs_vold (snd (vold_mount_volume api answer path wait st)) = abs_vold st"
  by (simp_all add: abs_vold_def)

lemma api_ok_codes:
  assumes "api_ok api"
  shows "CommandOkay api \<noteq> VolumeListResult api" "VolumeStateChange api \<noteq> VolumeListResult api"
    "VolumeDiskInserted api \<noteq> VolumeListResult api" "VolumeDiskInserted api \<noteq> VolumeStateChange api"
    "VolumeDiskRemoved api \<noteq> VolumeListResult api" "VolumeDiskRemoved api \<noteq> VolumeStateChange api"
    "VolumeDiskRemoved api \<noteq> VolumeDiskInserted api"
    "VolumeBadRemoval api \<noteq> VolumeListResult api" "VolumeBadRemoval api \<noteq> VolumeStateChange api"
    "VolumeBadRemoval api \<noteq> VolumeDiskInserted api"
  using assms by (auto simp: api_ok_def)

lemma handle_event:
  assumes "api_ok api" "proper_event e"
  shows "\<exists>c st'. handle_response api answer (\<lambda>_. True) True (unwords (event_tokens api e)) st = Some (c, st') \<and>
    abs_vold st' = follow api e (abs_vold st)"
proof (cases e)
  case (Listed l p s)
  have "handle_response api answer (\<lambda>_. True) True (unwords (event_tokens api e)) st =
      map_option (Pair (VolumeListResult api)) (vold_dispatch api answer True (VolumeListResult api) (map Some (event_tokens api e)) st)"
    using assms by (intro handle_response_event) (auto simp: Listed event_tokens_def api_ok_def)
  then show ?thesis using assms Listed
    by (cases "is_listing_volumes st")
       (auto simp: vold_dispatch_def event_tokens_def token_def rd_def atoi_show_int vold_handle_volume_list_def abs_vold_def
          table_of_append Let_def, auto simp: table_of_def)
next
  case Completed
  have "handle_response api answer (\<lambda>_. True) True (unwords (event_tokens api e)) st =
      map_option (Pair (CommandOkay api)) (vold_dispatch api answer True (CommandOkay api) (map Some (event_tokens api e)) st)"
    using assms by (intro handle_response_event) (auto simp: Completed event_tokens_def api_ok_def)
  then show ?thesis using assms(1) Completed
    by (auto simp: vold_dispatch_def api_ok_def vold_handle_volume_list_done_def abs_vold_def)
next
  case (Changed l p old old_text new new_text)
  have "handle_response api answer (\<lambda>_. True) True (unwords (event_tokens api e)) st =
      map_option (Pair (VolumeStateChange api)) (vold_dispatch api answer True (VolumeStateChange api) (map Some (event_tokens api e)) st)"
    using assms by (intro handle_response_event) (auto simp: Changed event_tokens_def api_ok_def)
  then show ?thesis using assms Changed set_volume_state_abs [of p new st]
    by (simp add: vold_dispatch_def event_tokens_def token_def rd_def atoi_show_int api_ok_codes vold_handle_volume_state_change_def)
       (cases "abs_vold st", simp)
next
  case (Inserted l p blk)
  have "handle_response api answer (\<lambda>_. True) True (unwords (event_tokens api e)) st =
      map_option (Pair (VolumeDiskInserted api)) (vold_dispatch api answer True (VolumeDiskInserted api) (map Some (event_tokens api e)) st)"
    using assms by (intro handle_response_event) (auto simp: Inserted event_tokens_def api_ok_def)
  then show ?thesis using assms Inserted set_volume_state_abs [of p "State_Idle api" st]
    by (simp add: vold_dispatch_def event_tokens_def token_def rd_def api_ok_codes vold_handle_volume_inserted_def Let_def)
       (cases "abs_vold st", simp)
next
  case (Removed l p blk)
  have "handle_response api answer (\<lambda>_. True) True (unwords (event_tokens api e)) st =
      map_option (Pair (VolumeDiskRemoved api)) (vold_dispatch api answer True (VolumeDiskRemoved api) (map Some (event_tokens api e)) st)"
    using assms by (intro handle_response_event) (auto simp: Removed event_tokens_def api_ok_def)
  then show ?thesis using assms Removed set_volume_state_abs [of p "State_NoMedia api" st]
    by (simp add: vold_dispatch_def event_tokens_def token_def rd_def api_ok_codes vold_handle_volume_removed_def)
       (cases "abs_vold st", simp)
next
  case (BadlyRemoved l p blk)
  have "handle_response api answer (\<lambda>_. True) True (unwords (event_tokens api e)) st =
      map_option (Pair (VolumeBadRemoval api)) (vold_dispatch api answer True (VolumeBadRemoval api) (map Some (event_tokens api e)) st)"
    using assms by (intro handle_response_event) (auto simp: BadlyRemoved event_tokens_def api_ok_def)
  then show ?thesis using assms BadlyRemoved set_volume_state_abs [of p "State_NoMedia api" st]
    by (simp add: vold_dispatch_def event_tokens_def token_def rd_def api_ok_codes vold_handle_volume_removed_def)
       (cases "abs_vold st", simp)
qed

text \<open>
  C29. The table of volumes follows the daemon: whatever documented messages arrive, in any order,
  handling them is defined, and looking up the state of a path then gives what the same messages
  make of a map from paths to states (0 for a path that is not listed). A listing replaces the
  table, changes of paths that are not listed are ignored, a disk that was removed, properly or not,
  has no media, and automatic mounting does not touch the table.
\<close>

theorem vold_table_refines_map:
  assumes "api_ok api" "list_all proper_event es"
  shows "\<exists>st'. handle_all api answer (map (\<lambda>e. unwords (event_tokens api e)) es) st = Some st' \<and>
    abs_vold st' = fold (follow api) es (abs_vold st) \<and>
    (\<forall>path. vold_get_volume_state path st' =
      (case fst (fold (follow api) es (abs_vold st)) path of None \<Rightarrow> 0 | Some s \<Rightarrow> s))"
proof -
  have "\<exists>st'. handle_all api answer (map (\<lambda>e. unwords (event_tokens api e)) es) st = Some st' \<and>
      abs_vold st' = fold (follow api) es (abs_vold st)"
    using assms(2)
  proof (induction es arbitrary: st)
    case (Cons e es)
    then obtain c st1 where "handle_response api answer (\<lambda>_. True) True (unwords (event_tokens api e)) st = Some (c, st1)"
      "abs_vold st1 = follow api e (abs_vold st)" using handle_event [OF assms(1), of e answer st] by auto
    then show ?case using Cons.IH [of st1] Cons.prems by simp
  qed simp
  then show ?thesis by (metis abs_vold_def fst_conv volume_state_table)
qed

definition demo_api :: vold_api where
  "demo_api = \<lparr>VolumeListResult = 110, CommandOkay = 200, VolumeStateChange = 605, VolumeDiskInserted = 630,
     VolumeDiskRemoved = 631, VolumeBadRemoval = 632, State_NoMedia = 0, State_Idle = 1, State_Mounted = 4, State_Shared = 7\<rparr>"

definition demo_events :: "event list" where
  "demo_events = [Listed ''sdcard0'' ''/storage/sdcard0'' 1, Listed ''usb'' ''/storage/usb'' 0, Completed,
     Inserted ''usb'' ''/storage/usb'' ''(8:0)'', Changed ''sdcard0'' ''/storage/sdcard0'' 1 ''(Idle)'' 4 ''(Mounted)'',
     BadlyRemoved ''usb'' ''/storage/usb'' ''(8:0)'']"

theorem vold_table_refines_map_witness:
  "\<exists>st'. handle_all demo_api (\<lambda>_. 200) (map (\<lambda>e. unwords (event_tokens demo_api e)) demo_events) vold_init = Some st' \<and>
    vold_get_volume_state ''/storage/sdcard0'' st' = 4 \<and> vold_get_volume_state ''/storage/usb'' st' = 0 \<and>
    vold_get_volume_state ''/data'' st' = 0"
proof -
  have "api_ok demo_api" by (simp add: api_ok_def demo_api_def is_int_def LONG_MIN_def LONG_MAX_def)
  moreover have "list_all proper_event demo_events"
    by (simp add: demo_events_def word_def is_int_def LONG_MIN_def LONG_MAX_def)
  moreover have "fst (fold (follow demo_api) demo_events (abs_vold vold_init)) =
      [''/storage/sdcard0'' \<mapsto> 4, ''/storage/usb'' \<mapsto> 0]"
    by (simp add: demo_events_def abs_vold_def vold_init_def table_of_def demo_api_def fun_eq_iff)
  ultimately show ?thesis
    using vold_table_refines_map [of demo_api demo_events "\<lambda>_. 200" vold_init] by auto
qed

end
