(* ===== verification/Roots.thy ===== *)
theory Roots
  imports Mounts Vold
begin

text \<open>
  Volumes and mounting (\<open>src/roots.c\<close>): the volume table, the storage paths, and making sure that
  the volume of a path is mounted or unmounted.

  The volume table is read and searched by the library \<open>fs_mgr\<close>, other file systems than those
  known to the code are mounted by a shell command, and removable volumes by the volume daemon.
  These are the fields of \<open>plat\<close>; the latter two tell the new table of mounts. Directories and
  symbolic links are not modelled: \<open>mkdir\<close>, \<open>rmdir\<close> and \<open>symlink\<close> only have a status.
\<close>

section \<open>State\<close>

text \<open>The fields of \<open>struct fstab_rec\<close> that are used.\<close>

record Volume =
  blk_device :: "string option"
  blk_device2 :: "string option"
  mount_point :: string
  fs_type :: string
  fs_type2 :: "string option"
  fs_options :: "string option"
  fs_options2 :: "string option"
  label :: string

record plat =
  fs_mgr_read_fstab :: "string \<Rightarrow> os \<Rightarrow> Volume list option"
  fs_mgr_add_entry :: "Volume list \<Rightarrow> string \<Rightarrow> string \<Rightarrow> string \<Rightarrow> Volume list option"
  fs_mgr_get_entry_for_mount_point :: "Volume list option \<Rightarrow> string \<Rightarrow> Volume option"
  fs_mgr_is_voldmanaged :: "Volume \<Rightarrow> bool"
  p_system :: "string \<Rightarrow> nat \<Rightarrow> mount list \<Rightarrow> int \<times> mount list"
  p_api :: vold_api
  p_answer :: "nat \<Rightarrow> int"
  p_vold :: "string \<Rightarrow> int \<Rightarrow> mount list \<Rightarrow> mount list"

record roots =
  r_sys :: sys
  r_mtd :: MtdState
  r_mounts :: MountsState
  r_vold :: vold
  fstab :: "Volume list option"
  primary_storage_path :: "string option"
  android_secure_path :: "string option"
  data_media_preserved_state :: int

section \<open>Volumes\<close>

definition get_num_volumes :: "roots \<Rightarrow> nat option" where
  "get_num_volumes st = do { vs \<leftarrow> fstab st; Some (length vs) }"

definition get_device_volumes :: "roots \<Rightarrow> Volume list option" where
  "get_device_volumes st = fstab st"

text \<open>Removable volumes with the mount point \<open>auto\<close> get one from their label.\<close>

definition auto_mount_point :: "plat \<Rightarrow> Volume \<Rightarrow> Volume" where
  "auto_mount_point P v =
     (if fs_mgr_is_voldmanaged P v \<and> strcmp (mount_point v) ''auto'' = 0
      then v\<lparr>mount_point := take 4095 (''/storage/'' @ label v)\<rparr> else v)"

definition load_volume_table :: "plat \<Rightarrow> roots \<Rightarrow> roots" where
  "load_volume_table P st =
     (case fs_mgr_read_fstab P ''/etc/recovery.fstab'' (s_os (r_sys st)) of
        None \<Rightarrow> st\<lparr>fstab := None\<rparr>
      | Some vs \<Rightarrow>
          (case fs_mgr_add_entry P vs ''/tmp'' ''ramdisk'' ''ramdisk'' of
             None \<Rightarrow> st\<lparr>fstab := None\<rparr>
           | Some vs \<Rightarrow> st\<lparr>fstab := Some (map (auto_mount_point P) vs)\<rparr>))"

definition volume_for_path :: "plat \<Rightarrow> string \<Rightarrow> roots \<Rightarrow> Volume option" where
  "volume_for_path P path st = fs_mgr_get_entry_for_mount_point P (fstab st) path"

definition is_primary_storage_voldmanaged :: "plat \<Rightarrow> roots \<Rightarrow> bool option" where
  "is_primary_storage_voldmanaged P st = do {
     v \<leftarrow> volume_for_path P ''/storage/sdcard0'' st;
     Some (fs_mgr_is_voldmanaged P v)
   }"

definition get_primary_storage_path :: "plat \<Rightarrow> roots \<Rightarrow> string \<times> roots" where
  "get_primary_storage_path P st =
     (case primary_storage_path st of
        Some path \<Rightarrow> (path, st)
      | None \<Rightarrow>
          let path = (if volume_for_path P ''/storage/sdcard0'' st \<noteq> None then ''/storage/sdcard0'' else ''/sdcard'')
          in (path, st\<lparr>primary_storage_path := Some path\<rparr>))"

definition is_extra :: "plat \<Rightarrow> string \<Rightarrow> roots \<Rightarrow> Volume \<Rightarrow> bool" where
  "is_extra P primary st v \<longleftrightarrow>
     strcmp ''/external_sd'' (mount_point v) = 0 \<or>
     strcmp primary (mount_point v) \<noteq> 0 \<and> fs_mgr_is_voldmanaged P v \<and> vold_is_volume_available (mount_point v) (r_vold st)"

text \<open>The primary path is only asked for when there is another volume than \<open>/external_sd\<close>.\<close>

definition extra_volumes :: "plat \<Rightarrow> Volume list \<Rightarrow> roots \<Rightarrow> Volume list \<times> roots" where
  "extra_volumes P vs st =
     (if list_all (\<lambda>v. strcmp ''/external_sd'' (mount_point v) = 0) vs then (vs, st)
      else let (primary, st) = get_primary_storage_path P st in (filter (is_extra P primary st) vs, st))"

definition get_num_extra_volumes :: "plat \<Rightarrow> roots \<Rightarrow> (nat \<times> roots) option" where
  "get_num_extra_volumes P st = do {
     vs \<leftarrow> fstab st;
     let (extra, st) = extra_volumes P vs st;
     Some (length extra, st)
   }"

text \<open>The result array has ten entries, the last one for the terminating null pointer.\<close>

definition get_extra_storage_paths :: "plat \<Rightarrow> roots \<Rightarrow> (string list option \<times> roots) option" where
  "get_extra_storage_paths P st = do {
     (num, st) \<leftarrow> get_num_extra_volumes P st;
     if num = 0 then Some (None, st)
     else do {
       vs \<leftarrow> fstab st;
       let (extra, st) = extra_volumes P vs st;
       if length extra \<ge> 10 then None else Some (Some (map mount_point extra), st)
     }
   }"

definition get_android_secure_path :: "plat \<Rightarrow> roots \<Rightarrow> string \<times> roots" where
  "get_android_secure_path P st =
     (case android_secure_path st of
        Some path \<Rightarrow> (path, st)
      | None \<Rightarrow>
          let (primary, st) = get_primary_storage_path P st; path = primary @ ''/.android_secure''
          in (path, st\<lparr>android_secure_path := Some path\<rparr>))"

fun data_media_loop :: "plat \<Rightarrow> bool \<Rightarrow> Volume list \<Rightarrow> bool" where
  "data_media_loop P has_sdcard [] = (\<not> has_sdcard)"
| "data_media_loop P has_sdcard (vol # vs) =
     (if strcmp (fs_type vol) ''datamedia'' = 0 then True
      else data_media_loop P (has_sdcard \<or> strcmp (mount_point vol) ''/sdcard'' = 0 \<or>
             fs_mgr_is_voldmanaged P vol \<and> strcmp (mount_point vol) ''/storage/sdcard0'' = 0) vs)"

definition is_data_media :: "plat \<Rightarrow> roots \<Rightarrow> bool option" where
  "is_data_media P st = do { vs \<leftarrow> fstab st; Some (data_media_loop P False vs) }"

text \<open>\<open>rmdir\<close>, \<open>mkdir\<close> and \<open>symlink\<close>.\<close>

definition on_sys :: "(sys \<Rightarrow> 'a \<times> sys) \<Rightarrow> roots \<Rightarrow> 'a \<times> roots" where
  "on_sys f st = (let (r, s) = f (r_sys st) in (r, st\<lparr>r_sys := s\<rparr>))"

definition dir_call :: "roots \<Rightarrow> roots" where
  "dir_call st = snd (on_sys (on_os sys_status) st)"

definition setup_data_media :: "roots \<Rightarrow> roots option" where
  "setup_data_media st = do { _ \<leftarrow> fstab st; Some (dir_call (dir_call (dir_call st))) }"

definition is_data_media_volume_path :: "plat \<Rightarrow> string \<Rightarrow> roots \<Rightarrow> bool option" where
  "is_data_media_volume_path P path st =
     (case volume_for_path P path st of
        Some v \<Rightarrow> Some (strcmp (fs_type v) ''datamedia'' = 0)
      | None \<Rightarrow> do {
          dm \<leftarrow> is_data_media P st;
          Some (dm \<and> (strcmp path ''/sdcard'' = 0 \<or> starts_with path ''/sdcard/''))
        })"

definition preserve_data_media :: "int \<Rightarrow> roots \<Rightarrow> roots" where
  "preserve_data_media val st = st\<lparr>data_media_preserved_state := val\<rparr>"

definition is_data_media_preserved :: "roots \<Rightarrow> int" where
  "is_data_media_preserved st = data_media_preserved_state st"

definition setup_legacy_storage_paths :: "plat \<Rightarrow> roots \<Rightarrow> roots option" where
  "setup_legacy_storage_paths P st = do {
     let (primary_path, st) = get_primary_storage_path P st;
     dm \<leftarrow> is_data_media_volume_path P primary_path st;
     Some (if dm then st else dir_call (dir_call st))
   }"

section \<open>Mounting\<close>

text \<open>A shell command, and a command to the volume daemon, which may change the mounts.\<close>

definition system_cmd :: "plat \<Rightarrow> string \<Rightarrow> roots \<Rightarrow> int \<times> roots" where
  "system_cmd P cmd st =
     (let (_, st) = on_sys (on_os ask) st;
          (r, ms) = p_system P cmd (clk (s_os (r_sys st))) (mounted (r_sys st))
      in (r, st\<lparr>r_sys := set_mounted ms (r_sys st)\<rparr>))"

definition on_vold :: "plat \<Rightarrow> (vold \<Rightarrow> int \<times> vold) \<Rightarrow> roots \<Rightarrow> int \<times> roots" where
  "on_vold P f st =
     (let (r, v) = f (r_vold st);
          s = (if sent v = sent (r_vold st) then r_sys st
               else set_mounted (p_vold P (fst (last (sent v))) r (mounted (r_sys st))) (r_sys st))
      in (r, st\<lparr>r_vold := v, r_sys := s\<rparr>))"

definition try_mount :: "plat \<Rightarrow> string option \<Rightarrow> string \<Rightarrow> string option \<Rightarrow> string option \<Rightarrow> roots \<Rightarrow> (int \<times> roots) option" where
  "try_mount P device mp fs opts st =
     (case (device, fs) of
        (Some device, Some fs) \<Rightarrow>
          (case opts of
             None \<Rightarrow> Some (on_sys (sys_mount \<lparr>m_device = device, m_dir = mp, m_type = fs, m_opts = ''rw,nodev,noatime,nodiratime''\<rparr>) st)
           | Some opts \<Rightarrow>
               let mount_cmd = ''mount -t '' @ fs @ '' -o'' @ opts @ '' '' @ device @ '' '' @ mp
               in if length mount_cmd \<ge> 4096 then None else Some (system_cmd P mount_cmd st))
      | _ \<Rightarrow> Some (-1, st))"

text \<open>Mounting a flash partition; whether one of its two attempts succeeds.\<close>

definition mtd_mount_succeeds :: "bool \<Rightarrow> os \<Rightarrow> bool" where
  "mtd_mount_succeeds read_only w =
     (let (rv, w) = (if \<not> read_only then sys_status w else (-1, w));
          (rv, w) = (if read_only \<or> rv < 0 then sys_status w else (rv, w))
      in rv \<ge> 0)"

text \<open>The volume is mounted read-only if only the second attempt succeeds.\<close>

definition mount_yaffs :: "MtdPartition \<Rightarrow> string \<Rightarrow> string \<Rightarrow> sys \<Rightarrow> int \<times> sys" where
  "mount_yaffs p mp fs s =
     (let s' = (if mtd_mount_succeeds False (s_os s)
                then set_mounted (mounted s @ [\<lparr>m_device = mtdblock_name p, m_dir = mp, m_type = fs,
                    m_opts = (if fst (sys_status (s_os s)) \<ge> 0 then ''rw'' else ''ro'') @ '',nodev,noatime,nodiratime''\<rparr>]) s
                else s)
      in on_os (mtd_mount_partition p mp fs False) s')"

definition mount_volume :: "plat \<Rightarrow> Volume \<Rightarrow> string \<Rightarrow> roots \<Rightarrow> (int \<times> roots) option" where
  "mount_volume P v mp st =
     (if fs_mgr_is_voldmanaged P v
      then let (r, st) = on_vold P (vold_mount_volume (p_api P) (p_answer P) mp True) st
           in Some (if r = CommandOkay (p_api P) then 0 else -1, st)
      else if strcmp (fs_type v) ''yaffs2'' = 0
      then do {
        (_, m, w) \<leftarrow> mtd_scan_partitions (r_mtd st) (s_os (r_sys st));
        let st = st\<lparr>r_mtd := m, r_sys := (r_sys st)\<lparr>s_os := w\<rparr>\<rparr>;
        dev \<leftarrow> blk_device v;
        (case mtd_find_partition_by_name m dev of
           None \<Rightarrow> Some (-1, st)
         | Some p \<Rightarrow> Some (on_sys (mount_yaffs p mp (fs_type v)) st))
      }
      else if fs_type v \<in> {''ext4'', ''ext3'', ''rfs'', ''vfat''}
      then do {
        (result, st) \<leftarrow> try_mount P (blk_device v) mp (Some (fs_type v)) (fs_options v) st;
        if result = 0 then Some (0, st)
        else do {
          (result, st) \<leftarrow> try_mount P (blk_device v) mp (fs_type2 v) (fs_options2 v) st;
          if result = 0 then Some (0, st)
          else try_mount P (blk_device2 v) mp (fs_type2 v) (fs_options2 v) st
        }
      }
      else let mount_cmd = ''mount '' @ mp in if length mount_cmd \<ge> 4096 then None else Some (system_cmd P mount_cmd st))"

definition scan_volumes :: "roots \<Rightarrow> (int \<times> roots) option" where
  "scan_volumes st = do {
     (result, m, w) \<leftarrow> scan_mounted_volumes (r_mounts st) (s_os (r_sys st));
     Some (result, st\<lparr>r_mounts := m, r_sys := (r_sys st)\<lparr>s_os := w\<rparr>\<rparr>)
   }"

partial_function (option) ensure_path_mounted_at_mount_point ::
  "plat \<Rightarrow> string \<Rightarrow> string option \<Rightarrow> roots \<Rightarrow> (int \<times> roots) option" where
  [code]: "ensure_path_mounted_at_mount_point P path mp st = do {
     dm \<leftarrow> is_data_media_volume_path P path st;
     if dm
     then do {
       (ret, st) \<leftarrow> ensure_path_mounted_at_mount_point P ''/data'' None st;
       if ret \<noteq> 0 then Some (ret, st) else do { st \<leftarrow> setup_data_media st; Some (0, st) }
     }
     else case volume_for_path P path st of
         None \<Rightarrow> Some (-1, st)
       | Some v \<Rightarrow>
           if strcmp (fs_type v) ''ramdisk'' = 0 then Some (0, st)
           else do {
             (result, st) \<leftarrow> scan_volumes st;
             if result < 0 then Some (-1, st)
             else
               let mp = (case mp of None \<Rightarrow> mount_point v | Some mp \<Rightarrow> mp)
               in case find_mounted_volume_by_mount_point mp (r_mounts st) of
                    Some mv \<Rightarrow> Some (0, st)
                  | None \<Rightarrow> mount_volume P v mp (dir_call st)
           }
   }"

definition ensure_path_mounted :: "plat \<Rightarrow> string \<Rightarrow> roots \<Rightarrow> (int \<times> roots) option" where
  "ensure_path_mounted P path st = ensure_path_mounted_at_mount_point P path None st"

partial_function (option) ensure_path_unmounted :: "plat \<Rightarrow> string \<Rightarrow> roots \<Rightarrow> (int \<times> roots) option" where
  [code]: "ensure_path_unmounted P path st = do {
     dm \<leftarrow> is_data_media_volume_path P path st;
     if dm then ensure_path_unmounted P ''/data'' st
     else do {
       keep \<leftarrow> (if starts_with path ''/data''
               then do { d \<leftarrow> is_data_media P st; Some (d \<and> is_data_media_preserved st \<noteq> 0) } else Some False);
       if keep then Some (0, st)
       else case volume_for_path P path st of
           None \<Rightarrow> Some (-1, st)
         | Some v \<Rightarrow>
             if strcmp (fs_type v) ''ramdisk'' = 0 then Some (-1, st)
             else do {
               (result, st) \<leftarrow> scan_volumes st;
               if result < 0 then Some (-1, st)
               else case find_mounted_volume_by_mount_point (mount_point v) (r_mounts st) of
                   None \<Rightarrow> Some (0, st)
                 | Some mv \<Rightarrow> do {
                     v' \<leftarrow> volume_for_path P (mount_point v) st;
                     if fs_mgr_is_voldmanaged P v'
                     then let (r, st) = on_vold P (vold_unmount_volume (p_api P) (p_answer P) (mount_point v) False True) st
                          in Some (if r = CommandOkay (p_api P) then 0 else -1, st)
                     else do {
                       (r, m, s) \<leftarrow> unmount_mounted_volume mv (r_mounts st) (r_sys st);
                       Some (r, st\<lparr>r_mounts := m, r_sys := s\<rparr>)
                     }
                   }
             }
     }
   }"

section \<open>What is mounted afterwards\<close>

definition mounts_of :: "roots \<Rightarrow> string set" where
  "mounts_of st = m_dir ` set (mounted (r_sys st))"

definition roots_ok :: "roots \<Rightarrow> bool" where
  "roots_ok st \<longleftrightarrow> table_ok (r_mounts st) \<and> list_all good_mount (mounted (r_sys st)) \<and> shows_mounts (r_sys st)"

text \<open>
  A mount command that reports success has mounted its directory, and so has the volume daemon when
  it answers \<open>CommandOkay\<close>, which is neither 0 nor -1.
\<close>

definition mounts_when_ok :: "plat \<Rightarrow> bool" where
  "mounts_when_ok P \<longleftrightarrow>
     (\<forall>fs opts dev dir n ms ms'. field dir \<longrightarrow>
        p_system P (''mount -t '' @ fs @ '' -o'' @ opts @ '' '' @ dev @ '' '' @ dir) n ms = (0, ms') \<longrightarrow> dir \<in> m_dir ` set ms') \<and>
     (\<forall>dir n ms ms'. field dir \<longrightarrow> p_system P (''mount '' @ dir) n ms = (0, ms') \<longrightarrow> dir \<in> m_dir ` set ms') \<and>
     (\<forall>dir ms. field dir \<longrightarrow> dir \<in> m_dir ` set (p_vold P (''0 volume mount '' @ dir) (CommandOkay (p_api P)) ms)) \<and>
     CommandOkay (p_api P) \<noteq> 0 \<and> CommandOkay (p_api P) \<noteq> -1"

text \<open>The volume that holds a path; \<open>/data\<close> for the emulated storage.\<close>

definition backing_volume :: "plat \<Rightarrow> string \<Rightarrow> roots \<Rightarrow> Volume option" where
  "backing_volume P path st =
     (if is_data_media_volume_path P path st = Some True then volume_for_path P ''/data'' st else volume_for_path P path st)"

lemma mounted_set_mounted [simp]: "mounted (set_mounted ms s) = ms"
  by (simp add: set_mounted_def)

lemma on_os_mounted [simp]: "mounted (snd (on_os f s)) = mounted s"
  by (simp add: on_os_def case_prod_beta)

lemma on_sys_eq: "on_sys f st = (r, st') \<Longrightarrow> f (r_sys st) = (r, r_sys st')"
  by (auto simp: on_sys_def split: prod.splits)

lemma on_vold_eq:
  assumes "on_vold P f st = (r, st')"
  shows "f (r_vold st) = (r, r_vold st')"
    "sent (r_vold st') \<noteq> sent (r_vold st) \<Longrightarrow>
      mounted (r_sys st') = p_vold P (fst (last (sent (r_vold st')))) r (mounted (r_sys st))"
  using assms by (auto simp: on_vold_def Let_def split: prod.splits)

lemma dir_call_keeps [simp]: "mounted (r_sys (dir_call st)) = mounted (r_sys st)" "r_mounts (dir_call st) = r_mounts st"
  "fstab (dir_call st) = fstab st" "r_vold (dir_call st) = r_vold st"
  by (simp_all add: dir_call_def on_sys_def case_prod_beta)

lemma mounts_when_okD:
  assumes "mounts_when_ok P" "field dir"
  shows "p_system P (''mount -t '' @ fs @ '' -o'' @ opts @ '' '' @ dev @ '' '' @ dir) n ms = (0, ms') \<Longrightarrow> dir \<in> m_dir ` set ms'"
    "p_system P (''mount '' @ dir) n ms = (0, ms') \<Longrightarrow> dir \<in> m_dir ` set ms'"
  using assms unfolding mounts_when_ok_def by metis+

lemma system_cmd_mounts:
  assumes "system_cmd P cmd st = (0, st')"
  shows "\<exists>n. p_system P cmd n (mounted (r_sys st)) = (0, mounted (r_sys st'))"
proof -
  define st1 where "st1 = snd (on_sys (on_os ask) st)"
  have "mounted (r_sys st1) = mounted (r_sys st)" by (simp add: st1_def on_sys_def case_prod_beta)
  moreover have "system_cmd P cmd st =
      (let (r, ms) = p_system P cmd (clk (s_os (r_sys st1))) (mounted (r_sys st1)) in (r, st1\<lparr>r_sys := set_mounted ms (r_sys st1)\<rparr>))"
    by (simp add: system_cmd_def st1_def case_prod_beta)
  ultimately show ?thesis using assms by (auto split: prod.splits)
qed

lemma sys_mount_mounts: "sys_mount m s = (0, s') \<Longrightarrow> m_dir m \<in> m_dir ` set (mounted s')"
  by (auto simp: sys_mount_def case_prod_beta split: if_splits)

lemma try_mount_mounts:
  assumes "try_mount P device dir fs opts st = Some (0, st')" "mounts_when_ok P" "field dir"
  shows "dir \<in> mounts_of st'"
proof -
  obtain device' fs' where d: "device = Some device'" "fs = Some fs'"
    using assms(1) by (auto simp: try_mount_def split: option.splits)
  show ?thesis
  proof (cases opts)
    case None
    then have "on_sys (sys_mount \<lparr>m_device = device', m_dir = dir, m_type = fs', m_opts = ''rw,nodev,noatime,nodiratime''\<rparr>) st = (0, st')"
      using assms(1) d by (simp add: try_mount_def)
    from sys_mount_mounts [OF on_sys_eq [OF this]] show ?thesis by (simp add: mounts_of_def)
  next
    case (Some opts')
    then have "system_cmd P (''mount -t '' @ fs' @ '' -o'' @ opts' @ '' '' @ device' @ '' '' @ dir) st = (0, st')"
      using assms(1) d by (auto simp: try_mount_def Let_def split: if_splits)
    from system_cmd_mounts [OF this] show ?thesis using mounts_when_okD(1) [OF assms(2,3)] by (auto simp: mounts_of_def)
  qed
qed

lemma mtd_mount_partition_ok: "fst (mtd_mount_partition p dir fs ro w) = 0 \<Longrightarrow> mtd_mount_succeeds ro w"
  by (auto simp: mtd_mount_partition_def mtd_mount_succeeds_def case_prod_beta Let_def split: if_splits)

lemma mount_yaffs_mounts: "mount_yaffs p dir fs s = (0, s') \<Longrightarrow> dir \<in> m_dir ` set (mounted s')"
proof -
  assume m: "mount_yaffs p dir fs s = (0, s')"
  have "mtd_mount_succeeds False (s_os s)"
  proof (rule ccontr)
    assume n: "\<not> mtd_mount_succeeds False (s_os s)"
    then have "on_os (mtd_mount_partition p dir fs False) s = (0, s')" using m by (simp add: mount_yaffs_def)
    then show False using n mtd_mount_partition_ok [of p dir fs False "s_os s"] by (auto simp: on_os_def case_prod_beta)
  qed
  then obtain opts where "s' = snd (on_os (mtd_mount_partition p dir fs False) (set_mounted (mounted s @ [\<lparr>m_device = mtdblock_name p,
      m_dir = dir, m_type = fs, m_opts = opts\<rparr>]) s))" using m by (simp add: mount_yaffs_def) (metis snd_conv)
  then show ?thesis by simp
qed

lemma vold_mount_sent:
  assumes "vold_mount_volume api answer dir wait v = (r, v')" "r \<noteq> 0" "r \<noteq> -1" "field dir"
  shows "sent v' = sent v @ [(''0 volume mount '' @ dir, wait)]"
proof -
  have c: "vold_command answer [''volume'', ''mount'', dir] wait v = (r, v')"
    using assms(1-3) by (auto simp: vold_mount_volume_def Let_def split: if_splits)
  have b: "CHR '' '' \<notin> set dir" using assms(4) is_space_blank(1) unfolding field_def list_all_iff by blast
  have q: "quoted dir = dir" "quoted ''volume'' = ''volume''" "quoted ''mount'' = ''mount''"
    using b by (simp_all add: quoted_def)
  obtain tx where t: "append_args ''0 '' [''volume'', ''mount'', dir] = Some tx"
    using c assms(3) by (auto simp: vold_command_def Let_def split: option.splits)
  then have "tx = ''0 volume mount '' @ dir" by (simp add: q split: if_splits)
  then show ?thesis using c t by (auto simp: vold_command_def Let_def)
qed

lemma vold_mount_mounts:
  assumes "on_vold P (vold_mount_volume (p_api P) (p_answer P) dir True) st = (CommandOkay (p_api P), st')" "mounts_when_ok P" "field dir"
  shows "dir \<in> mounts_of st'"
proof -
  have ok: "CommandOkay (p_api P) \<noteq> 0" "CommandOkay (p_api P) \<noteq> -1" using assms(2) by (simp_all add: mounts_when_ok_def)
  have "sent (r_vold st') = sent (r_vold st) @ [(''0 volume mount '' @ dir, True)]"
    by (rule vold_mount_sent [OF on_vold_eq(1) [OF assms(1)] ok assms(3)])
  then have "mounted (r_sys st') = p_vold P (''0 volume mount '' @ dir) (CommandOkay (p_api P)) (mounted (r_sys st))"
    using on_vold_eq(2) [OF assms(1)] by simp
  then show ?thesis using assms(2,3) by (simp add: mounts_of_def mounts_when_ok_def)
qed

lemma mount_volume_mounts:
  assumes "mount_volume P v dir st = Some (0, st')" "mounts_when_ok P" "field dir"
  shows "dir \<in> mounts_of st'"
proof -
  consider (vold) "fs_mgr_is_voldmanaged P v" | (yaffs) "\<not> fs_mgr_is_voldmanaged P v" "fs_type v = ''yaffs2''"
    | (known_type) "\<not> fs_mgr_is_voldmanaged P v" "fs_type v \<noteq> ''yaffs2''" "fs_type v \<in> {''ext4'', ''ext3'', ''rfs'', ''vfat''}"
    | (other) "\<not> fs_mgr_is_voldmanaged P v" "fs_type v \<noteq> ''yaffs2''" "fs_type v \<notin> {''ext4'', ''ext3'', ''rfs'', ''vfat''}"
    by blast
  then show ?thesis
  proof cases
    case vold
    then have "on_vold P (vold_mount_volume (p_api P) (p_answer P) dir True) st = (CommandOkay (p_api P), st')"
      using assms(1) by (auto simp: mount_volume_def case_prod_beta Let_def prod_eq_iff split: if_splits)
    then show ?thesis by (rule vold_mount_mounts [OF _ assms(2,3)])
  next
    case yaffs
    then obtain p st1 where "on_sys (mount_yaffs p dir (fs_type v)) st1 = (0, st')"
      using assms(1) by (auto simp: mount_volume_def Let_def split: bind_splits option.splits)
    from mount_yaffs_mounts [OF on_sys_eq [OF this]] show ?thesis by (simp add: mounts_of_def)
  next
    case known_type
    then show ?thesis using assms by (auto simp: mount_volume_def split: bind_splits if_splits dest!: try_mount_mounts [OF _ assms(2,3)])
  next
    case other
    then have "system_cmd P (''mount '' @ dir) st = (0, st')" using assms(1) by (auto simp: mount_volume_def Let_def split: if_splits)
    from system_cmd_mounts [OF this] show ?thesis using mounts_when_okD(2) [OF assms(2,3)] by (auto simp: mounts_of_def)
  qed
qed

lemma scan_volumes_keeps:
  assumes "scan_volumes st = Some (r, st')"
  shows "fstab st' = fstab st" "mounted (r_sys st') = mounted (r_sys st)" "r_vold st' = r_vold st"
    "roots_ok st \<Longrightarrow> roots_ok st'" "roots_ok st \<Longrightarrow> known (r_mounts st') \<subseteq> mounts_of st' \<or> r = -1"
proof -
  obtain m w where s: "scan_mounted_volumes (r_mounts st) (s_os (r_sys st)) = Some (r, m, w)"
    "st' = st\<lparr>r_mounts := m, r_sys := (r_sys st)\<lparr>s_os := w\<rparr>\<rparr>"
    using assms by (auto simp: scan_volumes_def split: bind_splits)
  then show "fstab st' = fstab st" "mounted (r_sys st') = mounted (r_sys st)" "r_vold st' = r_vold st" by simp_all
  show "roots_ok st'" if "roots_ok st"
    using that s(2) scan_mounted_volumes_sound(1,2) [OF s(1), where ms = "mounted (r_sys st)"] by (simp add: roots_ok_def shows_mounts_def file_data_def)
  show "known (r_mounts st') \<subseteq> mounts_of st' \<or> r = -1" if "roots_ok st"
    using that s(2) scan_mounted_volumes_sound(3) [OF s(1), where ms = "mounted (r_sys st)"] by (simp add: roots_ok_def shows_mounts_def mounts_of_def)
qed

lemma setup_data_media_keeps: "setup_data_media st = Some st' \<Longrightarrow> mounted (r_sys st') = mounted (r_sys st)"
  by (auto simp: setup_data_media_def split: bind_splits)

lemma ensure_mounted_plain:
  assumes "ensure_path_mounted_at_mount_point P path None st = Some (0, st')" "is_data_media_volume_path P path st = Some False"
    and "volume_for_path P path st = Some v" "fs_type v \<noteq> ''ramdisk''" "roots_ok st" "mounts_when_ok P" "field (mount_point v)"
  shows "mount_point v \<in> mounts_of st'"
proof -
  obtain r st1 where s: "scan_volumes st = Some (r, st1)" "\<not> r < 0"
    "(case find_mounted_volume_by_mount_point (mount_point v) (r_mounts st1) of
        Some mv \<Rightarrow> Some (0, st1) | None \<Rightarrow> mount_volume P v (mount_point v) (dir_call st1)) = Some (0, st')"
    using assms(1-4) by (auto simp: ensure_path_mounted_at_mount_point.simps [of P path] Let_def split: bind_splits if_splits)
  show ?thesis
  proof (cases "find_mounted_volume_by_mount_point (mount_point v) (r_mounts st1)")
    case None
    then show ?thesis using s(3) mount_volume_mounts [OF _ assms(6,7)] by auto
  next
    case (Some mv)
    then have "mount_point v \<in> known (r_mounts st1)" by (metis find_volume_None option.discI)
    then show ?thesis using s(2,3) Some scan_volumes_keeps(5) [OF s(1) assms(5)] by auto
  qed
qed

text \<open>
  C32. Success of \<open>ensure_path_mounted\<close> is to be trusted: when it returns 0 for a path of a known
  volume other than the ramdisk, the kernel's table of mounts contains the mount point of that
  volume (of \<open>/data\<close> for emulated storage), whatever the calls answered, however much of
  \<open>/proc/mounts\<close> was read, and whether or not it had been mounted before.
\<close>

theorem ensure_path_mounted_sound:
  assumes "ensure_path_mounted P path st = Some (0, st')" "backing_volume P path st = Some v" "fs_type v \<noteq> ''ramdisk''"
    and "roots_ok st" "mounts_when_ok P" "field (mount_point v)" "is_data_media_volume_path P ''/data'' st = Some False"
  shows "mount_point v \<in> mounts_of st'"
proof (cases "is_data_media_volume_path P path st = Some True")
  case True
  then obtain st1 where s: "ensure_path_mounted_at_mount_point P ''/data'' None st = Some (0, st1)" "setup_data_media st1 = Some st'"
    using assms(1) by (auto simp: ensure_path_mounted_def ensure_path_mounted_at_mount_point.simps [of P path] split: bind_splits if_splits)
  have "mount_point v \<in> mounts_of st1"
    using assms(2) True by (intro ensure_mounted_plain [OF s(1) assms(7) _ assms(3-6)]) (simp add: backing_volume_def)
  then show ?thesis using setup_data_media_keeps [OF s(2)] by (simp add: mounts_of_def)
next
  case False
  have "is_data_media_volume_path P path st \<noteq> None"
    using assms(1) by (auto simp: ensure_path_mounted_def ensure_path_mounted_at_mount_point.simps [of P path] split: bind_splits)
  then have "is_data_media_volume_path P path st = Some False" using False by auto
  then show ?thesis using assms(1,2) False
    by (intro ensure_mounted_plain [OF _ _ _ assms(3-6)]) (simp_all add: backing_volume_def ensure_path_mounted_def)
qed

section \<open>What is unmounted afterwards\<close>

lemma remove_last_distinct: "distinct (map m_dir ms) \<Longrightarrow> remove_last dir ms = filter (\<lambda>m. m_dir m \<noteq> dir) ms"
proof (induction ms)
  case (Cons m ms)
  then have "m_dir m = dir \<Longrightarrow> filter (\<lambda>m. m_dir m \<noteq> dir) ms = ms" by (auto simp: filter_id_conv image_iff)
  then show ?case using Cons by auto
qed simp

lemma sys_umount_ok:
  assumes "dir \<in> m_dir ` set (mounted s)" "\<And>n. orc (s_os s) n \<ge> 0"
  shows "\<exists>s'. sys_umount (Some dir) s = (0, s') \<and> mounted s' = remove_last dir (mounted s)"
  using assms by (auto simp: sys_umount_def on_os_def sys_status_def ask_def not_less [symmetric])

lemma scan_volumes_ok:
  assumes "roots_ok st" "length (mounted (r_sys st)) \<le> 32" "length (mounts_text (mounted (r_sys st))) \<le> 2047"
    "\<And>n. orc (s_os (r_sys st)) n \<ge> 2047"
  obtains st1 where "scan_volumes st = Some (0, st1)" "known (r_mounts st1) = mounts_of st" "orc (s_os (r_sys st1)) = orc (s_os (r_sys st))"
proof -
  obtain m w where s: "scan_mounted_volumes (r_mounts st) (s_os (r_sys st)) = Some (0, m, w)" "known m = mounts_of st"
    using scan_mounted_volumes_complete [of "r_mounts st" "mounted (r_sys st)" "s_os (r_sys st)"] assms
    by (auto simp: roots_ok_def shows_mounts_def mounts_of_def)
  show ?thesis
  proof (rule that)
    show "scan_volumes st = Some (0, st\<lparr>r_mounts := m, r_sys := (r_sys st)\<lparr>s_os := w\<rparr>\<rparr>)" using s by (simp add: scan_volumes_def)
  qed (use s scan_mounted_volumes_orc [OF s(1)] in simp_all)
qed

text \<open>The path whose volume is meant, and whether it is protected.\<close>

definition unmount_target :: "plat \<Rightarrow> string \<Rightarrow> roots \<Rightarrow> string" where
  "unmount_target P path st = (if is_data_media_volume_path P path st = Some True then ''/data'' else path)"

definition protected_data :: "plat \<Rightarrow> string \<Rightarrow> roots \<Rightarrow> bool" where
  "protected_data P path st \<longleftrightarrow> starts_with path ''/data'' \<and> is_data_media P st = Some True \<and> data_media_preserved_state st \<noteq> 0"

text \<open>The mount table after the volume daemon was asked to unmount.\<close>

definition daemon_unmounts :: "plat \<Rightarrow> string \<Rightarrow> roots \<Rightarrow> int \<Rightarrow> roots \<Rightarrow> bool" where
  "daemon_unmounts P dir st r st' \<longleftrightarrow>
     (\<exists>q. vold_unmount_volume (p_api P) (p_answer P) dir False True (r_vold st) = (q, r_vold st') \<and>
        r = (if q = CommandOkay (p_api P) then 0 else -1) \<and>
        mounted (r_sys st') =
          (if sent (r_vold st') = sent (r_vold st) then mounted (r_sys st)
           else p_vold P (fst (last (sent (r_vold st')))) q (mounted (r_sys st))))"

text \<open>What is expected of unmounting the volume \<open>v\<close>.\<close>

definition volume_unmounted :: "plat \<Rightarrow> Volume \<Rightarrow> roots \<Rightarrow> int \<Rightarrow> roots \<Rightarrow> bool" where
  "volume_unmounted P v st r st' \<longleftrightarrow>
     (if fs_type v = ''ramdisk'' then r = -1 \<and> mounted (r_sys st') = mounted (r_sys st)
      else if mount_point v \<notin> mounts_of st then r = 0 \<and> mounted (r_sys st') = mounted (r_sys st)
      else if fs_mgr_is_voldmanaged P (the (volume_for_path P (mount_point v) st)) then daemon_unmounts P (mount_point v) st r st'
      else r = 0 \<and> mounted (r_sys st') = remove_last (mount_point v) (mounted (r_sys st)))"

lemma on_vold_unmount:
  assumes "on_vold P (vold_unmount_volume (p_api P) (p_answer P) dir False True) st1 = (q, st')"
    "r_vold st1 = r_vold st" "mounted (r_sys st1) = mounted (r_sys st)"
  shows "daemon_unmounts P dir st (if q = CommandOkay (p_api P) then 0 else -1) st'"
proof -
  obtain q' vd where q: "vold_unmount_volume (p_api P) (p_answer P) dir False True (r_vold st1) = (q', vd)" by fastforce
  then have "q = q'" "r_vold st' = vd" "mounted (r_sys st') = (if sent vd = sent (r_vold st1) then mounted (r_sys st1)
      else p_vold P (fst (last (sent vd))) q (mounted (r_sys st1)))"
    using assms(1) by (auto simp: on_vold_def Let_def)
  then show ?thesis using q assms(2,3) unfolding daemon_unmounts_def by simp
qed

lemma ensure_unmounted_volume:
  assumes "roots_ok st" "length (mounted (r_sys st)) \<le> 32" "length (mounts_text (mounted (r_sys st))) \<le> 2047"
    and "\<And>n. orc (s_os (r_sys st)) n \<ge> 2047" "is_data_media_volume_path P path st = Some False" "fstab st \<noteq> None"
    and "\<not> protected_data P path st" "volume_for_path P path st = Some v"
    and "mount_point v \<in> mounts_of st \<Longrightarrow> volume_for_path P (mount_point v) st \<noteq> None"
  shows "\<exists>r st'. ensure_path_unmounted P path st = Some (r, st') \<and> volume_unmounted P v st r st'"
proof -
  obtain d where d: "is_data_media P st = Some d" using assms(6) by (auto simp: is_data_media_def)
  obtain st1 where s: "scan_volumes st = Some (0, st1)" "known (r_mounts st1) = mounts_of st" "orc (s_os (r_sys st1)) = orc (s_os (r_sys st))"
    by (rule scan_volumes_ok [OF assms(1-4)])
  note k = scan_volumes_keeps [OF s(1)]
  have v': "volume_for_path P (mount_point v) st1 = volume_for_path P (mount_point v) st" using k(1) by (simp add: volume_for_path_def)
  let ?mv = "find_mounted_volume_by_mount_point (mount_point v) (r_mounts st1)"
  have u: "ensure_path_unmounted P path st =
      (if fs_type v = ''ramdisk'' then Some (-1, st)
       else case ?mv of
         None \<Rightarrow> Some (0, st1)
       | Some mv \<Rightarrow> do {
           v' \<leftarrow> volume_for_path P (mount_point v) st;
           if fs_mgr_is_voldmanaged P v'
           then let (r, st) = on_vold P (vold_unmount_volume (p_api P) (p_answer P) (mount_point v) False True) st1
                in Some (if r = CommandOkay (p_api P) then 0 else -1, st)
           else do { (r, m, s) \<leftarrow> unmount_mounted_volume mv (r_mounts st1) (r_sys st1); Some (r, st1\<lparr>r_mounts := m, r_sys := s\<rparr>) }
         })"
    using assms(5,7,8) s(1) v' d
    by (auto simp: ensure_path_unmounted.simps [of P path] protected_data_def is_data_media_preserved_def split: option.split)
  consider (none) "fs_type v = ''ramdisk'' \<or> ?mv = None" | (found) mv where "fs_type v \<noteq> ''ramdisk''" "?mv = Some mv" by blast
  then show ?thesis
  proof cases
    case none
    then show ?thesis using u k(2) s(2) find_volume_None [of "mount_point v" "r_mounts st1"] by (auto simp: volume_unmounted_def)
  next
    case found
    have m: "mount_point v \<in> mounts_of st" using s(2) found(2) by (metis find_volume_None option.discI)
    obtain v' where v': "volume_for_path P (mount_point v) st = Some v'" using assms(9) [OF m] by auto
    show ?thesis
    proof (cases "fs_mgr_is_voldmanaged P v'")
      case True
      obtain q st' where q: "on_vold P (vold_unmount_volume (p_api P) (p_answer P) (mount_point v) False True) st1 = (q, st')" by fastforce
      show ?thesis using u found m v' True q on_vold_unmount [OF q k(3) k(2)] by (simp add: volume_unmounted_def)
    next
      case False
      obtain vs where vs: "volumes (r_mounts st1) = Some vs" "mv < length vs" "mv_mount_point (vs ! mv) = Some (mount_point v)"
        by (rule find_volume_Some [OF found(2)])
      obtain s' where s': "sys_umount (Some (mount_point v)) (r_sys st1) = (0, s')"
        "mounted s' = remove_last (mount_point v) (mounted (r_sys st1))"
        using sys_umount_ok [of "mount_point v" "r_sys st1"] k(2) s(3) m order.trans [OF _ assms(4)]
        by (auto simp: mounts_of_def)
      then have "unmount_mounted_volume mv (r_mounts st1) (r_sys st1) =
          Some (0, (r_mounts st1)\<lparr>volumes := Some (vs[mv := no_volume])\<rparr>, s')"
        using vs by (simp add: unmount_mounted_volume_def rd_def)
      then show ?thesis using u found m v' False s'(2) k(2) by (simp add: volume_unmounted_def)
    qed
  qed
qed


text \<open>A platform with one ext4 volume, whose commands always succeed.\<close>

definition demo_volume :: Volume where
  "demo_volume = \<lparr>blk_device = Some ''/dev/block/mmcblk0p5'', blk_device2 = None, mount_point = ''/cache'', fs_type = ''ext4'',
     fs_type2 = None, fs_options = None, fs_options2 = None, label = ''cache''\<rparr>"

definition demo_mounts :: "string \<Rightarrow> mount list \<Rightarrow> mount list" where
  "demo_mounts cmd ms = ms @ [\<lparr>m_device = ''/dev/block/vold'', m_dir = rev (takeWhile (\<lambda>c. c \<noteq> CHR '' '') (rev cmd)), m_type = ''vfat'', m_opts = ''rw''\<rparr>]"

definition demo_plat :: plat where
  "demo_plat = \<lparr>fs_mgr_read_fstab = (\<lambda>_ _. Some [demo_volume]), fs_mgr_add_entry = (\<lambda>vs _ _ _. Some vs),
     fs_mgr_get_entry_for_mount_point = (\<lambda>vs path. case vs of None \<Rightarrow> None | Some vs \<Rightarrow> find (\<lambda>v. starts_with path (mount_point v)) vs),
     fs_mgr_is_voldmanaged = (\<lambda>_. False), p_system = (\<lambda>cmd _ ms. (0, demo_mounts cmd ms)), p_api = demo_api, p_answer = (\<lambda>_. 200),
     p_vold = (\<lambda>cmd _ ms. demo_mounts cmd ms)\<rparr>"

definition demo_roots :: "mount list \<Rightarrow> roots" where
  "demo_roots ms = \<lparr>r_sys = set_mounted ms \<lparr>s_os = \<lparr>files = Map.empty, mtddev = Map.empty, orc = (\<lambda>_. 4096), noise = (\<lambda>_ bs. bs),
       names = (\<lambda>_ _. []), clk = 0\<rparr>, mounted = []\<rparr>,
     r_mtd = g_mtd_state, r_mounts = g_mounts_state, r_vold = vold_init, fstab = Some [demo_volume], primary_storage_path = None,
     android_secure_path = None, data_media_preserved_state = 1\<rparr>"

abbreviation (input) demo_root :: mount where
  "demo_root \<equiv> \<lparr>m_device = ''rootfs'', m_dir = ''/'', m_type = ''rootfs'', m_opts = ''rw''\<rparr>"

abbreviation (input) demo_cache :: mount where
  "demo_cache \<equiv> \<lparr>m_device = ''/dev/block/mmcblk0p5'', m_dir = ''/cache'', m_type = ''ext4'', m_opts = ''rw,nodev''\<rparr>"

lemma takeWhile_last_word: "CHR '' '' \<notin> set d \<Longrightarrow> takeWhile (\<lambda>c. c \<noteq> CHR '' '') (d @ CHR '' '' # s) = d"
  by (induction d) auto

lemma demo_mounts_field: "field dir \<Longrightarrow> dir \<in> m_dir ` set (demo_mounts (cmd @ CHR '' '' # dir) ms)"
proof -
  assume "field dir"
  then have "CHR '' '' \<notin> set (rev dir)" using is_space_blank(1) unfolding field_def list_all_iff set_rev by blast
  then show ?thesis by (simp add: demo_mounts_def takeWhile_last_word)
qed

lemma demo_plat_mounts: "mounts_when_ok demo_plat"
  unfolding mounts_when_ok_def
proof (intro conjI allI impI)
  fix fs opts dev dir n ms ms' assume "field dir"
    "p_system demo_plat (''mount -t '' @ fs @ '' -o'' @ opts @ '' '' @ dev @ '' '' @ dir) n ms = (0, ms')"
  then show "dir \<in> m_dir ` set ms'"
    using demo_mounts_field [of dir "''mount -t '' @ fs @ '' -o'' @ opts @ '' '' @ dev"] by (auto simp: demo_plat_def)
next
  fix dir n ms ms' assume "field dir" "p_system demo_plat (''mount '' @ dir) n ms = (0, ms')"
  then show "dir \<in> m_dir ` set ms'" using demo_mounts_field [of dir "''mount''"] by (auto simp: demo_plat_def)
next
  fix dir ms assume "field dir"
  then show "dir \<in> m_dir ` set (p_vold demo_plat (''0 volume mount '' @ dir) (CommandOkay (p_api demo_plat)) ms)"
    using demo_mounts_field [of dir "''0 volume mount''"] by (simp add: demo_plat_def)
qed (simp_all add: demo_plat_def demo_api_def)

lemma demo_good: "good_mount demo_root" "good_mount demo_cache" "field ''/cache''"
  by (simp_all add: good_mount_def field_def is_space_def less_eq_char_def)

lemma demo_roots_ok: "list_all good_mount ms \<Longrightarrow> roots_ok (demo_roots ms)"
  by (simp add: roots_ok_def demo_roots_def table_ok_def g_mounts_state_def shows_mounts_def set_mounted_def file_data_def)

lemma demo_paths:
  "volume_for_path demo_plat ''/cache/recovery'' (demo_roots ms) = Some demo_volume"
  "volume_for_path demo_plat ''/cache'' (demo_roots ms) = Some demo_volume"
  "is_data_media_volume_path demo_plat ''/cache/recovery'' (demo_roots ms) = Some False"
  "is_data_media_volume_path demo_plat ''/data'' (demo_roots ms) = Some False"
  by (simp_all add: is_data_media_volume_path_def volume_for_path_def demo_plat_def demo_roots_def demo_volume_def starts_with_def is_data_media_def)

lemma demo_unmounted_cache:
  obtains st1 where "scan_volumes (demo_roots [demo_root]) = Some (0, st1)" "known (r_mounts st1) = {''/''}"
    "orc (s_os (r_sys st1)) = (\<lambda>_. 4096)"
proof (rule scan_volumes_ok [of "demo_roots [demo_root]"])
  show "roots_ok (demo_roots [demo_root])" by (rule demo_roots_ok) (simp add: demo_good)
qed (use that in \<open>auto simp: demo_roots_def mounts_of_def mount_line_def set_mounted_def\<close>)

theorem ensure_path_mounted_sound_witness:
  "\<exists>st'. ensure_path_mounted demo_plat ''/cache/recovery'' (demo_roots [demo_root]) = Some (0, st') \<and> ''/cache'' \<in> mounts_of st'"
proof -
  obtain st1 where s: "scan_volumes (demo_roots [demo_root]) = Some (0, st1)" "known (r_mounts st1) = {''/''}"
    "orc (s_os (r_sys st1)) = (\<lambda>_. 4096)" by (rule demo_unmounted_cache)
  have n: "find_mounted_volume_by_mount_point ''/cache'' (r_mounts st1) = None" using s(2) by (simp add: find_volume_None)
  have v: "fs_type demo_volume = ''ext4''" "mount_point demo_volume = ''/cache''" by (simp_all add: demo_volume_def)
  obtain st' where "mount_volume demo_plat demo_volume ''/cache'' (dir_call st1) = Some (0, st')"
    using s(3) by (auto simp: mount_volume_def demo_plat_def demo_volume_def try_mount_def on_sys_def sys_mount_def dir_call_def
        on_os_def sys_status_def ask_def Let_def)
  then have e: "ensure_path_mounted demo_plat ''/cache/recovery'' (demo_roots [demo_root]) = Some (0, st')"
    using s(1) n v
    by (simp add: ensure_path_mounted_def ensure_path_mounted_at_mount_point.simps [of _ "''/cache/recovery''"] demo_paths)
  have "mount_point demo_volume \<in> mounts_of st'"
    by (rule ensure_path_mounted_sound [OF e _ _ demo_roots_ok demo_plat_mounts _ demo_paths(4)])
       (use demo_good in \<open>simp_all add: backing_volume_def demo_paths demo_volume_def\<close>)
  then show ?thesis using e by (auto simp: demo_volume_def)
qed

lemma demo_unmount_paths:
  "unmount_target demo_plat ''/cache/recovery'' (demo_roots ms) = ''/cache/recovery''"
  "unmount_target demo_plat ''/data/media'' (demo_roots ms) = ''/data/media''"
  "\<not> protected_data demo_plat ''/cache/recovery'' (demo_roots ms)" "protected_data demo_plat ''/data/media'' (demo_roots ms)"
  by (simp_all add: unmount_target_def protected_data_def is_data_media_volume_path_def volume_for_path_def demo_plat_def demo_roots_def
      demo_volume_def starts_with_def is_data_media_def)


end
