(* ===== verification/Bootloader.thy ===== *)
theory Bootloader
  imports Roots Byte_Utils
begin

text \<open>
  The message between the recovery program and the boot loader (\<open>src/bootloader.c\<close>): a block of
  1088 bytes on the partition \<open>/misc\<close>, either in raw flash or at a fixed offset of a block device,
  and the image of a firmware update, which is written over the cache partition.

  The offset \<open>BOARD_RECOVERY_BLDRMSG_OFFSET\<close> is a setting of the build; where it is not set there is
  no \<open>fseek\<close>. A function that returns 0 or -1 and fills in \<open>*out\<close> has the message as its result, or
  \<open>None\<close>.
\<close>

section \<open>The message\<close>

record bootloader_message =
  command :: "byte list"
  status :: "byte list"
  recovery :: "byte list"

definition message_bytes :: "bootloader_message \<Rightarrow> byte list" where
  "message_bytes b = command b @ status b @ recovery b"

definition message_of :: "byte list \<Rightarrow> bootloader_message" where
  "message_of bs = \<lparr>command = take 32 bs, status = take 32 (drop 32 bs), recovery = take 1024 (drop 64 bs)\<rparr>"

definition zero_message :: bootloader_message where
  "zero_message = \<lparr>command = replicate 32 0, status = replicate 32 0, recovery = replicate 1024 0\<rparr>"

definition message_ok :: "bootloader_message \<Rightarrow> bool" where
  "message_ok b \<longleftrightarrow> length (command b) = 32 \<and> length (status b) = 32 \<and> length (recovery b) = 1024"

definition with_os :: "os \<Rightarrow> roots \<Rightarrow> roots" where
  "with_os w st = st\<lparr>r_sys := (r_sys st)\<lparr>s_os := w\<rparr>\<rparr>"

abbreviation os_of :: "roots \<Rightarrow> os" where
  "os_of st \<equiv> s_os (r_sys st)"

section \<open>Raw flash\<close>

text \<open>The partition and the first three pages of it.\<close>

definition misc_partition :: "Volume \<Rightarrow> roots \<Rightarrow> ((MtdPartition \<times> int) option \<times> roots) option" where
  "misc_partition v st = do {
     (_, m, w) \<leftarrow> mtd_scan_partitions (r_mtd st) (os_of st);
     let st = with_os w (st\<lparr>r_mtd := m\<rparr>);
     dev \<leftarrow> blk_device v;
     (case mtd_find_partition_by_name m dev of
        None \<Rightarrow> Some (None, st)
      | Some part \<Rightarrow>
          (case mtd_partition_info part w of
             (None, w) \<Rightarrow> Some (None, with_os w st)
           | (Some (_, _, write_size), w) \<Rightarrow> Some (Some (part, write_size), with_os w st)))
   }"

definition read_pages :: "MtdPartition \<Rightarrow> int \<Rightarrow> roots \<Rightarrow> (byte list option \<times> roots) option" where
  "read_pages part write_size st =
     (case mtd_read_partition part (os_of st) of
        (None, w) \<Rightarrow> Some (None, with_os w st)
      | (Some ctx, w) \<Rightarrow>
          let size = sint (word_of_int write_size * 3 :: u32)
          in if size \<le> 0 then None
             else do {
               (r, data, ctx, w) \<leftarrow> mtd_read_data ctx (nat size) w;
               let w = mtd_read_close ctx w;
               Some (if r \<noteq> size then None else Some data, with_os w st)
             })"

definition get_bootloader_message_mtd :: "Volume \<Rightarrow> roots \<Rightarrow> (bootloader_message option \<times> roots) option" where
  "get_bootloader_message_mtd v st = do {
     (p, st) \<leftarrow> misc_partition v st;
     (case p of
        None \<Rightarrow> Some (None, st)
      | Some (part, write_size) \<Rightarrow> do {
          (d, st) \<leftarrow> read_pages part write_size st;
          (case d of
             None \<Rightarrow> Some (None, st)
           | Some data \<Rightarrow> do {
               bs \<leftarrow> slice data (unat (word_of_int write_size :: u32)) 1088;
               Some (Some (message_of bs), st)
             })
        })
   }"

definition set_bootloader_message_mtd :: "bootloader_message \<Rightarrow> Volume \<Rightarrow> roots \<Rightarrow> (int \<times> roots) option" where
  "set_bootloader_message_mtd b v st = do {
     (p, st) \<leftarrow> misc_partition v st;
     (case p of
        None \<Rightarrow> Some (-1, st)
      | Some (part, write_size) \<Rightarrow> do {
          (d, st) \<leftarrow> read_pages part write_size st;
          (case d of
             None \<Rightarrow> Some (-1, st)
           | Some data \<Rightarrow> do {
               data \<leftarrow> blit data (unat (word_of_int write_size :: u32)) (message_bytes b);
               (case mtd_write_partition part (os_of st) of
                  (None, w) \<Rightarrow> Some (-1, with_os w st)
                | (Some ctx, w) \<Rightarrow> do {
                    (n, ctx, w) \<leftarrow> mtd_write_data ctx data w;
                    (c, w) \<leftarrow> mtd_write_close ctx w;
                    Some (if n \<noteq> int (length data) \<or> c \<noteq> 0 then -1 else 0, with_os w st)
                  })
             })
        })
   }"

section \<open>Block devices\<close>

fun wait_for_device :: "nat \<Rightarrow> string \<Rightarrow> os \<Rightarrow> os" where
  "wait_for_device 0 fn w = w"
| "wait_for_device (Suc tries) fn w =
     (case sys_stat fn w of (Inl _, w) \<Rightarrow> wait_for_device tries fn w | (Inr _, w) \<Rightarrow> w)"

definition seek_message :: "nat option \<Rightarrow> fd \<Rightarrow> fd" where
  "seek_message off f = (case off of None \<Rightarrow> f | Some n \<Rightarrow> sys_lseek f n)"

definition get_bootloader_message_block ::
  "nat option \<Rightarrow> Volume \<Rightarrow> roots \<Rightarrow> (bootloader_message option \<times> roots) option" where
  "get_bootloader_message_block off v st = do {
     dev \<leftarrow> blk_device v;
     let w = wait_for_device 10 dev (os_of st);
     (case sys_open False False 0 dev w of
        (None, w) \<Rightarrow> Some (None, with_os w st)
      | (Some f, w) \<Rightarrow>
          let (bs, f, w) = sys_fread (seek_message off f) 1088 w
          in if length bs \<noteq> 1088 then Some (None, with_os w st)
             else let (c, w) = sys_status w
                  in Some (if c \<noteq> 0 then None else Some (message_of bs), with_os w st))
   }"

definition set_bootloader_message_block ::
  "nat option \<Rightarrow> bootloader_message \<Rightarrow> Volume \<Rightarrow> roots \<Rightarrow> (int \<times> roots) option" where
  "set_bootloader_message_block off b v st = do {
     dev \<leftarrow> blk_device v;
     let w = wait_for_device 10 dev (os_of st);
     (case sys_open False False 0 dev w of
        (None, w) \<Rightarrow> Some (-1, with_os w st)
      | (Some f, w) \<Rightarrow>
          let (n, f, w) = sys_write (seek_message off f) (message_bytes b) w
          in if n \<noteq> 1088 then Some (-1, with_os w st)
             else let (c, w) = sys_status w in Some (if c \<noteq> 0 then -1 else 0, with_os w st))
   }"

section \<open>The partition \<open>/misc\<close>\<close>

definition get_bootloader_message :: "plat \<Rightarrow> nat option \<Rightarrow> roots \<Rightarrow> (bootloader_message option \<times> roots) option" where
  "get_bootloader_message P off st =
     (case volume_for_path P ''/misc'' st of
        None \<Rightarrow> Some (None, st)
      | Some v \<Rightarrow>
          if strcmp (fs_type v) ''mtd'' = 0 then get_bootloader_message_mtd v st
          else if strcmp (fs_type v) ''emmc'' = 0 then get_bootloader_message_block off v st
          else Some (None, st))"

definition set_bootloader_message :: "plat \<Rightarrow> nat option \<Rightarrow> bootloader_message \<Rightarrow> roots \<Rightarrow> (int \<times> roots) option" where
  "set_bootloader_message P off b st =
     (case volume_for_path P ''/misc'' st of
        None \<Rightarrow> Some (-1, st)
      | Some v \<Rightarrow>
          if strcmp (fs_type v) ''mtd'' = 0 then set_bootloader_message_mtd b v st
          else if strcmp (fs_type v) ''emmc'' = 0 then set_bootloader_message_block off b v st
          else Some (-1, st))"

section \<open>Firmware images\<close>

record update_header =
  version :: u32
  h_size :: u32
  image_offset :: u32
  image_length :: u32
  bitmap_width :: u32
  bitmap_height :: u32
  bitmap_bpp :: u32
  busy_bitmap_offset :: u32
  busy_bitmap_length :: u32
  fail_bitmap_offset :: u32
  fail_bitmap_length :: u32

definition zero_header :: update_header where
  "zero_header = \<lparr>version = 0, h_size = 0, image_offset = 0, image_length = 0, bitmap_width = 0, bitmap_height = 0,
     bitmap_bpp = 0, busy_bitmap_offset = 0, busy_bitmap_length = 0, fail_bitmap_offset = 0, fail_bitmap_length = 0\<rparr>"

definition header_bytes :: "byte list \<Rightarrow> update_header \<Rightarrow> byte list" where
  "header_bytes magic h = fold Write4
     [version h, h_size h, image_offset h, image_length h, bitmap_width h, bitmap_height h, bitmap_bpp h,
      busy_bitmap_offset h, busy_bitmap_length h, fail_bitmap_offset h, fail_bitmap_length h] magic"

text \<open>\<open>(bitmap_bpp + 7) / 8 * bitmap_width * bitmap_height\<close> in \<open>int\<close>, and the bytes of a bitmap of this length.\<close>

definition c_div :: "int \<Rightarrow> int \<Rightarrow> int" where
  "c_div a b = (if a < 0 then - (- a div b) else a div b)"

definition bitmap_size :: "int \<Rightarrow> int \<Rightarrow> int \<Rightarrow> int option" where
  "bitmap_size bpp width height = do { a \<leftarrow> c_int (bpp + 7); b \<leftarrow> c_int (c_div a 8 * width); c_int (b * height) }"

definition bitmap_data :: "byte list option \<Rightarrow> int \<Rightarrow> byte list option" where
  "bitmap_data bitmap n =
     (if n < 0 then None else if n = 0 then Some [] else do { bs \<leftarrow> bitmap; slice bs 0 (nat n) })"

definition write_section :: "MtdWriteContext \<Rightarrow> byte list \<Rightarrow> os \<Rightarrow> (bool \<times> MtdWriteContext \<times> os) option" where
  "write_section ctx data w = do { (n, ctx, w) \<leftarrow> mtd_write_data ctx data w; Some (n = int (length data), ctx, w) }"

definition abandon :: "MtdWriteContext \<Rightarrow> os \<Rightarrow> roots \<Rightarrow> (int \<times> roots) option" where
  "abandon ctx w st = do { (_, w) \<leftarrow> mtd_write_close ctx w; Some (-1, with_os w st) }"

definition write_start :: "MtdWriteContext \<Rightarrow> int \<Rightarrow> u32" where
  "write_start ctx pos = word_of_int (if pos < 0 then pos else int (mtd_find_write_start ctx (nat pos)))"

text \<open>The header is written last, over the zeros that were written first.\<close>

definition rewrite_header :: "MtdPartition \<Rightarrow> update_header \<Rightarrow> int \<Rightarrow> os \<Rightarrow> roots \<Rightarrow> (int \<times> roots) option" where
  "rewrite_header part header image_start_pos w st =
     (case mtd_write_partition part w of
        (None, w) \<Rightarrow> Some (-1, with_os w st)
      | (Some ctx, w) \<Rightarrow> do {
          (ok, ctx, w) \<leftarrow> write_section ctx (header_bytes (bytes_of ''MSM-RADIO-UPDATE'') header) w;
          if \<not> ok then abandon ctx w st
          else do {
            (pos, ctx, w) \<leftarrow> mtd_erase_blocks ctx 0 w;
            if pos \<noteq> image_start_pos then abandon ctx w st
            else do { (c, w) \<leftarrow> mtd_write_close ctx w; Some (if c \<noteq> 0 then -1 else 0, with_os w st) }
          }
        })"

definition write_bitmaps ::
  "MtdPartition \<Rightarrow> update_header \<Rightarrow> int \<Rightarrow> int \<Rightarrow> int \<Rightarrow> byte list option \<Rightarrow> byte list option \<Rightarrow> MtdWriteContext \<Rightarrow> os \<Rightarrow> roots \<Rightarrow>
   (int \<times> roots) option" where
  "write_bitmaps part header image_start_pos busy_start_pos n busy fail ctx w st = do {
     let header = header\<lparr>busy_bitmap_length := (if busy \<noteq> None then word_of_int n else 0)\<rparr>;
     if busy_bitmap_offset header = -1 then abandon ctx w st
     else do {
       data \<leftarrow> bitmap_data busy n;
       (ok, ctx, w) \<leftarrow> write_section ctx data w;
       if \<not> ok then abandon ctx w st
       else do {
         (fail_start_pos, ctx, w) \<leftarrow> mtd_erase_blocks ctx 0 w;
         let header = header\<lparr>busy_bitmap_offset := write_start ctx busy_start_pos,
                             fail_bitmap_length := (if fail \<noteq> None then word_of_int n else 0)\<rparr>;
         if fail_bitmap_offset header = -1 then abandon ctx w st
         else do {
           data \<leftarrow> bitmap_data fail n;
           (ok, ctx, w) \<leftarrow> write_section ctx data w;
           if \<not> ok then abandon ctx w st
           else do {
             (_, ctx, w) \<leftarrow> mtd_erase_blocks ctx 0 w;
             let header = header\<lparr>fail_bitmap_offset := write_start ctx fail_start_pos\<rparr>;
             (c, w) \<leftarrow> mtd_write_close ctx w;
             if c \<noteq> 0 then Some (-1, with_os w st) else rewrite_header part header image_start_pos w st
           }
         }
       }
     }
   }"

definition write_image ::
  "MtdPartition \<Rightarrow> byte list \<Rightarrow> int \<Rightarrow> int \<Rightarrow> int \<Rightarrow> byte list option \<Rightarrow> byte list option \<Rightarrow> MtdWriteContext \<Rightarrow> os \<Rightarrow> roots \<Rightarrow>
   (int \<times> roots) option" where
  "write_image part update width height bpp busy fail ctx w st = do {
     (ok, ctx, w) \<leftarrow> write_section ctx (replicate 60 0) w;
     if \<not> ok then abandon ctx w st
     else do {
       (image_start_pos, ctx, w) \<leftarrow> mtd_erase_blocks ctx 0 w;
       let header = zero_header\<lparr>version := 0x00010000, h_size := 60, image_length := of_nat (length update)\<rparr>;
       if image_offset header = -1 then abandon ctx w st
       else do {
         (ok, ctx, w) \<leftarrow> write_section ctx update w;
         if \<not> ok then abandon ctx w st
         else do {
           (busy_start_pos, ctx, w) \<leftarrow> mtd_erase_blocks ctx 0 w;
           let header = header\<lparr>image_offset := write_start ctx image_start_pos, bitmap_width := word_of_int width,
                               bitmap_height := word_of_int height, bitmap_bpp := word_of_int bpp\<rparr>;
           n \<leftarrow> bitmap_size bpp width height;
           write_bitmaps part header image_start_pos busy_start_pos n busy fail ctx w st
         }
       }
     }
   }"

definition write_update_for_bootloader ::
  "plat \<Rightarrow> byte list \<Rightarrow> int \<Rightarrow> int \<Rightarrow> int \<Rightarrow> byte list option \<Rightarrow> byte list option \<Rightarrow> roots \<Rightarrow> (int \<times> roots) option" where
  "write_update_for_bootloader P update width height bpp busy fail st = do {
     (r, st) \<leftarrow> ensure_path_unmounted P ''/cache'' st;
     if r \<noteq> 0 then Some (-1, st)
     else case mtd_find_partition_by_name (r_mtd st) ''cache'' of
         None \<Rightarrow> Some (-1, st)
       | Some part \<Rightarrow>
           (case mtd_write_partition part (os_of st) of
              (None, w) \<Rightarrow> Some (-1, with_os w st)
            | (Some ctx, w) \<Rightarrow> write_image part update width height bpp busy fail ctx w st)
   }"

end
