(* ===== verification/Recovery.thy ===== *)
theory Recovery
  imports Bootloader
begin

text \<open>
  The arguments of the recovery program (\<open>src/recovery.c\<close>): \<open>get_args\<close> takes them from the command
  line, from the message on \<open>/misc\<close> or from the command file, and writes them back into the message,
  so that an interrupted run starts again; \<open>finish_recovery\<close> clears both, after it has copied the
  logs to the cache.

  The state adds \<open>tmplog_offset\<close> to that of the volumes. Directories are not modelled: creating the
  parents of a path only has a status. What is read from a stream is one prefix of the file.
\<close>

section \<open>Character buffers\<close>

text \<open>\<open>strlcpy\<close> and \<open>strlcat\<close> into a buffer of the given size, whose length is that of the list.\<close>

definition strlcpy :: "byte list \<Rightarrow> byte list \<Rightarrow> byte list" where
  "strlcpy dst src =
     (let n = min (length src) (length dst - 1)
      in if dst = [] then [] else take n src @ [0] @ drop (n + 1) dst)"

definition strlen :: "byte list \<Rightarrow> nat" where
  "strlen s = length (takeWhile (\<lambda>b. b \<noteq> 0) s)"

definition strlcat :: "byte list \<Rightarrow> byte list \<Rightarrow> byte list" where
  "strlcat dst src =
     (if strlen dst \<ge> length dst then dst else take (strlen dst) dst @ strlcpy (drop (strlen dst) dst) src)"

text \<open>
  The tokens that \<open>k\<close> calls of \<open>strtok\<close> with a newline as separator find in a terminated buffer, and the buffer, in
  which the separator after each token has been replaced by the terminator.
\<close>

fun tokenise :: "nat \<Rightarrow> byte list \<Rightarrow> string list \<times> byte list" where
  "tokenise 0 buf = ([], buf)"
| "tokenise (Suc k) buf =
     (let pre = takeWhile (\<lambda>b. b = 10) buf;
          rest = dropWhile (\<lambda>b. b = 10) buf;
          tok = takeWhile (\<lambda>b. b \<noteq> 10 \<and> b \<noteq> 0) rest
      in if tok = [] then ([], buf)
         else case drop (length tok) rest of
             [] \<Rightarrow> ([text_of tok], buf)
           | c # r \<Rightarrow>
               if c = 0 then ([text_of tok], buf)
               else let (ts, r) = tokenise k r in (text_of tok # ts, pre @ tok @ 0 # r))"

section \<open>Arguments\<close>

record rec_state =
  rs :: roots
  tmplog_offset :: nat

definition on_rs :: "(roots \<Rightarrow> ('a \<times> roots) option) \<Rightarrow> rec_state \<Rightarrow> ('a \<times> rec_state) option" where
  "on_rs f st = do { (r, s) \<leftarrow> f (rs st); Some (r, st\<lparr>rs := s\<rparr>) }"

definition call_os :: "(os \<Rightarrow> 'a \<times> os) \<Rightarrow> roots \<Rightarrow> 'a \<times> roots" where
  "call_os f st = (let (r, w) = f (os_of st) in (r, with_os w st))"

abbreviation (input) COMMAND_FILE :: string where "COMMAND_FILE \<equiv> ''/cache/recovery/command''"
abbreviation (input) INTENT_FILE :: string where "INTENT_FILE \<equiv> ''/cache/recovery/intent''"
abbreviation (input) LOG_FILE :: string where "LOG_FILE \<equiv> ''/cache/recovery/log''"
abbreviation (input) LAST_LOG_FILE :: string where "LAST_LOG_FILE \<equiv> ''/cache/recovery/last_log''"
abbreviation (input) LAST_INSTALL_FILE :: string where "LAST_INSTALL_FILE \<equiv> ''/cache/recovery/last_install''"
abbreviation (input) TEMPORARY_LOG_FILE :: string where "TEMPORARY_LOG_FILE \<equiv> ''/tmp/recovery.log''"
abbreviation (input) TEMPORARY_INSTALL_FILE :: string where "TEMPORARY_INSTALL_FILE \<equiv> ''/tmp/last_install''"
abbreviation (input) MAX_ARGS :: nat where "MAX_ARGS \<equiv> 100"
abbreviation (input) MAX_ARG_LENGTH :: nat where "MAX_ARG_LENGTH \<equiv> 4096"

text \<open>The modes in which a path is opened: \<open>"r"\<close>, \<open>"w"\<close> and \<open>"a"\<close>.\<close>

datatype mode = Read | Write | Append

definition fopen :: "string \<Rightarrow> mode \<Rightarrow> os \<Rightarrow> fd option \<times> os" where
  "fopen path mode w =
     (case mode of
        Read \<Rightarrow> sys_open False False 0 path w
      | Write \<Rightarrow> sys_open True True 438 path w
      | Append \<Rightarrow>
          let (f, w) = sys_open True False 438 path w
          in (map_option (\<lambda>f. sys_lseek f (length (file_data w path))) f, w))"

definition fopen_path :: "plat \<Rightarrow> string \<Rightarrow> mode \<Rightarrow> roots \<Rightarrow> (fd option \<times> roots) option" where
  "fopen_path P path mode st = do {
     (r, st) \<leftarrow> ensure_path_mounted P path st;
     if r \<noteq> 0 then Some (None, st)
     else let st = (if mode = Read then st else dir_call st)
          in Some (call_os (fopen path mode) st)
   }"

definition check_and_fclose :: "roots \<Rightarrow> roots" where
  "check_and_fclose st = snd (call_os sys_status (snd (call_os sys_status st)))"

text \<open>The lines that \<open>fgets\<close> delivers with a buffer of \<open>n + 1\<close> bytes.\<close>

fun fgets_line :: "nat \<Rightarrow> byte list \<Rightarrow> byte list \<times> byte list" where
  "fgets_line 0 bs = ([], bs)"
| "fgets_line (Suc n) [] = ([], [])"
| "fgets_line (Suc n) (b # bs) = (if b = 10 then ([b], bs) else let (l, r) = fgets_line n bs in (b # l, r))"

lemma fgets_line_shorter: "length (snd (fgets_line (Suc n) (b # bs))) \<le> length bs"
proof -
  have "length (snd (fgets_line n bs)) \<le> length bs" for n bs
    by (induction n bs rule: fgets_line.induct) (auto simp: case_prod_beta)
  then show ?thesis by (simp add: case_prod_beta)
qed

function fgets_lines :: "nat \<Rightarrow> byte list \<Rightarrow> byte list list" where
  "fgets_lines n [] = []"
| "fgets_lines n (b # bs) = fst (fgets_line (Suc n) (b # bs)) # fgets_lines n (snd (fgets_line (Suc n) (b # bs)))"
  by pat_completeness auto
termination
proof (relation "measure (\<lambda>(n, bs). length bs)")
  fix n b bs
  show "((n, snd (fgets_line (Suc n) (b # bs))), n, b # bs) \<in> measure (\<lambda>(n, bs). length bs)"
    using fgets_line_shorter [of n b bs] by simp
qed simp

text \<open>The first token of a line without its end.\<close>

definition line_token :: "byte list \<Rightarrow> string option" where
  "line_token l = map_option fst (strtok [CHR 0x0D, CHR 0x0A] (text_of (takeWhile (\<lambda>b. b \<noteq> 0) l)))"

text \<open>All of \<open>n\<close> allocations succeed.\<close>

fun alloc_all :: "nat \<Rightarrow> roots \<Rightarrow> roots option" where
  "alloc_all 0 st = Some st"
| "alloc_all (Suc n) st = (case call_os sys_alloc st of (ok, st) \<Rightarrow> if ok then alloc_all n st else None)"

text \<open>The arguments in the message; its last byte is set to the terminator.\<close>

definition args_from_message :: "string list \<Rightarrow> bootloader_message \<Rightarrow> roots \<Rightarrow> (string list \<times> bootloader_message \<times> roots) option" where
  "args_from_message argv boot st =
     (let buf = (recovery boot)[1023 := 0]; (ts, buf1) = tokenise 1 buf
      in if ts = [''recovery'']
         then let (ts, buf) = tokenise MAX_ARGS buf
              in do { st \<leftarrow> alloc_all (1 + length ts) st; Some (ts, boot\<lparr>recovery := buf\<rparr>, st) }
         else Some (argv, boot\<lparr>recovery := buf1\<rparr>, st))"

definition args_from_file :: "plat \<Rightarrow> string list \<Rightarrow> roots \<Rightarrow> (string list \<times> roots) option" where
  "args_from_file P argv st = do {
     (fp, st) \<leftarrow> fopen_path P COMMAND_FILE Read st;
     (case fp of
        None \<Rightarrow> Some (argv, st)
      | Some f \<Rightarrow> do {
          let (v, st) = call_os ask st;
          let bs = take (nat v) (file_data (os_of st) (f_path f));
          let tokens = take (MAX_ARGS - 1) (List.map_filter line_token (fgets_lines (MAX_ARG_LENGTH - 2) bs));
          st \<leftarrow> alloc_all (1 + length tokens) st;
          Some ((if argv = [] then '''' else hd argv) # tokens, check_and_fclose st)
        })
   }"

definition append_arg :: "string \<Rightarrow> byte list \<Rightarrow> byte list" where
  "append_arg arg buf = strlcat (strlcat buf (bytes_of arg)) [10]"

definition write_args :: "string list \<Rightarrow> bootloader_message \<Rightarrow> bootloader_message" where
  "write_args args boot =
     boot\<lparr>command := strlcpy (command boot) (bytes_of ''boot-recovery''),
          recovery := fold append_arg args (strlcpy (recovery boot) (bytes_of ''recovery'' @ [10]))\<rparr>"

definition get_args :: "plat \<Rightarrow> nat option \<Rightarrow> string list \<Rightarrow> roots \<Rightarrow> (string list \<times> roots) option" where
  "get_args P off argv st = do {
     (b, st) \<leftarrow> get_bootloader_message P off st;
     let boot = (case b of None \<Rightarrow> zero_message | Some boot \<Rightarrow> boot);
     (argv, boot, st) \<leftarrow>
       (if length argv \<le> 1
        then case call_os (sys_stat ''/tmp/.ignorebootmessage'') st of
               (Inl _, st) \<Rightarrow> args_from_message argv boot st
             | (Inr _, st) \<Rightarrow> Some (argv, boot, st)
        else Some (argv, boot, st));
     (argv, st) \<leftarrow> (if length argv \<le> 1 then args_from_file P argv st else Some (argv, st));
     (_, st) \<leftarrow> set_bootloader_message P off (write_args (tl argv) boot) st;
     Some (argv, st)
   }"

definition set_sdcard_update_bootloader_message :: "plat \<Rightarrow> nat option \<Rightarrow> roots \<Rightarrow> roots option" where
  "set_sdcard_update_bootloader_message P off st = do {
     (_, st) \<leftarrow> set_bootloader_message P off (write_args [] zero_message) st;
     Some st
   }"

section \<open>Logs and the end\<close>

text \<open>The lines are written with \<open>fputs\<close>, up to a zero byte.\<close>

definition copied_text :: "byte list \<Rightarrow> byte list" where
  "copied_text bs = concat (map (takeWhile (\<lambda>b. b \<noteq> 0)) (fgets_lines 4094 bs))"

definition copy_log_file :: "plat \<Rightarrow> string \<Rightarrow> string \<Rightarrow> bool \<Rightarrow> rec_state \<Rightarrow> rec_state option" where
  "copy_log_file P source destination app st = do {
     (log, s) \<leftarrow> fopen_path P destination (if app then Append else Write) (rs st);
     (case log of
        None \<Rightarrow> Some (st\<lparr>rs := s\<rparr>)
      | Some log \<Rightarrow>
          (case call_os (fopen source Read) s of
             (None, s) \<Rightarrow> Some (st\<lparr>rs := check_and_fclose s\<rparr>)
           | (Some tmplog, s) \<Rightarrow>
               let (v, s) = call_os ask s;
                   start = (if app then tmplog_offset st else 0);
                   bs = take (nat v) (drop start (file_data (os_of s) source));
                   ((n, log), s) = call_os (\<lambda>w. case sys_write log (copied_text bs) w of (n, f, w) \<Rightarrow> ((n, f), w)) s;
                   st = (if app then st\<lparr>tmplog_offset := start + length bs\<rparr> else st)
               in Some (st\<lparr>rs := check_and_fclose (check_and_fclose s)\<rparr>)))
   }"

definition last_log_name :: "nat \<Rightarrow> string" where
  "last_log_name i = (if i = 0 then LAST_LOG_FILE else LAST_LOG_FILE @ ''.'' @ show_int (int i))"

fun rotate_last_logs :: "nat \<Rightarrow> os \<Rightarrow> os" where
  "rotate_last_logs 0 w = w"
| "rotate_last_logs (Suc i) w = rotate_last_logs i (snd (sys_rename (last_log_name i) (last_log_name (i + 1)) w))"

definition copy_logs :: "plat \<Rightarrow> rec_state \<Rightarrow> rec_state option" where
  "copy_logs P st = do {
     st \<leftarrow> copy_log_file P TEMPORARY_LOG_FILE LOG_FILE True st;
     st \<leftarrow> copy_log_file P TEMPORARY_LOG_FILE LAST_LOG_FILE False st;
     st \<leftarrow> copy_log_file P TEMPORARY_INSTALL_FILE LAST_INSTALL_FILE False st;
     let s = snd (call_os (sys_chmod LOG_FILE 384) (rs st));
     let s = snd (call_os (sys_chown LOG_FILE 1000 1000) s);
     let s = snd (call_os (sys_chmod LAST_LOG_FILE 416) s);
     let s = snd (call_os (sys_chmod LAST_INSTALL_FILE 420) s);
     Some (st\<lparr>rs := s\<rparr>)
   }"

definition write_intent :: "plat \<Rightarrow> string option \<Rightarrow> roots \<Rightarrow> roots option" where
  "write_intent P send_intent st =
     (case send_intent of
        None \<Rightarrow> Some st
      | Some intent \<Rightarrow> do {
          (fp, st) \<leftarrow> fopen_path P INTENT_FILE Write st;
          (case fp of
             None \<Rightarrow> Some st
           | Some f \<Rightarrow>
               let (_, st) = call_os (\<lambda>w. case sys_write f (bytes_of intent) w of (n, f, w) \<Rightarrow> (n, w)) st
               in Some (check_and_fclose st))
        })"

definition finish_recovery :: "plat \<Rightarrow> nat option \<Rightarrow> string option \<Rightarrow> rec_state \<Rightarrow> rec_state option" where
  "finish_recovery P off send_intent st = do {
     s \<leftarrow> write_intent P send_intent (rs st);
     st \<leftarrow> copy_logs P (st\<lparr>rs := s\<rparr>);
     (_, s) \<leftarrow> set_bootloader_message P off zero_message (rs st);
     (r, s) \<leftarrow> ensure_path_mounted P COMMAND_FILE s;
     let s = (if r \<noteq> 0 then s else snd (call_os (sys_unlink COMMAND_FILE) s));
     Some (st\<lparr>rs := s\<rparr>)
   }"

section \<open>Arguments survive in the message\<close>

text \<open>An argument that a line can hold, and the arguments that fit into the message.\<close>

definition arg_ok :: "string \<Rightarrow> bool" where
  "arg_ok a \<longleftrightarrow> a \<noteq> [] \<and> CHR 0x0A \<notin> set a \<and> CHR 0x00 \<notin> set a"

definition lines_of :: "string list \<Rightarrow> byte list" where
  "lines_of ts = concat (map (\<lambda>t. bytes_of t @ [10]) ts)"

definition args_fit :: "string list \<Rightarrow> bool" where
  "args_fit args \<longleftrightarrow> list_all arg_ok args \<and> length args < 100 \<and> length (lines_of (''recovery'' # args)) \<le> 1022"

lemma lines_of_simps [simp]: "lines_of [] = []" "lines_of (t # ts) = bytes_of t @ 10 # lines_of ts"
  by (simp_all add: lines_of_def)

lemma arg_bytes:
  assumes "arg_ok a"
  shows "bytes_of a \<noteq> []" "\<And>b. b \<in> set (bytes_of a) \<Longrightarrow> b \<noteq> 10 \<and> b \<noteq> 0"
proof -
  show "bytes_of a \<noteq> []" using assms by (simp add: arg_ok_def bytes_of_def)
  show "b \<noteq> 10 \<and> b \<noteq> 0" if "b \<in> set (bytes_of a)" for b
  proof -
    have "char_of (unat b) \<in> set (text_of (bytes_of a))" using that by (simp add: text_of_def)
    then have c: "char_of (unat b) \<in> set a" by (simp add: text_of_bytes)
    have "char_of (10 :: nat) = CHR 0x0A" "char_of (0 :: nat) = CHR 0x00" by code_simp+
    then show ?thesis using c assms by (auto simp: arg_ok_def)
  qed
qed

lemma strlcpy_fits: "length src < length dst \<Longrightarrow> strlcpy dst src = src @ 0 # drop (length src + 1) dst"
  by (cases dst) (auto simp: strlcpy_def min_def)

lemma strlcat_fits:
  assumes "0 \<notin> set s" "length src \<le> length rest"
  shows "strlcat (s @ 0 # rest) src = s @ src @ 0 # drop (length src) rest"
proof -
  have "takeWhile (\<lambda>b. b \<noteq> 0) (s @ 0 # rest) = s" using assms(1) by (induction s) auto
  then show ?thesis using strlcpy_fits [of src "0 # rest"] assms(2) by (simp add: strlcat_def strlen_def)
qed

lemma append_args_fits:
  assumes "0 \<notin> set s" "list_all arg_ok args" "length (lines_of args) \<le> length rest"
  shows "\<exists>rest'. fold append_arg args (s @ 0 # rest) = s @ lines_of args @ 0 # rest' \<and> length rest' = length rest - length (lines_of args)"
  using assms
proof (induction args arbitrary: s rest)
  case (Cons a args)
  have a: "0 \<notin> set (bytes_of a)" using arg_bytes(2) [of a] Cons.prems(2) by auto
  have "append_arg a (s @ 0 # rest) = (s @ bytes_of a @ [10]) @ 0 # drop (length (bytes_of a) + 1) rest"
    using strlcat_fits [of s "bytes_of a" rest] strlcat_fits [of "s @ bytes_of a" "[10]" "drop (length (bytes_of a)) rest"] a Cons.prems(1,3)
    by (simp add: append_arg_def add.commute)
  then show ?case
    using Cons.IH [of "s @ bytes_of a @ [10]" "drop (length (bytes_of a) + 1) rest"] a Cons.prems by auto
qed simp

lemma tokenise_lines:
  assumes "list_all arg_ok ts"
  shows "fst (tokenise k (lines_of ts @ 0 # rest)) = take k ts"
  using assms
proof (induction ts arbitrary: k)
  case Nil
  then show ?case by (cases k) simp_all
next
  case (Cons t ts)
  show ?case
  proof (cases k)
    case (Suc j)
    define r where "r = lines_of ts @ 0 # rest"
    note t = arg_bytes [of t]
    have ok: "arg_ok t" using Cons.prems(1) by simp
    have l: "lines_of (t # ts) @ 0 # rest = bytes_of t @ 10 # r" by (simp add: r_def)
    obtain b bs where b: "bytes_of t = b # bs" "b \<noteq> 10" using t [OF ok] by (cases "bytes_of t") auto
    have w: "dropWhile (\<lambda>b. b = 10) (bytes_of t @ 10 # r) = bytes_of t @ 10 # r" using b by simp
    have "takeWhile (\<lambda>b. b \<noteq> 10 \<and> b \<noteq> 0) (bytes_of t @ 10 # r) = bytes_of t"
      using t(2) [OF ok] by (subst takeWhile_append2) auto
    then have "fst (tokenise (Suc j) (bytes_of t @ 10 # r)) = t # fst (tokenise j r)"
      using t(1) [OF ok] unfolding tokenise.simps w Let_def by (simp add: case_prod_beta text_of_bytes)
    then show ?thesis using Cons Suc l by (simp add: r_def)
  qed simp
qed

text \<open>The message with the arguments gives them back.\<close>

lemma write_args_recovery:
  assumes "message_ok boot" "args_fit args"
  shows "\<exists>rest. recovery (write_args args boot) = lines_of (''recovery'' # args) @ 0 # rest" "message_ok (write_args args boot)"
proof -
  have l: "length (recovery boot) = 1024" "length (command boot) = 32" using assms(1) by (simp_all add: message_ok_def)
  define s where "s = bytes_of ''recovery'' @ [10]"
  have s: "length s = 9" "0 \<notin> set s" by (simp_all add: s_def bytes_of_def)
  have c: "strlcpy (recovery boot) s = s @ 0 # drop 10 (recovery boot)" using strlcpy_fits [of s "recovery boot"] l s by simp
  have "length (lines_of args) \<le> length (drop 10 (recovery boot))" using assms(2) l by (simp add: args_fit_def bytes_of_def)
  then obtain rest' where r: "fold append_arg args (s @ 0 # drop 10 (recovery boot)) = s @ lines_of args @ 0 # rest'"
      "length rest' = length (drop 10 (recovery boot)) - length (lines_of args)"
    using append_args_fits [OF s(2), of args "drop 10 (recovery boot)"] assms(2) by (auto simp: args_fit_def)
  then have w: "recovery (write_args args boot) = s @ lines_of args @ 0 # rest'" using c by (simp add: write_args_def s_def)
  then show "\<exists>rest. recovery (write_args args boot) = lines_of (''recovery'' # args) @ 0 # rest" by (simp add: s_def)
  have "length (recovery (write_args args boot)) = 1024"
    using w r(2) l s(1) assms(2) by (simp add: args_fit_def bytes_of_def)
  moreover have "length (command (write_args args boot)) = 32"
    using l(2) strlcpy_fits [of "bytes_of ''boot-recovery''" "command boot"] by (simp add: write_args_def bytes_of_def)
  ultimately show "message_ok (write_args args boot)" using assms(1) by (simp add: message_ok_def write_args_def)
qed

section \<open>The block device\<close>

definition message_at :: "nat option \<Rightarrow> nat" where
  "message_at off = (case off of None \<Rightarrow> 0 | Some n \<Rightarrow> n)"

definition misc_device :: "plat \<Rightarrow> nat option \<Rightarrow> string \<Rightarrow> roots \<Rightarrow> bool" where
  "misc_device P off dev st \<longleftrightarrow>
     (\<exists>v. volume_for_path P ''/misc'' st = Some v \<and> fs_type v = ''emmc'' \<and> blk_device v = Some dev) \<and>
     files (os_of st) dev \<noteq> None \<and> message_at off + 1088 \<le> length (file_data (os_of st) dev)"

definition misc_bytes :: "nat option \<Rightarrow> string \<Rightarrow> roots \<Rightarrow> byte list" where
  "misc_bytes off dev st = take 1088 (drop (message_at off) (file_data (os_of st) dev))"

text \<open>Only the clock of the oracle has moved.\<close>

definition clocked :: "os \<Rightarrow> os \<Rightarrow> bool" where
  "clocked w w' \<longleftrightarrow> (\<exists>k. w' = w\<lparr>clk := k\<rparr>)"

lemma clocked_refl [simp]: "clocked w w"
  by (auto simp: clocked_def intro: exI [of _ "clk w"])

lemma clocked_trans: "clocked w w' \<Longrightarrow> clocked w' w'' \<Longrightarrow> clocked w w''"
  by (auto simp: clocked_def)

lemma clocked_simps:
  assumes "clocked w w'"
  shows "files w' = files w" "orc w' = orc w" "file_data w' p = file_data w p" "calls_succeed w' = calls_succeed w"
  using assms by (auto simp: clocked_def file_data_def calls_succeed_def)

lemma clocked_calls [simp]:
  "clocked w (snd (ask w))" "clocked w (snd (sys_status w))" "clocked w (snd (sys_alloc w))" "clocked w (snd (sys_stat p w))"
  "clocked w (snd (sys_open False False m p w))" "clocked w (snd (snd (sys_read f n w)))" "clocked w (snd (snd (sys_fread f n w)))"
  by (auto simp: clocked_def ask_def sys_status_def sys_alloc_def sys_stat_def sys_open_def sys_read_def sys_fread_def Let_def
      case_prod_beta split: option.splits)

lemma clocked_wait: "clocked w (wait_for_device n fn w)"
proof (induction n arbitrary: w)
  case (Suc n)
  obtain r w1 where s: "sys_stat fn w = (r, w1)" by fastforce
  then have "clocked w w1" using clocked_calls(4) [of w fn] by simp
  then show ?case using Suc.IH [of w1] s by (auto split: sum.splits intro: clocked_trans)
qed simp

lemma overwrite_inside: "pos + length bs \<le> length d \<Longrightarrow> overwrite d pos bs = take pos d @ bs @ drop (pos + length bs) d"
  by (simp add: overwrite_def)

lemma orc_large: "calls_succeed w \<Longrightarrow> \<not> orc w n < 0 \<and> min 1088 (nat (orc w n)) = 1088 \<and> min (nat (orc w n)) 1088 = 1088"
  by (auto simp: calls_succeed_def LONG_MAX_def min_def dest!: spec [of _ n])

lemma get_message:
  assumes "misc_device P off dev st" "calls_succeed (os_of st)"
  obtains w where "clocked (os_of st) w" "get_bootloader_message P off st = Some (Some (message_of (misc_bytes off dev st)), with_os w st)"
proof -
  obtain v where v: "volume_for_path P ''/misc'' st = Some v" "fs_type v = ''emmc''" "blk_device v = Some dev"
    using assms(1) by (auto simp: misc_device_def)
  define w1 where "w1 = wait_for_device 10 dev (os_of st)"
  have c1: "clocked (os_of st) w1" by (simp add: w1_def clocked_wait)
  note k = orc_large [OF assms(2)]
  define f where "f = seek_message off \<lparr>f_path = dev, f_pos = 0\<rparr>"
  have f: "f_path f = dev" "f_pos f = message_at off" by (simp_all add: f_def seek_message_def message_at_def sys_lseek_def split: option.split)
  define w2 where "w2 = snd (sys_open False False 0 dev w1)"
  have c2: "clocked (os_of st) w2" using clocked_trans [OF c1] by (simp add: w2_def)
  have o: "sys_open False False 0 dev w1 = (Some \<lparr>f_path = dev, f_pos = 0\<rparr>, w2)"
    using assms(1) k clocked_simps(1,2) [OF c1] by (auto simp: w2_def sys_open_def ask_def misc_device_def Let_def)
  define w3 where "w3 = snd (snd (sys_fread f 1088 w2))"
  have c3: "clocked (os_of st) w3" using clocked_trans [OF c2] by (simp add: w3_def)
  have "fst (sys_fread f 1088 w2) = misc_bytes off dev st"
    using k clocked_simps(2,3) [OF c2] f
    by (simp add: sys_fread_def sys_read_def ask_def misc_bytes_def Let_def case_prod_beta file_data_def)
  then obtain f' where r: "sys_fread f 1088 w2 = (misc_bytes off dev st, f', w3)" by (cases "sys_fread f 1088 w2") (auto simp: w3_def)
  have l: "length (misc_bytes off dev st) = 1088" using assms(1) by (auto simp: misc_bytes_def misc_device_def)
  define w4 where "w4 = snd (sys_status w3)"
  have c4: "clocked (os_of st) w4" using clocked_trans [OF c3] by (simp add: w4_def)
  have "sys_status w3 = (0, w4)" using k clocked_simps(2) [OF c3] by (simp add: w4_def sys_status_def ask_def)
  then have "get_bootloader_message P off st = Some (Some (message_of (misc_bytes off dev st)), with_os w4 st)"
    using v l o r by (simp add: get_bootloader_message_def get_bootloader_message_block_def w1_def [symmetric] f_def [symmetric] Let_def)
  then show ?thesis using that c4 by blast
qed

lemma set_message:
  assumes "misc_device P off dev st" "calls_succeed (os_of st)" "message_ok b"
  obtains w ino where "files (os_of st) dev = Some ino"
    "set_bootloader_message P off b st = Some (0, with_os w st)" "orc w = orc (os_of st)"
    "files w = (files (os_of st))(dev \<mapsto> ino\<lparr>i_data := overwrite (i_data ino) (message_at off) (message_bytes b)\<rparr>)"
proof -
  obtain v where v: "volume_for_path P ''/misc'' st = Some v" "fs_type v = ''emmc''" "blk_device v = Some dev"
    using assms(1) by (auto simp: misc_device_def)
  obtain ino where ino: "files (os_of st) dev = Some ino" using assms(1) by (auto simp: misc_device_def)
  define w1 where "w1 = wait_for_device 10 dev (os_of st)"
  have c1: "clocked (os_of st) w1" by (simp add: w1_def clocked_wait)
  note k = orc_large [OF assms(2)]
  define f where "f = seek_message off \<lparr>f_path = dev, f_pos = 0\<rparr>"
  have f: "f_path f = dev" "f_pos f = message_at off" by (simp_all add: f_def seek_message_def message_at_def sys_lseek_def split: option.split)
  define w2 where "w2 = snd (sys_open False False 0 dev w1)"
  have c2: "clocked (os_of st) w2" using clocked_trans [OF c1] by (simp add: w2_def)
  have o: "sys_open False False 0 dev w1 = (Some \<lparr>f_path = dev, f_pos = 0\<rparr>, w2)"
    using ino k clocked_simps(1,2) [OF c1] by (auto simp: w2_def sys_open_def ask_def Let_def)
  have l: "length (message_bytes b) = 1088" using assms(3) by (simp add: message_ok_def message_bytes_def)
  define w3 where "w3 = snd (snd (sys_write f (message_bytes b) w2))"
  have w3: "orc w3 = orc (os_of st)"
    "files w3 = (files (os_of st))(dev \<mapsto> ino\<lparr>i_data := overwrite (i_data ino) (message_at off) (message_bytes b)\<rparr>)"
    using k clocked_simps(1,2) [OF c2] f l ino by (simp_all add: w3_def sys_write_def ask_def Let_def)
  have n: "fst (sys_write f (message_bytes b) w2) = 1088"
    using k clocked_simps(2) [OF c2] l by (simp add: sys_write_def ask_def Let_def)
  then obtain f' where r: "sys_write f (message_bytes b) w2 = (1088, f', w3)" by (cases "sys_write f (message_bytes b) w2") (auto simp: w3_def)
  define w4 where "w4 = snd (sys_status w3)"
  have c4: "clocked w3 w4" by (simp add: w4_def)
  have "sys_status w3 = (0, w4)" using k w3(1) by (simp add: w4_def sys_status_def ask_def)
  then have "set_bootloader_message P off b st = Some (0, with_os w4 st)"
    using v o r by (simp add: set_bootloader_message_def set_bootloader_message_block_def w1_def [symmetric] f_def [symmetric] Let_def)
  then show ?thesis using that [OF ino, of w4] w3 clocked_simps(1,2) [OF c4] by simp
qed

end
