(* ===== verification/Vold_Wait.thy ===== *)
theory Vold_Wait
  imports Prelude
begin

text \<open>
  Waiting for the volume daemon (\<open>src/voldclient/event_loop.c\<close>). A thread in \<open>vold_command\<close> writes
  its command, counts it in \<open>cmd_inflight\<close> and, if it is to wait, sleeps on the condition variable
  \<open>completion\<close> while the count is not zero. The event thread in \<open>monitor\<close> stores the code of a
  final response (200 to 599) in \<open>cmd_result\<close>, decrements the count and signals the variable.

  Each part between locking and unlocking the mutex, or giving it up in \<open>pthread_cond_wait\<close>, is
  one step. \<open>pending\<close> counts the commands that the daemon has received and not yet answered.
  A signal wakes one of the sleeping threads, if there is one; a thread may also wake up by itself.
  Not modelled: the wait of \<open>vold_client_start\<close> for the event thread on the same variable, before the
  first command, and losing the connection, after which \<open>monitor\<close> is entered again.
\<close>

section \<open>The steps\<close>

text \<open>
  A thread is outside of \<open>vold_command\<close>, sleeps in \<open>pthread_cond_wait\<close>, has been woken and needs
  the mutex, or has returned a result.
\<close>

datatype pc = Ready | Blocked | Signalled | Returned int

record waits =
  cmd_inflight :: int
  cmd_result :: int
  pending :: nat
  pcs :: "nat \<Rightarrow> pc"

definition waits_init :: waits where
  "waits_init = \<lparr>cmd_inflight = 0, cmd_result = 0, pending = 0, pcs = (\<lambda>_. Ready)\<rparr>"

text \<open>The test of the loop: a thread sleeps or returns.\<close>

definition wait_test :: "nat \<Rightarrow> int \<Rightarrow> waits \<Rightarrow> waits" where
  "wait_test t ret s = s\<lparr>pcs := (pcs s)(t := if cmd_inflight s \<noteq> 0 then Blocked else Returned ret)\<rparr>"

definition send_command :: "bool \<Rightarrow> bool \<Rightarrow> nat \<Rightarrow> waits \<Rightarrow> waits" where
  "send_command written wait t s =
     (let ret = (if written then 0 else -1);
          s = s\<lparr>pending := pending s + (if written then 1 else 0), cmd_inflight := cmd_inflight s + 1\<rparr>
      in if wait then wait_test t ret s else s\<lparr>pcs := (pcs s)(t := Returned ret)\<rparr>)"

definition wake_up :: "nat \<Rightarrow> waits \<Rightarrow> waits" where
  "wake_up t s = wait_test t (cmd_result s) s"

text \<open>The signal goes to \<open>t\<close>.\<close>

definition final_response :: "int \<Rightarrow> nat option \<Rightarrow> waits \<Rightarrow> waits" where
  "final_response code t s =
     s\<lparr>cmd_result := code, cmd_inflight := cmd_inflight s - 1, pending := pending s - 1,
       pcs := (case t of None \<Rightarrow> pcs s | Some t \<Rightarrow> (pcs s)(t := Signalled))\<rparr>"

datatype action =
  Send bool bool nat
| Respond int "nat option"
| Wake nat
| Spurious nat
| Leave nat

inductive step :: "waits \<Rightarrow> action \<Rightarrow> waits \<Rightarrow> bool" where
  send: "pcs s t = Ready \<Longrightarrow> step s (Send written wait t) (send_command written wait t s)"
| respond: "pending s > 0 \<Longrightarrow> 200 \<le> code \<Longrightarrow> code < 600 \<Longrightarrow> pcs s t = Blocked \<Longrightarrow>
    step s (Respond code (Some t)) (final_response code (Some t) s)"
| respond_none: "pending s > 0 \<Longrightarrow> 200 \<le> code \<Longrightarrow> code < 600 \<Longrightarrow> (\<forall>t. pcs s t \<noteq> Blocked) \<Longrightarrow>
    step s (Respond code None) (final_response code None s)"
| wake: "pcs s t = Signalled \<Longrightarrow> step s (Wake t) (wake_up t s)"
| spurious: "pcs s t = Blocked \<Longrightarrow> step s (Spurious t) (s\<lparr>pcs := (pcs s)(t := Signalled)\<rparr>)"
| leave: "pcs s t = Returned r \<Longrightarrow> step s (Leave t) (s\<lparr>pcs := (pcs s)(t := Ready)\<rparr>)"

inductive_cases step_sendE: "step s (Send written wait t) s'"
inductive_cases step_respondE: "step s (Respond code t) s'"
inductive_cases step_wakeE: "step s (Wake t) s'"

text \<open>Runs of actions that satisfy a condition on the state in which they are taken.\<close>

inductive run :: "(waits \<Rightarrow> action \<Rightarrow> bool) \<Rightarrow> waits \<Rightarrow> action list \<Rightarrow> waits \<Rightarrow> bool" for P s where
  run_nil: "run P s [] s"
| run_snoc: "run P s as s' \<Longrightarrow> P s' a \<Longrightarrow> step s' a s'' \<Longrightarrow> run P s (as @ [a]) s''"

definition waiting :: "waits \<Rightarrow> nat \<Rightarrow> bool" where
  "waiting s t \<longleftrightarrow> pcs s t = Blocked \<or> pcs s t = Signalled"

text \<open>Every write succeeds, and no thread waits while another one does.\<close>

fun one_waiter :: "waits \<Rightarrow> action \<Rightarrow> bool" where
  "one_waiter s (Send written wait t) \<longleftrightarrow> written \<and> (wait \<longrightarrow> (\<forall>u. \<not> waiting s u))"
| "one_waiter s _ \<longleftrightarrow> True"

section \<open>One waiting thread\<close>

definition wait_inv :: "waits \<Rightarrow> bool" where
  "wait_inv s \<longleftrightarrow> cmd_inflight s = int (pending s) \<and> (\<forall>t. pcs s t = Blocked \<longrightarrow> pending s > 0) \<and>
     (\<forall>t u. waiting s t \<longrightarrow> waiting s u \<longrightarrow> t = u)"

lemma wait_invI:
  assumes "cmd_inflight s = int (pending s)" "\<And>t. pcs s t = Blocked \<Longrightarrow> pending s > 0"
    "\<And>t. waiting s t \<Longrightarrow> t = u"
  shows "wait_inv s"
  using assms unfolding wait_inv_def by metis

lemma wait_invD:
  assumes "wait_inv s"
  shows "cmd_inflight s = int (pending s)" "pcs s t = Blocked \<Longrightarrow> pending s > 0" "waiting s t \<Longrightarrow> waiting s u \<Longrightarrow> t = u"
  using assms unfolding wait_inv_def by metis+

lemma wait_inv_one:
  assumes "wait_inv s"
  obtains u where "\<forall>t. waiting s t \<longrightarrow> t = u"
  using wait_invD(3) [OF assms] by metis

lemma wait_inv_only: "wait_inv s \<Longrightarrow> waiting s t \<Longrightarrow> u \<noteq> t \<Longrightarrow> \<not> waiting s u"
  using wait_invD(3) by blast

lemma wait_inv_step:
  assumes "step s a s'" "wait_inv s" "one_waiter s a"
  shows "wait_inv s'"
  using assms
proof (induction rule: step.induct)
  case (send s t written wait)
  then have p: "written" "\<And>u. wait \<Longrightarrow> \<not> waiting s u" "cmd_inflight s = int (pending s)" by (auto simp: wait_inv_def)
  obtain u where u: "\<forall>t. waiting s t \<longrightarrow> t = u" by (rule wait_inv_one [OF send(2)])
  show ?case
    by (rule wait_invI [where u = "if wait then t else u"])
       (use p u in \<open>auto simp: send_command_def wait_test_def Let_def waiting_def split: if_splits\<close>)
next
  case (respond s code t)
  have "\<not> waiting s u" if "u \<noteq> t" for u using respond(4) that by (intro wait_inv_only [OF respond(5)]) (simp_all add: waiting_def)
  then show ?case using respond(1) wait_invD(1) [OF respond(5)]
    by (intro wait_invI [where u = t]) (auto simp: final_response_def waiting_def of_nat_diff split: if_splits)
next
  case (respond_none s code)
  obtain u where u: "\<forall>t. waiting s t \<longrightarrow> t = u" by (rule wait_inv_one [OF respond_none(5)])
  then show ?case using respond_none(1,4) wait_invD(1) [OF respond_none(5)]
    by (intro wait_invI [where u = u]) (auto simp: final_response_def waiting_def of_nat_diff)
next
  case (wake s t)
  have "\<not> waiting s u" if "u \<noteq> t" for u using wake(1) that by (intro wait_inv_only [OF wake(2)]) (simp_all add: waiting_def)
  then show ?case using wait_invD(1) [OF wake(2)]
    by (intro wait_invI [where u = t]) (auto simp: wake_up_def wait_test_def waiting_def split: if_splits)
next
  case (spurious s t)
  have "\<not> waiting s u" if "u \<noteq> t" for u using spurious(1) that by (intro wait_inv_only [OF spurious(2)]) (simp_all add: waiting_def)
  then show ?case using wait_invD(1) [OF spurious(2)]
    by (intro wait_invI [where u = t]) (auto simp: waiting_def split: if_splits)
next
  case (leave s t r)
  obtain u where u: "\<forall>t. waiting s t \<longrightarrow> t = u" by (rule wait_inv_one [OF leave(2)])
  have "0 < pending s" if "pcs s v = Blocked" for v by (rule wait_invD(2) [OF leave(2) that])
  then show ?case using u wait_invD(1) [OF leave(2)]
    by (intro wait_invI [where u = u]) (auto simp: waiting_def split: if_splits)
qed

lemma wait_inv_run: "run one_waiter waits_init as s \<Longrightarrow> wait_inv s"
proof (induction rule: run.induct)
  case run_nil
  show ?case by (simp add: wait_inv_def waits_init_def waiting_def)
next
  case (run_snoc as s' a s'')
  then show ?case by (blast intro: wait_inv_step)
qed

text \<open>The code of the last response.\<close>

fun last_code :: "action list \<Rightarrow> int \<Rightarrow> int" where
  "last_code [] r = r"
| "last_code (Respond code t # as) r = last_code as code"
| "last_code (_ # as) r = last_code as r"

lemma last_code_snoc: "last_code (as @ [a]) r = (case a of Respond code t \<Rightarrow> code | _ \<Rightarrow> last_code as r)"
  by (induction as r rule: last_code.induct) (auto split: action.splits)

lemma cmd_result_run: "run P waits_init as s \<Longrightarrow> cmd_result s = last_code as 0"
proof (induction rule: run.induct)
  case (run_snoc as s' a s'')
  from run_snoc(3) show ?case using run_snoc(4)
    by cases (auto simp: last_code_snoc send_command_def wait_test_def wake_up_def final_response_def Let_def)
qed (simp add: waits_init_def)

lemma wake_up_returns: "pcs (wake_up t s) t = Returned r \<longleftrightarrow> cmd_inflight s = 0 \<and> r = cmd_result s"
  by (auto simp: wake_up_def wait_test_def)

text \<open>
  C30. While all writes succeed and at most one thread at a time waits for its command (others may
  send commands without waiting), no wake-up is lost and the result is not made up: a sleeping
  thread always has an unanswered command to wait for; the next response wakes it; once woken with
  all commands answered it returns the code of the last response, and it never returns earlier.
\<close>

theorem single_waiter_completes:
  assumes "run one_waiter waits_init as s"
  shows "(pcs s t = Blocked \<longrightarrow> pending s > 0 \<and>
      (\<forall>code u s'. step s (Respond code u) s' \<longrightarrow> u = Some t \<and> pcs s' t = Signalled \<and> pending s' = pending s - 1)) \<and>
    (pcs s t = Signalled \<longrightarrow> step s (Wake t) (wake_up t s) \<and>
      pcs (wake_up t s) t = (if pending s = 0 then Returned (last_code as 0) else Blocked))"
proof (intro conjI impI)
  have i: "wait_inv s" using wait_inv_run [OF assms(1)] .
  assume b: "pcs s t = Blocked"
  then have one: "pcs s u = Blocked \<Longrightarrow> u = t" for u using wait_invD(3) [OF i, of u t] by (simp add: waiting_def)
  show "pending s > 0" by (rule wait_invD(2) [OF i b])
  show "\<forall>code u s'. step s (Respond code u) s' \<longrightarrow> u = Some t \<and> pcs s' t = Signalled \<and> pending s' = pending s - 1"
  proof (intro allI impI)
    fix code u s' assume "step s (Respond code u) s'"
    then show "u = Some t \<and> pcs s' t = Signalled \<and> pending s' = pending s - 1"
      by (rule step_respondE) (use b one in \<open>auto simp: final_response_def\<close>)
  qed
next
  assume "pcs s t = Signalled"
  then show "step s (Wake t) (wake_up t s)" by (rule step.wake)
  show "pcs (wake_up t s) t = (if pending s = 0 then Returned (last_code as 0) else Blocked)"
    using wait_inv_run [OF assms(1)] cmd_result_run [OF assms(1)] by (simp add: wait_inv_def wake_up_def wait_test_def)
qed

text \<open>A run of one command: sent, answered, woken.\<close>

lemma runs:
  assumes "P s a" "step s a s'" "run P s' as s''"
  shows "run P s (a # as) s''"
  using assms(3)
proof (induction rule: run.induct)
  case run_nil
  then show ?case using run.run_snoc [OF run.run_nil, of P s a s'] assms by simp
next
  case (run_snoc as t b u)
  then show ?case using run.run_snoc [of P s "a # as"] by simp
qed

theorem single_waiter_completes_witness:
  "\<exists>s. run one_waiter waits_init [Send True True 0, Respond 200 (Some 0)] s \<and> pcs s 0 = Signalled \<and>
     pcs (wake_up 0 s) 0 = Returned 200"
proof -
  define s1 where "s1 = send_command True True 0 waits_init"
  define s2 where "s2 = final_response 200 (Some 0) s1"
  have b: "pcs s1 0 = Blocked" "pending s1 = 1" by (simp_all add: s1_def send_command_def wait_test_def waits_init_def)
  have "step waits_init (Send True True 0) s1" unfolding s1_def by (rule step.send) (simp add: waits_init_def)
  moreover have "one_waiter waits_init (Send True True 0)" by (simp add: waits_init_def waiting_def)
  moreover have "step s1 (Respond 200 (Some 0)) s2" unfolding s2_def by (rule step.respond) (simp_all add: b)
  ultimately have r: "run one_waiter waits_init [Send True True 0, Respond 200 (Some 0)] s2"
    by (intro runs [of one_waiter waits_init _ s1] runs [of one_waiter s1 _ s2] run.run_nil) simp_all
  have "pcs s2 0 = Signalled" "pending s2 = 0" by (simp_all add: s2_def final_response_def b)
  then show ?thesis using r single_waiter_completes [OF r, of 0] by auto
qed

section \<open>Commands that are not written\<close>

text \<open>Every action, in any state.\<close>

definition anything :: "waits \<Rightarrow> action \<Rightarrow> bool" where
  "anything s a = True"

lemma run_append: "run P s' bs s'' \<Longrightarrow> run P s as s' \<Longrightarrow> run P s (as @ bs) s''"
proof (induction rule: run.induct)
  case (run_snoc bs t b u)
  then show ?case using run.run_snoc [of P s "as @ bs" t b u] by simp
qed simp

text \<open>The commands that were counted although the daemon never got them.\<close>

fun unwritten :: "action list \<Rightarrow> nat" where
  "unwritten [] = 0"
| "unwritten (Send written wait t # as) = (if written then 0 else 1) + unwritten as"
| "unwritten (_ # as) = unwritten as"

lemma unwritten_append: "unwritten (as @ bs) = unwritten as + unwritten bs"
  by (induction as rule: unwritten.induct) simp_all

lemma unwritten_pos: "Send False wait t \<in> set as \<Longrightarrow> 0 < unwritten as"
  by (induction as rule: unwritten.induct) auto

lemma inflight_run: "run P waits_init as s \<Longrightarrow> cmd_inflight s = int (pending s) + int (unwritten as)"
proof (induction rule: run.induct)
  case (run_snoc as s' a s'')
  from run_snoc(3) show ?case using run_snoc(4)
    by cases (auto simp: unwritten_append send_command_def wait_test_def wake_up_def final_response_def Let_def of_nat_diff)
qed (simp add: waits_init_def)

text \<open>While commands are counted, a thread that waits goes on waiting.\<close>

lemma waiting_step:
  assumes "step s a s'" "cmd_inflight s > 0" "waiting s t"
  shows "waiting s' t"
  using assms by cases (auto simp: waiting_def send_command_def wait_test_def wake_up_def final_response_def Let_def split: if_splits)

text \<open>
  C31. A command that can not be written is counted as well, and after that no thread ever returns
  from waiting. Whatever happened before and happens afterwards (further commands, responses, other
  threads, wake-ups without a signal): a thread that waits at some time waits at every later time,
  and a thread that sends a command and is to wait for it goes to sleep.
\<close>

theorem unwritten_command_blocks:
  assumes "run anything waits_init as s" "Send False wait u \<in> set as" "run anything s bs s'"
  shows "(waiting s t \<longrightarrow> waiting s' t) \<and> (step s' (Send written True t) s'' \<longrightarrow> pcs s'' t = Blocked)"
proof (intro conjI impI)
  have pos: "0 < cmd_inflight v" if "run anything s cs v" for cs v
    using inflight_run [OF run_append [OF that assms(1)]] unwritten_pos [OF assms(2)] by (simp add: unwritten_append)
  show "waiting s' t" if "waiting s t" using assms(3) pos that
  proof (induction rule: run.induct)
    case (run_snoc cs v b v')
    then show ?case using waiting_step [OF run_snoc(3)] by blast
  qed simp
  show "pcs s'' t = Blocked" if "step s' (Send written True t) s''"
    using that pos [OF assms(3)] by (elim step_sendE) (simp add: send_command_def wait_test_def Let_def)
qed

theorem unwritten_command_blocks_witness:
  "\<exists>s s'. run anything waits_init [Send False True 0] s \<and>
     run anything s [Send True True 1, Respond 200 (Some 0), Wake 0, Spurious 1, Wake 1] s' \<and> waiting s' 0"
proof -
  note defs = send_command_def wait_test_def wake_up_def final_response_def waits_init_def
  define s where "s = send_command False True 0 waits_init"
  define s1 where "s1 = send_command True True 1 s"
  define s2 where "s2 = wake_up 0 (final_response 200 (Some 0) s1)"
  define s3 where "s3 = s2\<lparr>pcs := (pcs s2)(1 := Signalled)\<rparr>"
  have s1: "s1 = \<lparr>cmd_inflight = 2, cmd_result = 0, pending = 1, pcs = (\<lambda>_. Ready)(0 := Blocked, 1 := Blocked)\<rparr>"
    by (simp add: s1_def s_def defs)
  have s2: "s2 = \<lparr>cmd_inflight = 1, cmd_result = 200, pending = 0, pcs = (\<lambda>_. Ready)(0 := Blocked, 1 := Blocked)\<rparr>"
    by (simp add: s2_def s1 defs fun_eq_iff)
  have w: "waiting s 0" by (simp add: s_def defs waiting_def)
  have r: "run anything waits_init [Send False True 0] s" unfolding s_def
    by (rule runs [OF _ step.send run.run_nil]) (simp_all add: defs anything_def)
  have "run anything s2 [Spurious 1, Wake 1] (wake_up 1 s3)" unfolding s3_def
    by (rule runs [OF _ step.spurious runs [OF _ step.wake run.run_nil]]) (simp_all add: s2 anything_def)
  then have "run anything s1 [Respond 200 (Some 0), Wake 0, Spurious 1, Wake 1] (wake_up 1 s3)"
    by (intro runs [OF _ step.respond runs [OF _ step.wake]]) (simp_all add: anything_def s1 s2_def [unfolded s1] final_response_def)
  then have e: "run anything s [Send True True 1, Respond 200 (Some 0), Wake 0, Spurious 1, Wake 1] (wake_up 1 s3)"
    unfolding s1_def by (intro runs [OF _ step.send]) (simp_all add: anything_def s_def defs)
  have "waiting (wake_up 1 s3) 0" using unwritten_command_blocks [OF r _ e, of True 0 0] w by simp
  then show ?thesis using r e by blast
qed

section \<open>Lost wake-ups\<close>

text \<open>No new commands, and no wake-up of \<open>t\<close> without a signal.\<close>

fun quiet :: "nat \<Rightarrow> waits \<Rightarrow> action \<Rightarrow> bool" where
  "quiet t s (Send written wait u) \<longleftrightarrow> False"
| "quiet t s (Spurious u) \<longleftrightarrow> u \<noteq> t"
| "quiet t s _ \<longleftrightarrow> True"

lemma lost_step:
  assumes "step s a s'" "quiet u s a" "pending s = 0" "pcs s u = Blocked"
  shows "pending s' = 0 \<and> pcs s' u = Blocked"
  using assms by cases (auto simp: wake_up_def wait_test_def)

lemma lost_run: "run (quiet u) s as s' \<Longrightarrow> pending s = 0 \<Longrightarrow> pcs s u = Blocked \<Longrightarrow> pending s' = 0 \<and> pcs s' u = Blocked"
  by (induction rule: run.induct) (auto dest: lost_step)

text \<open>
  C34. A wake-up is lost when two threads wait: in any state in which only one command is still to
  be answered and two threads sleep, the response wakes one of them, \<open>t\<close>; it returns the code of the
  response, and the other one sleeps on although no command is left to be answered: it is still
  asleep after anything that happens, as long as no new command is sent and it does not wake up
  without a signal.
\<close>

theorem second_waiter_lost:
  assumes "pcs s t = Blocked" "pcs s u = Blocked" "t \<noteq> u" "cmd_inflight s = 1" "pending s = 1" "200 \<le> code" "code < 600"
  shows "\<exists>s1 s2. step s (Respond code (Some t)) s1 \<and> step s1 (Wake t) s2 \<and> pcs s2 t = Returned code \<and> cmd_inflight s2 = 0 \<and>
    (\<forall>as s'. run (quiet u) s2 as s' \<longrightarrow> pcs s' u = Blocked)"
proof (intro exI conjI allI impI)
  let ?s1 = "final_response code (Some t) s" and ?s2 = "wake_up t (final_response code (Some t) s)"
  show "step s (Respond code (Some t)) ?s1" using assms by (intro step.respond) simp_all
  show "step ?s1 (Wake t) ?s2" by (rule step.wake) (simp add: final_response_def)
  show "pcs ?s2 t = Returned code" "cmd_inflight ?s2 = 0"
    using assms by (simp_all add: wake_up_def wait_test_def final_response_def)
  show "pcs s' u = Blocked" if "run (quiet u) ?s2 as s'" for as s'
    using lost_run [OF that] assms by (simp add: wake_up_def wait_test_def final_response_def)
qed

text \<open>The state is reached by two threads that send a command each, and the response to the first one.\<close>

theorem second_waiter_lost_witness:
  "\<exists>s s1 s2. run anything waits_init [Send True True 0, Send True True 1, Respond 200 (Some 0), Wake 0] s \<and>
     step s (Respond 200 (Some 0)) s1 \<and> step s1 (Wake 0) s2 \<and> pcs s2 0 = Returned 200 \<and>
     (\<forall>as s'. run (quiet 1) s2 as s' \<longrightarrow> pcs s' 1 = Blocked)"
proof -
  note defs = send_command_def wait_test_def wake_up_def final_response_def waits_init_def
  define s1 where "s1 = send_command True True 1 (send_command True True 0 waits_init)"
  define s2 where "s2 = wake_up 0 (final_response 200 (Some 0) s1)"
  have s1: "s1 = \<lparr>cmd_inflight = 2, cmd_result = 0, pending = 2, pcs = (\<lambda>_. Ready)(0 := Blocked, 1 := Blocked)\<rparr>"
    by (simp add: s1_def defs)
  have s2: "s2 = \<lparr>cmd_inflight = 1, cmd_result = 200, pending = 1, pcs = (\<lambda>_. Ready)(0 := Blocked, 1 := Blocked)\<rparr>"
    by (simp add: s2_def s1 defs fun_eq_iff)
  have r2: "run anything s1 [Respond 200 (Some 0), Wake 0] s2" unfolding s2_def
    by (rule runs [OF _ step.respond runs [OF _ step.wake run.run_nil]]) (simp_all add: s1 defs anything_def)
  have "run anything waits_init [Send True True 0, Send True True 1, Respond 200 (Some 0), Wake 0] s2"
    by (rule runs [OF _ step.send runs [OF _ step.send r2 [unfolded s1_def]]]) (simp_all add: defs anything_def)
  then show ?thesis using second_waiter_lost [of s2 0 1 200] by (auto simp: s2)
qed

end
