(* ===== verification/Spec2Isabelle.thy ===== *)
theory Spec2Isabelle
  imports Byte_Utils Edify Hash_Table Applypatch_Partitions Verifier Recovery Vold_Wait
begin

text \<open>
  \<^bold>\<open>Verification of the Android recovery program\<close>

  The program is the recovery image of an Android phone, written in C: it checks the signature of
  an update package, runs the package's \<open>edify\<close> script, whose functions patch files and
  partitions, and manages the flash partitions and mounted volumes that this needs. This theory
  imports the theories that model its parts and documents them.

  \<^bold>\<open>Conventions.\<close>
  \<^item> \<open>Prelude\<close>: machine types of the 32-bit ARM target, reading and writing of C arrays, and the
    functions of the C library that several parts use. A result of type \<open>'a option\<close> stands for C
    code that can have no defined result: \<open>None\<close> is a read or write outside of an object, a null
    dereference, a signed overflow, a failed assertion, or a loop that does not end
    (\<open>partial_function (option)\<close>). Error codes are ordinary values below the option.
  \<^item> \<open>Os\<close>: files (path to inode), raw flash devices, and an oracle that decides for every system
    call whether it fails and how many bytes it transfers. A statement that does not restrict the
    oracle holds for every behaviour of the system; \<open>calls_succeed\<close> restricts it.
  \<^item> Code outside of the sources is a parameter: libbzip2, zlib, SHA-1 and the RSA check of
    mincrypt (records \<open>bzlib\<close>, \<open>zlib\<close>, \<open>shalib\<close>, \<open>libs\<close>, \<open>crypto\<close>), the library \<open>fs_mgr\<close>, shell
    commands and the volume daemon (record \<open>plat\<close>, \<open>vold_api\<close>). What is assumed about them is a
    named hypothesis, for instance \<open>bz_delivers\<close>, \<open>sha_streams\<close>, \<open>mounts_when_ok\<close>, and every
    theorem with such a hypothesis has a witness with a concrete instance.

  \<^bold>\<open>Parts.\<close>
  \<^item> \<open>Byte_Utils\<close> (\<open>src/applypatch/utils.c\<close>): little-endian readers and writers; C1 is their round
    trip. The locale \<open>fixed_codec\<close> of the prelude is interpreted on them and used by the decoders.
  \<^item> \<open>Edify\<close> (\<open>src/edify/expr.c\<close>): values, expressions, the evaluation functions, every builtin,
    the argument readers and the function table. C2: evaluation of a well formed script is total;
    C3: laws of the operators; C4: \<open>assert\<close> against its description; C5: the sorted function table
    implements a map; C6: integer comparison.
  \<^item> \<open>Hash_Table\<close> (\<open>src/minzip/Hash.c\<close>): the open addressing table. C7: it refines a finite map
    under any sequence of operations, probing always ends; C8: a presized table never grows; C9:
    traversal and clearing are complete.
  \<^item> \<open>Mtd\<close> (\<open>src/mtdutils/mtdutils.c\<close>): partition table, buffered reading and verified writing of
    raw flash with bad blocks. C10: what a successful write leaves on the device; C11: reading
    delivers the good blocks in order.
  \<^item> \<open>Bspatch\<close> (\<open>src/applypatch/bspatch.c\<close>) and \<open>Imgpatch\<close> (\<open>src/applypatch/imgpatch.c\<close>): the
    decoders. C12, C16: patches in the documented format are applied as documented; C13: output
    size; C17: the hash is that of the output; C18: a rejected chunk is ignored.
  \<^item> \<open>Retouch\<close> (\<open>src/minelf/Retouch.c\<close>): masking of relocated libraries. C14: total and in bounds;
    C15: a retouched library masks to the original.
  \<^item> \<open>Freecache\<close> (\<open>src/applypatch/freecache.c\<close>): C19: what may be deleted to make room.
  \<^item> \<open>Sinks\<close>, \<open>Applypatch\<close>, \<open>Applypatch_Correct\<close>, \<open>Applypatch_Files\<close>, \<open>Applypatch_Partitions\<close>
    (\<open>src/applypatch/applypatch.c\<close>): loading, saving, verified writing, and the patching of a
    file or a partition, which composes the decoders, \<open>Freecache\<close>, \<open>Retouch\<close> and \<open>Mtd\<close>. C20, C23:
    success means that the target has the digest asked for; C21: a failed run can be repeated;
    C22: a loaded partition has the announced digest; C24: a partition patch can not be resumed
    from the copy in the cache.
  \<^item> \<open>Verifier\<close> (\<open>src/verifier.c\<close>): the whole-file signature and the key file. C25: success means
    that a key signs the file; C26: signed files are accepted; C27: a short comment leads to a
    read outside of the buffer; C28: round trip of the key file format.
  \<^item> \<open>Vold\<close>, \<open>Vold_Wait\<close> (\<open>src/voldclient\<close>): the client of the volume daemon. \<open>Vold\<close> has the table
    of volumes and the commands, C29: the table refines the map that the messages describe.
    \<open>Vold_Wait\<close> has the waiting for a response as a step relation with the interleavings of the
    threads, C30: with one waiting thread no wake-up is lost; C31: otherwise it can be.
  \<^item> \<open>Mounts\<close> (\<open>src/mounts.c\<close>) and \<open>Roots\<close> (\<open>src/roots.c\<close>): the table of mounted volumes, read from
    \<open>/proc/mounts\<close>, and mounting and unmounting on top of it, of \<open>Mtd\<close> and of \<open>Vold\<close>. C32, C33:
    what \<open>ensure_path_mounted\<close> and \<open>ensure_path_unmounted\<close> do to the kernel's mounts.

  \<^bold>\<open>Bounds and fuel.\<close>
  \<open>generate_loop\<close> of \<open>Applypatch\<close> has fuel 2: its flag allows one retry, so that the loop body runs
  at most twice, and the fuel never runs out. \<open>write_attempts\<close> of \<open>Mtd\<close> and \<open>emmc_attempts\<close> of
  \<open>Applypatch\<close> recurse over the number of attempts of the source. All other loops are structural,
  have a termination proof, or are partial functions whose results are proved to exist where a
  theorem says that the code returns.

  \<^bold>\<open>Not modelled.\<close>
  Directories and symbolic links, whose calls only have a status; the contents of the log. Of the
  program: the display, the menus and the input (\<open>ui.c\<close>, \<open>minui\<close>, \<open>extendedcommands.c\<close>), the adb
  daemon (\<open>minadbd\<close>), backups (\<open>nandroid.c\<close>, \<open>dedupe\<close>), the zip reader (\<open>minzip/Zip.c\<close>), the
  functions of the update binary (\<open>updater\<close>), installation (\<open>install.c\<close>), formatting of volumes,
  the tools for other flash types, and the host tools that produce patches: they drive devices,
  processes, threads and generated code. The scanner and parser of \<open>edify\<close> are generated by the
  build; the expressions they build are the input of the model.
\<close>

end
